(* ===== verification/Prelude.thy ===== *)
theory Prelude
  imports Main "HOL-Library.Word" "HOL-Library.Monad_Syntax" "HOL-Library.Sublist"
    "HOL-Library.Char_ord" "HOL-Library.List_Lexorder"
begin

section \<open>Shared types, outcomes and generic lemmas\<close>

text \<open>
  What every theory of the development uses: the machine types of the C++ code, the outcome
  type of a C++ computation, reads from a block of memory, and the conversions between the
  bytes of the wire and the characters of a C string. Two interfaces are stated here as
  locales: a prefix codec (an encoder whose output is recognised in front of any rest) and a
  step relation (a reflexive and transitive relation between the states of a computation).
\<close>

unbundle bit_operations_syntax

subsection \<open>Machine types\<close>

type_synonym byte = "8 word"
type_synonym u16 = "16 word"
type_synonym u32 = "32 word"
type_synonym u64 = "64 word"
type_synonym bytes = "byte list"

text \<open>
  A C++ computation returns a value, or it has undefined behaviour: a read outside an
  allocation, a null pointer, a shift by at least the width, a signed overflow of a size. The
  second is the outcome \<open>None\<close>, so that the absence of undefined behaviour is a
  provable equation \<open>f x = Some y\<close>.
\<close>

type_synonym 'a outcome = "'a option"

named_theorems outcome_simps \<open>evaluating outcomes and memory reads\<close>
named_theorems byte_simps \<open>bytes, bits and machine words\<close>

lemma bind_eq_SomeE:
  assumes "Option.bind m f = Some y"
  obtains x where "m = Some x" and "f x = Some y"
  using assms by (cases m) auto

lemma bind_Some_iff: "(Option.bind m f = Some y) \<longleftrightarrow> (\<exists>x. m = Some x \<and> f x = Some y)"
  by (cases m) auto

subsection \<open>Memory\<close>

text \<open>
  \<open>rd m i\<close> reads one byte at offset \<open>i\<close> of the allocation \<open>m\<close>;
  \<open>rd_n m i n\<close> copies \<open>n\<close> bytes from there. Both are undefined outside it.
\<close>

definition rd :: "bytes \<Rightarrow> nat \<Rightarrow> byte outcome" where
  "rd m i = (if i < length m then Some (m ! i) else None)"

definition rd_n :: "bytes \<Rightarrow> nat \<Rightarrow> nat \<Rightarrow> bytes outcome" where
  "rd_n m i n = (if i + n \<le> length m then Some (take n (drop i m)) else None)"

lemma rd_append1 [outcome_simps]: "i < length xs \<Longrightarrow> rd (xs @ ys) i = Some (xs ! i)"
  by (simp add: rd_def nth_append)

lemma rd_mid [outcome_simps]: "rd (xs @ y # ys) (length xs) = Some y"
  by (simp add: rd_def)

lemma rd_Cons_0 [outcome_simps]: "rd (x # xs) 0 = Some x"
  by (simp add: rd_def)

lemma rd_outside: "length m \<le> i \<Longrightarrow> rd m i = None"
  by (simp add: rd_def)

lemma rd_n_mid [outcome_simps]:
  "n = length ys \<Longrightarrow> i = length xs \<Longrightarrow> rd_n (xs @ ys @ zs) i n = Some ys"
  by (simp add: rd_n_def)

lemma rd_n_outside: "length m < i + n \<Longrightarrow> rd_n m i n = None"
  by (simp add: rd_n_def)

lemma rd_n_length: "rd_n m i n = Some bs \<Longrightarrow> length bs = n"
  by (auto simp: rd_n_def split: if_splits)

subsection \<open>Characters and bytes\<close>

text \<open>A C string is a list of characters; on the wire a character is a byte.\<close>

definition byte_of :: "char \<Rightarrow> byte" where
  "byte_of c = word_of_nat (of_char c)"

definition chr_of :: "byte \<Rightarrow> char" where
  "chr_of b = char_of (unat b)"

definition to_bytes :: "string \<Rightarrow> bytes" where
  "to_bytes s = map byte_of s"

definition of_bytes :: "bytes \<Rightarrow> string" where
  "of_bytes bs = map chr_of bs"

lemma byte_of_unat: "unat (byte_of c) = (of_char c :: nat)"
proof -
  have "(of_char c :: nat) < 256"
    by (cases c) simp
  then show ?thesis
    by (simp add: byte_of_def unat_of_nat)
qed

lemma chr_of_byte_of [simp]: "chr_of (byte_of c) = c"
  by (simp add: chr_of_def byte_of_unat)

lemma byte_of_chr_of [simp]: "byte_of (chr_of b) = b"
proof -
  have "unat b < 256"
    using unsigned_less [of b] by simp
  then show ?thesis
    by (simp add: chr_of_def byte_of_def of_char_of)
qed

lemma of_bytes_to_bytes [simp]: "of_bytes (to_bytes s) = s"
  by (simp add: of_bytes_def to_bytes_def comp_def)

lemma to_bytes_of_bytes [simp]: "to_bytes (of_bytes bs) = bs"
  by (simp add: of_bytes_def to_bytes_def comp_def)

lemma length_to_bytes [simp]: "length (to_bytes s) = length s"
  by (simp add: to_bytes_def)

lemma length_of_bytes [simp]: "length (of_bytes bs) = length bs"
  by (simp add: of_bytes_def)

lemma to_bytes_append [simp]: "to_bytes (s @ t) = to_bytes s @ to_bytes t"
  by (simp add: to_bytes_def)

lemma of_bytes_append [simp]: "of_bytes (s @ t) = of_bytes s @ of_bytes t"
  by (simp add: of_bytes_def)

abbreviation NUL :: char where
  "NUL \<equiv> CHR 0x00"

text \<open>What \<open>c_str()\<close> shows of a \<open>std::string\<close>: everything before the first NUL.\<close>

definition cstr :: "string \<Rightarrow> string" where
  "cstr s = takeWhile (\<lambda>c. c \<noteq> NUL) s"

definition no_nul :: "string \<Rightarrow> bool" where
  "no_nul s \<longleftrightarrow> NUL \<notin> set s"

lemma cstr_id [simp]: "no_nul s \<Longrightarrow> cstr s = s"
  unfolding cstr_def no_nul_def takeWhile_eq_all_conv by metis

lemma cstr_append_NUL [simp]: "no_nul s \<Longrightarrow> cstr (s @ NUL # t) = s"
  by (auto simp: cstr_def no_nul_def takeWhile_tail takeWhile_append)

lemma no_nul_cstr [simp]: "no_nul (cstr s)"
  by (auto simp: cstr_def no_nul_def dest: set_takeWhileD)

lemma no_nul_append [simp]: "no_nul (s @ t) \<longleftrightarrow> no_nul s \<and> no_nul t"
  by (auto simp: no_nul_def)

lemma no_nul_Nil [simp]: "no_nul []"
  by (simp add: no_nul_def)

lemma no_nul_Cons [simp]: "no_nul (c # s) \<longleftrightarrow> c \<noteq> NUL \<and> no_nul s"
  by (auto simp: no_nul_def)

subsection \<open>Words\<close>

lemma take_bit_unat [simp]: "take_bit LENGTH('a) (unat (w :: 'a::len word)) = unat w"
  by (simp add: take_bit_nat_eq_self)

lemma unat_drop_bit [byte_simps]: "unat (drop_bit n (w :: 'a::len word)) = unat w div 2 ^ n"
  by (simp only: unsigned_drop_bit_eq take_bit_unat) (simp add: drop_bit_eq_div)

lemma unat_push_bit [byte_simps]:
  "unat (push_bit n (w :: 'a::len word)) = (unat w * 2 ^ n) mod 2 ^ LENGTH('a)"
  by (simp only: unsigned_push_bit_eq) (simp add: push_bit_eq_mult take_bit_eq_mod)

lemma unat_and_mask [byte_simps]: "unat (w AND mask n :: 'a::len word) = unat w mod 2 ^ n"
proof -
  have "unat (w AND mask n) = take_bit n (unat w)"
    by (simp only: unsigned_take_bit_eq flip: take_bit_eq_mask)
  then show ?thesis
    by (simp add: take_bit_eq_mod)
qed

text \<open>The masks of the source, bit by bit (the simplifier reads a word numeral's bits off the integer).\<close>

lemma bit_mask_int: "bit (mask k :: int) n \<longleftrightarrow> n < k"
  by (simp add: bit_mask_iff)

lemma bit_pow_int: "bit (2 ^ k :: int) n \<longleftrightarrow> n = k"
  by (auto simp: bit_exp_iff)

lemma bit_127 [byte_simps]: "bit (127 :: int) n \<longleftrightarrow> n < 7"
  using bit_mask_int [of 7 n] by (simp add: mask_eq_exp_minus_1)

lemma bit_128 [byte_simps]: "bit (128 :: int) n \<longleftrightarrow> n = 7"
  using bit_pow_int [of 7 n] by simp

lemma mod_once: "N \<le> x \<Longrightarrow> x < 2 * N \<Longrightarrow> x mod N = x - (N :: nat)"
proof -
  assume "N \<le> x" and "x < 2 * N"
  then have "x - N < N"
    by linarith
  then show ?thesis
    using le_mod_geq [OF \<open>N \<le> x\<close>] mod_less [of "x - N" N] by simp
qed

lemma unat_u32: "n < 2 ^ 32 \<Longrightarrow> unat (word_of_nat n :: u32) = n"
  by (simp add: unat_of_nat)

lemma unat_byte: "n < 256 \<Longrightarrow> unat (word_of_nat n :: byte) = n"
  by (simp add: unat_of_nat)

lemma sint_small:
  assumes "unat (w :: u32) < 2 ^ 31"
  shows "sint w = int (unat w)"
proof -
  have "sint w = signed_take_bit 31 (int (unat w))"
    by (simp add: sint_uint)
  moreover have "int (unat w) < 2 ^ 31"
    using assms by (metis of_nat_less_iff of_nat_numeral of_nat_power)
  then have "signed_take_bit 31 (int (unat w)) = int (unat w)"
    by (intro signed_take_bit_int_eq_self order_trans [OF _ of_nat_0_le_iff]) simp_all
  ultimately show ?thesis
    by simp
qed

subsection \<open>Interface: a prefix codec\<close>

text \<open>
  \<open>dec_many\<close> decodes a given number of items one after the other. A prefix codec
  recognises each encoded item in front of any rest; then no encoding continues another, and a
  sequence of encodings is decoded item by item.
\<close>

fun dec_many :: "(bytes \<Rightarrow> ('a \<times> bytes) option) \<Rightarrow> nat \<Rightarrow> bytes \<Rightarrow> ('a list \<times> bytes) option" where
  "dec_many dec 0 bs = Some ([], bs)"
| "dec_many dec (Suc n) bs =
     (case dec bs of None \<Rightarrow> None
      | Some (x, bs') \<Rightarrow> map_option (\<lambda>(xs, r). (x # xs, r)) (dec_many dec n bs'))"

locale prefix_codec =
  fixes enc :: "'a \<Rightarrow> bytes"
    and dec :: "bytes \<Rightarrow> ('a \<times> bytes) option"
    and ok :: "'a \<Rightarrow> bool"
  assumes dec_enc: "ok x \<Longrightarrow> dec (enc x @ rest) = Some (x, rest)"
begin

lemma enc_inj: "ok x \<Longrightarrow> ok y \<Longrightarrow> enc x @ r = enc y @ s \<Longrightarrow> x = y \<and> r = s"
  by (metis dec_enc option.inject prod.inject)

lemma dec_many_enc: "list_all ok xs \<Longrightarrow> dec_many dec (length xs) (concat (map enc xs) @ rest) = Some (xs, rest)"
  by (induction xs) (simp_all add: dec_enc)

lemma concat_inj:
  "list_all ok xs \<Longrightarrow> list_all ok ys \<Longrightarrow> length xs = length ys \<Longrightarrow>
     concat (map enc xs) = concat (map enc ys) \<Longrightarrow> xs = ys"
  by (metis dec_many_enc option.inject prod.inject)

end

subsection \<open>Interface: steps of a state\<close>

text \<open>
  A step relation is reflexive and transitive, so a computation whose every part takes a step takes
  one in all: over a list, and for any number of rounds.
\<close>

locale step_relation =
  fixes R :: "'s \<Rightarrow> 's \<Rightarrow> bool"
  assumes step_refl: "R c c"
    and step_trans: "R a b \<Longrightarrow> R b c \<Longrightarrow> R a c"
begin

lemma each:
  assumes "\<And>x c d. f x c = Some d \<Longrightarrow> R c d"
    and "\<And>c. g [] c = Some c" and "\<And>x xs c. g (x # xs) c = Option.bind (f x c) (g xs)"
    and "g xs c = Some d"
  shows "R c d"
  using assms(4)
proof (induction xs arbitrary: c)
  case Nil
  then show ?case
    by (simp add: assms(2) step_refl)
next
  case (Cons x xs)
  then obtain b where "f x c = Some b" "g xs b = Some d"
    by (auto simp: assms(3) bind_eq_Some_conv)
  then show ?case
    using assms(1) Cons.IH step_trans by blast
qed

lemma rounds:
  assumes "\<And>n c r d. f n c = Some (r, d) \<Longrightarrow> R c d" and "\<And>c. g 0 c = None"
    and "\<And>n c. g (Suc n) c = Option.bind (f n c) (\<lambda>(r, d). if stop r then Some (res r, d) else g n d)"
    and "g n c = Some (r, d)"
  shows "R c d"
  using assms(4)
proof (induction n arbitrary: c)
  case 0
  then show ?case
    by (simp add: assms(2))
next
  case (Suc n)
  then obtain q b where "f n c = Some (q, b)" "(if stop q then Some (res q, b) else g n b) = Some (r, d)"
    by (auto simp: assms(3) bind_eq_Some_conv)
  then show ?case
    using assms(1) [of n c q b] Suc.IH [of b] step_trans [of c b d] by (auto split: if_splits)
qed

end

subsection \<open>Interface: a buffer in front of a socket\<close>

text \<open>
  What was sent is what the socket has taken and what waits; putting octets in adds them at the end, going on adds nothing,
  and what the socket has taken stays.
\<close>

datatype send_op = Put bytes | Go_on

primrec run_sends :: "(bytes \<Rightarrow> 's \<Rightarrow> 's) \<Rightarrow> ('s \<Rightarrow> 's) \<Rightarrow> send_op list \<Rightarrow> 's \<Rightarrow> 's" where
  "run_sends put go_on [] s = s"
| "run_sends put go_on (x # xs) s = run_sends put go_on xs (case x of Put b \<Rightarrow> put b s | Go_on \<Rightarrow> go_on s)"

definition put_octets :: "send_op list \<Rightarrow> bytes" where
  "put_octets xs = concat (map (\<lambda>x. case x of Put b \<Rightarrow> b | Go_on \<Rightarrow> []) xs)"

locale send_queue =
  fixes put :: "bytes \<Rightarrow> 's \<Rightarrow> 's" and go_on :: "'s \<Rightarrow> 's" and taken :: "'s \<Rightarrow> bytes" and sent :: "'s \<Rightarrow> bytes"
    and inv :: "'s \<Rightarrow> bool"
  assumes put_sent: "inv s \<Longrightarrow> sent (put b s) = sent s @ b" and go_sent: "inv s \<Longrightarrow> sent (go_on s) = sent s"
    and put_taken: "inv s \<Longrightarrow> prefix (taken s) (taken (put b s))" and go_taken: "inv s \<Longrightarrow> prefix (taken s) (taken (go_on s))"
    and put_inv: "inv s \<Longrightarrow> inv (put b s)" and go_inv: "inv s \<Longrightarrow> inv (go_on s)"
begin

lemma run_queue:
  "inv s \<Longrightarrow> sent (run_sends put go_on xs s) = sent s @ put_octets xs \<and> prefix (taken s) (taken (run_sends put go_on xs s)) \<and>
     inv (run_sends put go_on xs s)"
proof (induction xs arbitrary: s)
  case (Cons x xs)
  let ?s = "case x of Put b \<Rightarrow> put b s | Go_on \<Rightarrow> go_on s"
  have step: "inv ?s" "sent ?s = sent s @ put_octets [x]" "prefix (taken s) (taken ?s)"
    using Cons.prems by (cases x; simp add: put_octets_def put_sent go_sent put_inv go_inv put_taken go_taken)+
  then show ?case
    using Cons.IH [OF step(1)] prefix_order.trans [OF step(3)] by (simp add: put_octets_def)
qed (simp add: put_octets_def)

end

end
