(* ===== verification/Hpack_Int.thy ===== *)
theory Hpack_Int
  imports Prelude
begin

section \<open>HPACK integers (src/src/hpack.cpp)\<close>

text \<open>
  The prefix integers of \<open>encode_integer\<close> and \<open>decode_integer\<close>, with the four
  wrappers that call them with a limit of \<open>MAX_BYTES_OF_LENGTH\<close> bytes. A pointer into
  a buffer is the list of bytes from that pointer to the end of its allocation, and
  \<open>lim\<close> is \<open>buf_end - buf_start\<close>, which the callers set without looking at the
  allocation: a read behind the end of the allocation is the outcome \<open>None\<close>.
\<close>

definition MAX_BYTES_OF_LENGTH :: nat where
  "MAX_BYTES_OF_LENGTH = 256"

definition UINT32_MAX :: u32 where
  "UINT32_MAX = - 1"

text \<open>\<open>static_cast<uint32_t>(1 << n) - 1\<close>\<close>

definition prefix_max :: "nat \<Rightarrow> u32" where
  "prefix_max n = push_bit n 1 - 1"

text \<open>
  The continuation loop of \<open>decode_integer\<close>: \<open>p\<close> is the offset of the byte read
  last, \<open>m\<close> the shift. Shifting a 32-bit value by 32 or more is undefined in C++, and
  nothing in the loop excludes it.
\<close>

function decode_loop :: "bytes \<Rightarrow> nat \<Rightarrow> nat \<Rightarrow> nat \<Rightarrow> u32 \<Rightarrow> (int \<times> u32) outcome" where
  "decode_loop mem lim p m dst =
     (if p + 1 \<ge> lim then Some (- 1, dst)
      else do {
        b \<leftarrow> rd mem (p + 1);
        let added_value = (ucast b :: u32) AND 0x7f;
        if m \<ge> 32 then None
        else if drop_bit m UINT32_MAX < added_value then Some (- 1, dst)
        else if b AND 0x80 \<noteq> 0
             then decode_loop mem lim (p + 1) (m + 7) (dst + push_bit m added_value)
             else Some (int (p + 1) + 1, dst + push_bit m added_value)
      })"
  by pat_completeness auto
termination
  by (relation "measure (\<lambda>(mem, lim, p, m, dst). lim - p)") auto

declare decode_loop.simps [simp del]

definition decode_integer :: "u32 \<Rightarrow> bytes \<Rightarrow> nat \<Rightarrow> nat \<Rightarrow> (int \<times> u32) outcome" where
  "decode_integer dst0 mem lim n =
     (if 0 \<ge> lim then Some (- 1, dst0)
      else do {
        b \<leftarrow> rd mem 0;
        let dst = (ucast b :: u32) AND prefix_max n;
        if dst = prefix_max n then decode_loop mem lim 0 0 dst
        else Some (1, dst)
      })"

text \<open>
  The encoder writes from \<open>buf_start\<close> on; the model returns the bytes written beside
  the return value, and the caller places them.
\<close>

function encode_loop :: "nat \<Rightarrow> bytes \<Rightarrow> u32 \<Rightarrow> int \<times> bytes" where
  "encode_loop lim out value =
     (if value \<ge> 128 then
        if length out \<ge> lim then (- 1, out)
        else encode_loop lim (out @ [ucast ((value AND 0x7F) OR 0x80)]) (drop_bit 7 value)
      else if length out + 1 \<ge> lim then (- 1, out)
      else (int (length out) + 1, out @ [ucast value]))"
  by pat_completeness auto
termination
  by (relation "measure (\<lambda>(lim, out, value). unat value)")
    (auto simp: unat_drop_bit word_le_nat_alt)

declare encode_loop.simps [simp del]

definition encode_integer :: "nat \<Rightarrow> u32 \<Rightarrow> nat \<Rightarrow> int \<times> bytes" where
  "encode_integer lim value n =
     (if 0 \<ge> lim then (- 1, [])
      else if value < prefix_max n then (1, [ucast value])
      else encode_loop lim [ucast (prefix_max n)] (value - prefix_max n))"

text \<open>
  The wrappers: the integer's length in bytes and, for a string, the pointer to its first
  octet (an offset, or \<open>None\<close> for the null pointer when the integer did not fit).
\<close>

definition encode_http2_header_string :: "u32 \<Rightarrow> (int \<times> nat option) \<times> bytes" where
  "encode_http2_header_string len =
     (let (integer_len, out) = encode_integer MAX_BYTES_OF_LENGTH len 7
      in ((integer_len, if integer_len < 0 then None else Some (nat integer_len)), out))"

definition decode_http2_header_string :: "bytes \<Rightarrow> (int \<times> u32 \<times> nat option) outcome" where
  "decode_http2_header_string mem = do {
     (integer_len, dst) \<leftarrow> decode_integer 0 mem MAX_BYTES_OF_LENGTH 7;
     Some (integer_len, dst, if integer_len < 0 then None else Some (nat integer_len))
   }"

definition encode_http2_header_index :: "nat \<Rightarrow> u32 \<Rightarrow> int \<times> bytes" where
  "encode_http2_header_index nprefix len = encode_integer MAX_BYTES_OF_LENGTH len nprefix"

definition decode_http2_header_index :: "bytes \<Rightarrow> nat \<Rightarrow> (int \<times> u32) outcome" where
  "decode_http2_header_index mem nprefix = decode_integer 0 mem MAX_BYTES_OF_LENGTH nprefix"

subsection \<open>The encoder's continuation bytes\<close>

text \<open>What the encoder's loop appends, and how many bytes that is.\<close>

function groups :: "u32 \<Rightarrow> bytes" where
  "groups v = (if v \<ge> 128 then ucast ((v AND 0x7F) OR 0x80) # groups (drop_bit 7 v)
               else [ucast v])"
  by pat_completeness auto
termination
  by (relation "measure unat") (auto simp: unat_drop_bit word_le_nat_alt)

declare groups.simps [simp del]

lemma unat_drop_7: "unat (drop_bit 7 (v :: u32)) = unat v div 128"
  by (simp add: unat_drop_bit)

lemma groups_length: "unat v < 128 ^ Suc k \<Longrightarrow> length (groups v) \<le> Suc k"
proof (induction k arbitrary: v)
  case 0
  then have "v < 128"
    by (simp add: word_less_nat_alt)
  then show ?case
    by (simp add: groups.simps not_le)
next
  case (Suc k)
  then have "unat (drop_bit 7 v) < 128 ^ Suc k"
    by (simp add: unat_drop_7 less_mult_imp_div_less)
  then have "length (groups (drop_bit 7 v)) \<le> Suc k"
    by (rule Suc.IH)
  then show ?case
    by (simp add: groups.simps [of v])
qed

lemma groups_length_5: "length (groups v) \<le> 5"
proof -
  have "unat v < 2 ^ 32"
    using unsigned_less [of v, where 'a = nat] by simp
  then have "unat v < 128 ^ Suc 4"
    by simp
  then show ?thesis
    using groups_length by fastforce
qed

lemma encode_loop_groups:
  "length out + length (groups v) < lim \<Longrightarrow>
     encode_loop lim out v = (int (length out + length (groups v)), out @ groups v)"
proof (induction lim out v rule: encode_loop.induct)
  case (1 lim out v)
  show ?case
  proof (cases "v \<ge> 128")
    case True
    with "1.prems" show ?thesis
      using "1.IH" by (simp add: encode_loop.simps [of lim out v] groups.simps [of v])
  next
    case False
    with "1.prems" show ?thesis
      by (simp add: encode_loop.simps [of lim out v] groups.simps [of v])
  qed
qed

subsection \<open>Decoding what the encoder wrote\<close>

lemma prefix_max_mask: "prefix_max n = mask n"
  by (simp add: prefix_max_def mask_eq_exp_minus_1 push_bit_eq_mult)

lemma more_byte_low: "(ucast (ucast ((v AND 0x7F) OR 0x80 :: u32) :: byte) :: u32) AND 0x7F = take_bit 7 v"
  by (rule bit_word_eqI) (auto simp: bit_simps byte_simps)

lemma more_byte_high: "(ucast ((v AND 0x7F) OR 0x80 :: u32) :: byte) AND 0x80 \<noteq> 0"
proof -
  have "bit ((ucast ((v AND 0x7F) OR 0x80 :: u32) :: byte) AND 0x80) 7"
    by (simp add: bit_simps byte_simps)
  then show ?thesis
    by (metis bit_0_eq bot_apply bot_bool_def)
qed

lemma small_take_bit: "v < 128 \<Longrightarrow> take_bit 7 (v :: u32) = v"
  by (simp add: word_less_nat_alt unsigned_take_bit_eq take_bit_nat_eq_self word_unat_eq_iff)

lemma last_byte_low: "v < 128 \<Longrightarrow> (ucast (ucast (v :: u32) :: byte) :: u32) AND 0x7F = v"
proof -
  assume "v < 128"
  moreover have "(ucast (ucast (v :: u32) :: byte) :: u32) AND 0x7F = take_bit 7 v"
    by (rule bit_word_eqI) (auto simp: bit_simps byte_simps)
  ultimately show ?thesis
    by (simp add: small_take_bit)
qed

lemma last_byte_high: "v < 128 \<Longrightarrow> (ucast (v :: u32) :: byte) AND 0x80 = 0"
proof -
  assume v: "v < 128"
  have "\<not> bit v 7"
    using small_take_bit [OF v] by (metis bit_take_bit_iff less_irrefl)
  then show ?thesis
    by (intro bit_word_eqI) (auto simp: bit_simps byte_simps)
qed

lemma shift_guard:
  "unat a * 2 ^ m < 2 ^ 32 \<Longrightarrow> \<not> drop_bit m UINT32_MAX < a"
proof -
  assume a: "unat a * 2 ^ m < 2 ^ 32"
  have "unat a \<le> (2 ^ 32 - 1) div 2 ^ m"
    using a by (simp add: less_eq_div_iff_mult_less_eq)
  moreover have "unat UINT32_MAX = 2 ^ 32 - 1"
    by (simp add: UINT32_MAX_def unsigned_minus_1_eq_mask mask_eq_exp_minus_1)
  ultimately show ?thesis
    by (simp add: word_less_nat_alt unat_drop_bit)
qed

lemma split_low_7: "push_bit m (take_bit 7 v) + push_bit (m + 7) (drop_bit 7 v) = push_bit m (v :: u32)"
proof -
  have "v = take_bit 7 v + push_bit 7 (drop_bit 7 v)"
    using bits_ident [of 7 v] by (simp add: add.commute)
  then have "push_bit m v = push_bit m (take_bit 7 v) + push_bit m (push_bit 7 (drop_bit 7 v))"
    by (metis push_bit_add)
  then show ?thesis
    by (simp add: add.commute)
qed

lemma decode_loop_groups:
  assumes "m < 32" and "unat v * 2 ^ m < 2 ^ 32" and "p + length (groups v) < lim"
    and "length pre = p + 1"
  shows "decode_loop (pre @ groups v @ rest) lim p m dst =
           Some (int (p + 1 + length (groups v)), dst + push_bit m v)"
  using assms
proof (induction v arbitrary: pre p m dst rule: groups.induct)
  case (1 v)
  show ?case
  proof (cases "v \<ge> 128")
    case True
    let ?b = "ucast ((v AND 0x7F) OR 0x80) :: byte"
    have g: "groups v = ?b # groups (drop_bit 7 v)"
      using True by (simp add: groups.simps [of v])
    have v: "128 \<le> unat v"
      using True by (simp add: word_le_nat_alt)
    have "unat v div 128 * 2 ^ (m + 7) \<le> unat v * 2 ^ m"
      by (simp add: power_add)
    then have step: "unat (drop_bit 7 v) * 2 ^ (m + 7) < 2 ^ 32"
      using "1.prems"(2) by (simp add: unat_drop_7)
    have "2 ^ (m + 7) \<le> unat (drop_bit 7 v) * 2 ^ (m + 7)"
      using v by (simp add: unat_drop_7 div_greater_zero_iff Suc_leI)
    with step have m: "m + 7 < 32"
      using nat_power_less_imp_less [of 2 "m + 7" 32] by linarith
    have low: "(ucast ?b :: u32) AND 0x7F = take_bit 7 v"
      by (rule more_byte_low)
    have "unat (take_bit 7 v) * 2 ^ m \<le> unat v * 2 ^ m"
      by (simp add: unsigned_take_bit_eq)
    then have guard: "\<not> drop_bit m UINT32_MAX < take_bit 7 v"
      using "1.prems"(2) by (intro shift_guard) linarith
    have at: "rd (pre @ groups v @ rest) (p + 1) = Some ?b"
      using "1.prems"(4) g rd_mid [of pre ?b "groups (drop_bit 7 v) @ rest"] by simp
    have "decode_loop ((pre @ [?b]) @ groups (drop_bit 7 v) @ rest) lim (p + 1) (m + 7)
            (dst + push_bit m (take_bit 7 v)) =
          Some (int (p + 1 + 1 + length (groups (drop_bit 7 v))),
            dst + push_bit m (take_bit 7 v) + push_bit (m + 7) (drop_bit 7 v))"
      using True m step "1.prems" g by (intro "1.IH") simp_all
    then show ?thesis
      using "1.prems"(1,3) at low guard more_byte_high [of v] split_low_7 [of m v] g
      by (subst decode_loop.simps) (simp add: add.assoc)
  next
    case False
    then have v: "v < 128" and g: "groups v = [ucast v]"
      by (simp_all add: groups.simps [of v])
    have at: "rd (pre @ groups v @ rest) (p + 1) = Some (ucast v)"
      using "1.prems"(4) g rd_mid [of pre "ucast v" rest] by simp
    show ?thesis
      using "1.prems" at g last_byte_low [OF v] last_byte_high [OF v] shift_guard [of v m]
      by (subst decode_loop.simps) simp
  qed
qed

text \<open>
  The first octet may carry other bits above the prefix (the Huffman flag, the representation
  tag): \<open>decode_integer\<close> reads the low \<open>n\<close> bits only.
\<close>

lemma decode_loop_first: "decode_loop (b # mem) lim p m dst = decode_loop (c # mem) lim p m dst"
proof (induction "lim - p" arbitrary: p m dst rule: less_induct)
  case less
  have "rd (b # mem) (p + 1) = rd (c # mem) (p + 1)"
    by (simp add: rd_def)
  with less show ?case
    by (subst (1 2) decode_loop.simps) (auto simp: Let_def intro!: Option.bind_cong)
qed

lemma decode_integer_first:
  "(ucast b :: u32) AND prefix_max n = (ucast c :: u32) AND prefix_max n \<Longrightarrow>
     decode_integer d (b # mem) lim n = decode_integer d (c # mem) lim n"
  using decode_loop_first [of b mem lim _ _ _ c] by (simp add: decode_integer_def outcome_simps Let_def)

lemma encode_integer_cases:
  assumes "7 \<le> lim"
  shows "v < prefix_max n \<Longrightarrow> encode_integer lim v n = (1, [ucast v])"
    and "\<not> v < prefix_max n \<Longrightarrow> encode_integer lim v n =
           (int (Suc (length (groups (v - prefix_max n)))), ucast (prefix_max n) # groups (v - prefix_max n))"
  using assms groups_length_5 [of "v - prefix_max n"]
  by (simp_all add: encode_integer_def encode_loop_groups)

lemma unat_prefix_max: "n \<le> 8 \<Longrightarrow> unat (prefix_max n) = 2 ^ n - 1"
proof -
  assume n: "n \<le> 8"
  have "unat (prefix_max n) = nat (mask n)"
    using n by (simp add: prefix_max_mask uint_mask_eq min_def flip: nat_uint_eq)
  then show ?thesis
    by (simp add: mask_eq_exp_minus_1 nat_diff_distrib nat_power_eq)
qed

lemma len32: "LENGTH(32) = 32"
  by simp

lemma low_byte_small: "unat v < 256 \<Longrightarrow> (ucast (ucast (v :: u32) :: byte) :: u32) = v"
  by (simp add: word_unat_eq_iff unsigned_ucast_eq unsigned_take_bit_eq take_bit_nat_eq_self)

lemma integer_coded:
  assumes "1 \<le> n" and "n \<le> 8" and "7 \<le> lim" and "7 \<le> lim'"
    and "encode_integer lim v n = (k, bs)"
  shows "k = int (length bs) \<and> 1 \<le> length bs \<and> length bs \<le> 6 \<and>
         decode_integer d (bs @ rest) lim' n = Some (k, v)"
proof -
  have pow: "(2::nat) ^ n \<le> 2 ^ 8"
    using assms(2) by (intro power_increasing) simp_all
  have pm: "unat (prefix_max n) = 2 ^ n - 1"
    using assms(2) by (rule unat_prefix_max)
  have byte: "unat w < 256 \<Longrightarrow> (ucast (ucast (w :: u32) :: byte) :: u32) = w" for w
    by (rule low_byte_small)
  show ?thesis
  proof (cases "v < prefix_max n")
    case True
    then have "unat v < 2 ^ n - 1"
      by (simp add: word_less_nat_alt pm)
    then have "(ucast (ucast v :: byte) :: u32) AND prefix_max n = v"
      using pow by (simp add: byte prefix_max_mask word_unat_eq_iff unat_and_mask)
    with True assms show ?thesis
      by (auto simp: encode_integer_cases decode_integer_def outcome_simps Let_def)
  next
    case False
    let ?g = "groups (v - prefix_max n)"
    have low: "(ucast (ucast (prefix_max n) :: byte) :: u32) AND prefix_max n = prefix_max n"
      using pow pm by (simp add: byte)
    have enc: "k = int (Suc (length ?g)) \<and> bs = ucast (prefix_max n) # ?g"
      using assms(3,5) encode_integer_cases(2) [OF assms(3) False] by simp
    have "decode_loop ([ucast (prefix_max n)] @ ?g @ rest) lim' 0 0 (prefix_max n) =
            Some (int (0 + 1 + length ?g), prefix_max n + push_bit 0 (v - prefix_max n))"
      using assms(4) groups_length_5 [of "v - prefix_max n"]
        unsigned_less [of "v - prefix_max n", where 'a = nat]
      by (intro decode_loop_groups) simp_all
    then show ?thesis
      using enc low assms(4) groups_length_5 [of "v - prefix_max n"]
      by (simp add: decode_integer_def outcome_simps Let_def)
  qed
qed

text \<open>
  a prefix integer survives the wire: for every 32-bit value and prefix of 1 to 8 bits,
  what encode_integer writes takes at most 6 octets, and decode_integer reads the same value
  and the same number of octets back, whatever follows in memory.
\<close>

theorem integer_round_trip:
  assumes "1 \<le> n" and "n \<le> 8" and "7 \<le> lim" and "7 \<le> lim'"
    and "encode_integer lim v n = (k, bs)"
  shows "k = int (length bs) \<and> 1 \<le> length bs \<and> length bs \<le> 6 \<and>
         decode_integer d (bs @ rest) lim' n = Some (k, v)"
  using assms by (rule integer_coded)

theorem integer_round_trip_witness:
  "\<exists>bs. encode_integer 256 300 7 = (3, bs) \<and> decode_integer 0 (bs @ [1, 2]) 256 7 = Some (3, 300)"
proof -
  have enc: "encode_integer 256 300 7 = (3, [0x7F, 0xAD, 0x01])"
    by (simp add: encode_integer_def prefix_max_def encode_loop.simps word_le_nat_alt)
  then have "decode_integer 0 ([0x7F, 0xAD, 0x01] @ [1, 2]) 256 7 = Some (3, 300)"
    using integer_round_trip [of 7 256 256 300 3 "[0x7F, 0xAD, 0x01]" 0 "[1, 2]"] by simp
  with enc show ?thesis
    by blast
qed

text \<open>
  The string length integer (prefix 7) is a prefix codec: its encoder and decoder satisfy the
  interface, so lengths written one after the other are told apart.
\<close>

definition enc_len :: "u32 \<Rightarrow> bytes" where
  "enc_len v = snd (encode_integer MAX_BYTES_OF_LENGTH v 7)"

definition dec_len :: "bytes \<Rightarrow> (u32 \<times> bytes) option" where
  "dec_len bs = (case decode_integer 0 bs MAX_BYTES_OF_LENGTH 7 of
     None \<Rightarrow> None
   | Some (k, v) \<Rightarrow> if k < 0 then None else Some (v, drop (nat k) bs))"

interpretation len_codec: prefix_codec enc_len dec_len "\<lambda>_. True"
proof
  fix v rest
  obtain k bs where enc: "encode_integer MAX_BYTES_OF_LENGTH v 7 = (k, bs)"
    by fastforce
  then have "k = int (length bs) \<and> decode_integer 0 (bs @ rest) MAX_BYTES_OF_LENGTH 7 = Some (k, v)"
    using integer_coded [of 7 MAX_BYTES_OF_LENGTH MAX_BYTES_OF_LENGTH v k bs 0 rest]
    by (simp add: MAX_BYTES_OF_LENGTH_def)
  with enc show "dec_len (enc_len v @ rest) = Some (v, rest)"
    by (simp add: enc_len_def dec_len_def)
qed

subsection \<open>What the decoder may return\<close>

lemma decode_loop_bounds:
  assumes "decode_loop mem lim p m dst = Some (k, v)"
  shows "k = - 1 \<or> (int p + 2 \<le> k \<and> k \<le> int (length mem) \<and> k \<le> int lim \<and>
           7 * (k - int p - 2) + int m < 32)"
  using assms
proof (induction mem lim p m dst rule: decode_loop.induct)
  case (1 mem lim p m dst)
  show ?case
  proof (cases "p + 1 \<ge> lim")
    case True
    with "1.prems" show ?thesis
      by (simp add: decode_loop.simps [of mem lim p])
  next
    case False
    then obtain b where b: "rd mem (p + 1) = Some b"
      using "1.prems" by (subst (asm) decode_loop.simps) (auto simp: bind_Some_iff)
    then have len: "p + 1 < length mem"
      by (simp add: rd_def split: if_splits)
    have "k = - 1 \<or> m < 32 \<and> (b AND 0x80 = 0 \<and> k = int p + 2 \<or> b AND 0x80 \<noteq> 0 \<and>
        decode_loop mem lim (p + 1) (m + 7) (dst + push_bit m ((ucast b :: u32) AND 0x7f)) = Some (k, v) \<and>
        \<not> drop_bit m UINT32_MAX < (ucast b :: u32) AND 0x7f)"
      using "1.prems" False b by (subst (asm) decode_loop.simps) (auto simp: Let_def split: if_splits)
    with "1.IH" [OF False] False b len show ?thesis
      by fastforce
  qed
qed

lemma decode_integer_bounds:
  assumes "decode_integer d mem lim n = Some (k, v)"
  shows "k = - 1 \<or> (1 \<le> k \<and> k \<le> 6 \<and> k \<le> int (length mem) \<and> k \<le> int lim)"
proof (cases "0 \<ge> lim")
  case True
  with assms show ?thesis
    by (simp add: decode_integer_def)
next
  case False
  then obtain b where "rd mem 0 = Some b"
    and "decode_loop mem lim 0 0 ((ucast b :: u32) AND prefix_max n) = Some (k, v) \<or> k = 1"
    using assms by (auto simp: decode_integer_def bind_Some_iff Let_def split: if_splits)
  moreover from this(1) have "1 \<le> length mem"
    by (simp add: rd_def Suc_le_eq split: if_splits)
  ultimately show ?thesis
    using decode_loop_bounds [of mem lim 0 0 "(ucast b :: u32) AND prefix_max n" k v] False
    by fastforce
qed

subsection \<open>When the decoder is defined\<close>

text \<open>
  The continuation loop is defined when one of the octets it may look at before the shift
  reaches 32 ends the integer.
\<close>

definition terminated :: "bytes \<Rightarrow> bool" where
  "terminated mem \<longleftrightarrow> (\<exists>i \<in> {1..5}. i < length mem \<and> mem ! i AND 0x80 = 0)"

lemma decode_loop_defined:
  "\<lbrakk>i < length mem; mem ! i AND 0x80 = 0; p < i; m + 7 * (i - p - 1) < 32\<rbrakk> \<Longrightarrow>
     decode_loop mem lim p m dst \<noteq> None"
proof (induction mem lim p m dst rule: decode_loop.induct)
  case (1 mem lim p m dst)
  show ?case
  proof (cases "p + 1 \<ge> lim")
    case True
    then show ?thesis
      by (simp add: decode_loop.simps [of mem lim p])
  next
    case False
    let ?b = "mem ! (p + 1)"
    have b: "rd mem (p + 1) = Some ?b"
      using "1.prems"(1,3) by (simp add: rd_def)
    have "?b AND 0x80 \<noteq> 0 \<Longrightarrow> p + 1 < i"
      using "1.prems"(2,3) by (cases "p + 1 = i") auto
    then show ?thesis
      using "1.IH" [OF False, of ?b "(ucast ?b :: u32) AND 0x7f"] "1.prems" b
      by (subst decode_loop.simps) (auto simp: Let_def)
  qed
qed

text \<open>
  decode_integer has no undefined behaviour (no read outside the allocation, no shift by
  32 or more) when the first octet's prefix is not full or an octet without the continuation
  bit follows among the next five.
\<close>

theorem decode_integer_defined:
  assumes "mem \<noteq> []"
    and "(ucast (hd mem) :: u32) AND prefix_max n \<noteq> prefix_max n \<or> terminated mem"
  shows "decode_integer d mem lim n \<noteq> None"
proof -
  have hd: "rd mem 0 = Some (hd mem)"
    using assms(1) by (simp add: rd_def hd_conv_nth)
  have "terminated mem \<Longrightarrow> decode_loop mem lim 0 0 dst \<noteq> None" for dst
    unfolding terminated_def using decode_loop_defined [of _ mem 0 0 lim dst] by fastforce
  with hd assms(2) show ?thesis
    by (auto simp: decode_integer_def Let_def)
qed

theorem decode_integer_defined_witness:
  "decode_integer 0 [0x7F, 0x9A, 0x0A] 256 7 \<noteq> None"
proof (rule decode_integer_defined)
  show "(ucast (hd [0x7F, 0x9A, 0x0A :: byte]) :: u32) AND prefix_max 7 \<noteq> prefix_max 7 \<or>
        terminated [0x7F, 0x9A, 0x0A :: byte]"
    by (auto simp: terminated_def intro!: bexI [of _ 2])
qed simp

text \<open>
  five continuation octets that carry no value make decode_integer shift a 32-bit value by
  35, which is undefined: the check of the excess only bounds the value, not the octet length.
\<close>

theorem decode_integer_undefined:
  assumes "(ucast b :: u32) AND prefix_max n = prefix_max n" and "7 \<le> lim"
  shows "decode_integer d ([b, 0x80, 0x80, 0x80, 0x80, 0x80, c] @ rest) lim n = None"
proof -
  let ?mem = "b # 0x80 # 0x80 # 0x80 # 0x80 # 0x80 # c # rest"
  have r: "rd ?mem 1 = Some 0x80" "rd ?mem 2 = Some 0x80" "rd ?mem 3 = Some 0x80"
    "rd ?mem (Suc (Suc 0)) = Some 0x80" "rd ?mem 4 = Some 0x80" "rd ?mem 5 = Some 0x80" "rd ?mem 6 = Some c"
    by (simp_all add: rd_def)
  have "decode_loop ?mem lim 5 35 dst = None" for dst
    using assms(2) r by (subst decode_loop.simps) (simp add: Let_def)
  then have "decode_loop ?mem lim 4 28 dst = None" for dst
    using assms(2) r by (subst decode_loop.simps) (simp add: Let_def)
  then have "decode_loop ?mem lim 3 21 dst = None" for dst
    using assms(2) r by (subst decode_loop.simps) (simp add: Let_def)
  then have "decode_loop ?mem lim 2 14 dst = None" for dst
    using assms(2) r by (subst decode_loop.simps) (simp add: Let_def)
  then have "decode_loop ?mem lim (Suc (Suc 0)) 14 dst = None" for dst
    by (simp only: numeral_2_eq_2)
  then have "decode_loop ?mem lim 1 7 dst = None" for dst
    using assms(2) r by (subst decode_loop.simps) (simp add: Let_def)
  then have "decode_loop ?mem lim 0 0 dst = None" for dst
    using assms(2) r by (subst decode_loop.simps) (simp add: Let_def)
  then show ?thesis
    using assms by (simp add: decode_integer_def outcome_simps Let_def)
qed

theorem decode_integer_undefined_witness:
  "decode_integer 0 [0x7F, 0x80, 0x80, 0x80, 0x80, 0x80, 0x00] 256 7 = None"
proof -
  have "(ucast (0x7F :: byte) :: u32) AND prefix_max 7 = prefix_max 7"
    by (simp add: prefix_max_def)
  then show ?thesis
    using decode_integer_undefined [of "0x7F" 7 256 0 0 "[]"] by simp
qed

text \<open>
  an integer too large for 32 bits is accepted, not refused: when the prefix plus the
  continuation value passes 2^32, decode_integer returns success with the sum reduced by 2^32
  (the comment in the loop says that excessively large encodings are a decoding error).
\<close>

theorem decode_integer_wraps:
  assumes "n \<le> 8" and "7 \<le> lim" and "(ucast b :: u32) AND prefix_max n = prefix_max n"
    and "2 ^ 32 \<le> unat w + (2 ^ n - 1)"
  shows "\<exists>k v. decode_integer d (b # groups w @ rest) lim n = Some (k, v) \<and> 0 < k \<and>
           unat v = unat w + (2 ^ n - 1) - 2 ^ 32"
proof -
  have "decode_loop ([b] @ groups w @ rest) lim 0 0 (prefix_max n) =
          Some (int (0 + 1 + length (groups w)), prefix_max n + push_bit 0 w)"
    using assms(2) groups_length_5 [of w] unsigned_less [of w, where 'a = nat]
    by (intro decode_loop_groups) simp_all
  then have eq: "decode_integer d (b # groups w @ rest) lim n =
                   Some (1 + int (length (groups w)), prefix_max n + w)"
    using assms(2,3) by (simp add: decode_integer_def outcome_simps Let_def)
  have "(2::nat) ^ n \<le> 2 ^ 8"
    using assms(1) by (intro power_increasing) simp_all
  then have "unat w + (2 ^ n - 1) < 2 * 2 ^ 32"
    using unsigned_less [of w, where 'a = nat] by simp
  with assms(4) have "(unat w + (2 ^ n - 1)) mod 2 ^ 32 = unat w + (2 ^ n - 1) - 2 ^ 32"
    by (rule mod_once)
  then have v: "unat (prefix_max n + w) = unat w + (2 ^ n - 1) - 2 ^ 32"
    by (simp only: unat_word_ariths unat_prefix_max [OF assms(1)] add.commute len32)
  have "0 < 1 + int (length (groups w))"
    by simp
  with eq v show ?thesis
    by blast
qed

theorem decode_integer_wraps_witness:
  "\<exists>k v. decode_integer 0 (0x7F # groups 0xFFFFFFFF @ []) 256 7 = Some (k, v) \<and> 0 < k \<and>
     unat v = unat (0xFFFFFFFF :: u32) + (2 ^ 7 - 1) - 2 ^ 32"
  by (rule decode_integer_wraps) (simp_all add: prefix_max_def)

end
