(* ===== verification/Bitstring.thy ===== *)
theory Bitstring
  imports Prelude
begin

section \<open>Bit strings\<close>

text \<open>
  Numbers as strings of bits with the most significant bit first, the representation in which
  the Huffman code is specified: a code is a bit string, a byte is eight of them, and the
  machine's shifts are cuts of a string.
\<close>

fun bits_of :: "nat \<Rightarrow> nat \<Rightarrow> bool list" where
  "bits_of 0 v = []"
| "bits_of (Suc n) v = odd (v div 2 ^ n) # bits_of n v"

fun val :: "bool list \<Rightarrow> nat" where
  "val [] = 0"
| "val (b # bs) = of_bool b * 2 ^ length bs + val bs"

definition byte_bits :: "byte \<Rightarrow> bool list" where
  "byte_bits b = bits_of 8 (unat b)"

lemma bits_of_numeral:
  "bits_of (numeral k) v = odd (v div 2 ^ pred_numeral k) # bits_of (pred_numeral k) v"
  by (simp add: numeral_eq_Suc)

lemma length_bits_of [simp]: "length (bits_of n v) = n"
  by (induction n) auto

lemma length_byte_bits [simp]: "length (byte_bits b) = 8"
  by (simp add: byte_bits_def)

lemma val_less: "val bs < 2 ^ length bs"
  by (induction bs) auto

lemma val_append: "val (xs @ ys) = val xs * 2 ^ length ys + val ys"
  by (induction xs) (auto simp: power_add algebra_simps)

lemma bits_of_mod [simp]: "bits_of n (v mod 2 ^ n) = bits_of n v"
proof -
  have "k \<le> n \<Longrightarrow> bits_of k (v mod 2 ^ n) = bits_of k v" for k
  proof (induction k)
    case (Suc k)
    have "odd (v mod 2 ^ n div 2 ^ k) = odd (v div 2 ^ k)"
      using Suc.prems bit_take_bit_iff [of n v k] by (simp add: bit_iff_odd take_bit_eq_mod)
    with Suc show ?case
      by simp
  qed simp
  then show ?thesis
    by simp
qed

lemma val_bits_of: "val (bits_of n v) = v mod 2 ^ n"
proof (induction n)
  case (Suc n)
  have "v mod 2 ^ Suc n = 2 ^ n * (v div 2 ^ n mod 2) + v mod 2 ^ n"
    using mod_mult2_eq [of v "2 ^ n" 2] by (simp add: mult.commute)
  with Suc show ?case
    by (simp add: odd_iff_mod_2_eq_one mod2_eq_if mult.commute)
qed simp

lemma bits_of_val: "bits_of (length bs) (val bs) = bs"
proof (induction bs)
  case (Cons b bs)
  have "(of_bool b * 2 ^ length bs + val bs) div 2 ^ length bs = of_bool b"
    using val_less [of bs] by (cases b) (auto simp: div_add_self1)
  moreover have "bits_of (length bs) (of_bool b * 2 ^ length bs + val bs) = bits_of (length bs) (val bs)"
    using bits_of_mod [of "length bs" "of_bool b * 2 ^ length bs + val bs"] bits_of_mod [of "length bs" "val bs"]
    by (simp add: add.commute)
  ultimately show ?case
    using Cons by simp
qed simp

lemma val_inj: "length xs = length ys \<Longrightarrow> val xs = val ys \<Longrightarrow> xs = ys"
  by (metis bits_of_val)

lemma bits_of_append: "bits_of (m + n) v = bits_of m (v div 2 ^ n) @ bits_of n v"
  by (induction m) (simp_all add: div_mult2_eq [symmetric] power_add mult.commute)

lemma take_bits_of: "k \<le> n \<Longrightarrow> take k (bits_of n v) = bits_of k (v div 2 ^ (n - k))"
  using bits_of_append [of k "n - k" v] by simp

lemma drop_bits_of: "k \<le> n \<Longrightarrow> drop k (bits_of n v) = bits_of (n - k) v"
  using bits_of_append [of k "n - k" v] by simp

lemma bits_of_add: "bits_of (m + n) (a * 2 ^ n + b mod 2 ^ n) = bits_of m a @ bits_of n b"
proof -
  have "bits_of n (a * 2 ^ n + b mod 2 ^ n) = bits_of n b"
    using bits_of_mod [of n "a * 2 ^ n + b mod 2 ^ n"] by simp
  then show ?thesis
    by (simp add: bits_of_append)
qed

lemma bits_of_eq_iff: "bits_of n a = bits_of n b \<longleftrightarrow> a mod 2 ^ n = b mod 2 ^ n"
  by (metis bits_of_mod val_bits_of)

lemma val_byte_bits [simp]: "val (byte_bits b) = unat b"
  using unsigned_less [of b, where 'a = nat] by (simp add: byte_bits_def val_bits_of)

lemma bits_of_zero [simp]: "bits_of n 0 = replicate n False"
  by (induction n) auto

lemma bits_of_ones: "bits_of n (2 ^ n - 1) = replicate n True"
proof -
  have "val (replicate n True) = 2 ^ n - 1"
    by (induction n) auto
  then show ?thesis
    using bits_of_val [of "replicate n True"] by simp
qed

text \<open>All bits of a byte string.\<close>

definition stream :: "bytes \<Rightarrow> bool list" where
  "stream bs = concat (map byte_bits bs)"

lemma stream_Nil [simp]: "stream [] = []"
  by (simp add: stream_def)

lemma stream_Cons [simp]: "stream (b # bs) = byte_bits b @ stream bs"
  by (simp add: stream_def)

lemma stream_append [simp]: "stream (as @ bs) = stream as @ stream bs"
  by (simp add: stream_def)

lemma length_stream [simp]: "length (stream bs) = 8 * length bs"
  by (induction bs) auto

end
