(* ===== verification/Huffman_Tables.thy ===== *)
theory Huffman_Tables
  imports Prelude
begin

section \<open>The Huffman code table (src/src/util/tables.h)\<close>

text \<open>
  The two arrays of the source, each cut into halves of 128 or as one list, and the facts about
  them that the tree and the codec rest on: every code fits its length, the lengths lie between
  5 and 30, no code is a prefix of another, and every inner node of the tree has leaves of its
  own. The facts are computed by the simplifier from the lists.
\<close>

definition huffman_codes_0_127 :: "nat list" where
  "huffman_codes_0_127 = [
     0x1ff8, 0x7fffd8, 0xfffffe2, 0xfffffe3, 0xfffffe4, 0xfffffe5, 0xfffffe6, 0xfffffe7,
     0xfffffe8, 0xffffea, 0x3ffffffc, 0xfffffe9, 0xfffffea, 0x3ffffffd, 0xfffffeb, 0xfffffec,
     0xfffffed, 0xfffffee, 0xfffffef, 0xffffff0, 0xffffff1, 0xffffff2, 0x3ffffffe, 0xffffff3,
     0xffffff4, 0xffffff5, 0xffffff6, 0xffffff7, 0xffffff8, 0xffffff9, 0xffffffa, 0xffffffb,
     0x14, 0x3f8, 0x3f9, 0xffa, 0x1ff9, 0x15, 0xf8, 0x7fa,
     0x3fa, 0x3fb, 0xf9, 0x7fb, 0xfa, 0x16, 0x17, 0x18,
     0x0, 0x1, 0x2, 0x19, 0x1a, 0x1b, 0x1c, 0x1d,
     0x1e, 0x1f, 0x5c, 0xfb, 0x7ffc, 0x20, 0xffb, 0x3fc,
     0x1ffa, 0x21, 0x5d, 0x5e, 0x5f, 0x60, 0x61, 0x62,
     0x63, 0x64, 0x65, 0x66, 0x67, 0x68, 0x69, 0x6a,
     0x6b, 0x6c, 0x6d, 0x6e, 0x6f, 0x70, 0x71, 0x72,
     0xfc, 0x73, 0xfd, 0x1ffb, 0x7fff0, 0x1ffc, 0x3ffc, 0x22,
     0x7ffd, 0x3, 0x23, 0x4, 0x24, 0x5, 0x25, 0x26,
     0x27, 0x6, 0x74, 0x75, 0x28, 0x29, 0x2a, 0x7,
     0x2b, 0x76, 0x2c, 0x8, 0x9, 0x2d, 0x77, 0x78,
     0x79, 0x7a, 0x7b, 0x7ffe, 0x7fc, 0x3ffd, 0x1ffd, 0xffffffc]"

definition huffman_codes_128_255 :: "nat list" where
  "huffman_codes_128_255 = [
     0xfffe6, 0x3fffd2, 0xfffe7, 0xfffe8, 0x3fffd3, 0x3fffd4, 0x3fffd5, 0x7fffd9,
     0x3fffd6, 0x7fffda, 0x7fffdb, 0x7fffdc, 0x7fffdd, 0x7fffde, 0xffffeb, 0x7fffdf,
     0xffffec, 0xffffed, 0x3fffd7, 0x7fffe0, 0xffffee, 0x7fffe1, 0x7fffe2, 0x7fffe3,
     0x7fffe4, 0x1fffdc, 0x3fffd8, 0x7fffe5, 0x3fffd9, 0x7fffe6, 0x7fffe7, 0xffffef,
     0x3fffda, 0x1fffdd, 0xfffe9, 0x3fffdb, 0x3fffdc, 0x7fffe8, 0x7fffe9, 0x1fffde,
     0x7fffea, 0x3fffdd, 0x3fffde, 0xfffff0, 0x1fffdf, 0x3fffdf, 0x7fffeb, 0x7fffec,
     0x1fffe0, 0x1fffe1, 0x3fffe0, 0x1fffe2, 0x7fffed, 0x3fffe1, 0x7fffee, 0x7fffef,
     0xfffea, 0x3fffe2, 0x3fffe3, 0x3fffe4, 0x7ffff0, 0x3fffe5, 0x3fffe6, 0x7ffff1,
     0x3ffffe0, 0x3ffffe1, 0xfffeb, 0x7fff1, 0x3fffe7, 0x7ffff2, 0x3fffe8, 0x1ffffec,
     0x3ffffe2, 0x3ffffe3, 0x3ffffe4, 0x7ffffde, 0x7ffffdf, 0x3ffffe5, 0xfffff1, 0x1ffffed,
     0x7fff2, 0x1fffe3, 0x3ffffe6, 0x7ffffe0, 0x7ffffe1, 0x3ffffe7, 0x7ffffe2, 0xfffff2,
     0x1fffe4, 0x1fffe5, 0x3ffffe8, 0x3ffffe9, 0xffffffd, 0x7ffffe3, 0x7ffffe4, 0x7ffffe5,
     0xfffec, 0xfffff3, 0xfffed, 0x1fffe6, 0x3fffe9, 0x1fffe7, 0x1fffe8, 0x7ffff3,
     0x3fffea, 0x3fffeb, 0x1ffffee, 0x1ffffef, 0xfffff4, 0xfffff5, 0x3ffffea, 0x7ffff4,
     0x3ffffeb, 0x7ffffe6, 0x3ffffec, 0x3ffffed, 0x7ffffe7, 0x7ffffe8, 0x7ffffe9, 0x7ffffea,
     0x7ffffeb, 0xffffffe, 0x7ffffec, 0x7ffffed, 0x7ffffee, 0x7ffffef, 0x7fffff0, 0x3ffffee]"

definition huffman_codes :: "nat list" where
  "huffman_codes = huffman_codes_0_127 @ huffman_codes_128_255"

definition huffman_code_len :: "nat list" where
  "huffman_code_len = [
     13, 23, 28, 28, 28, 28, 28, 28, 28, 24, 30, 28, 28, 30, 28, 28,
     28, 28, 28, 28, 28, 28, 30, 28, 28, 28, 28, 28, 28, 28, 28, 28,
     6, 10, 10, 12, 13, 6, 8, 11, 10, 10, 8, 11, 8, 6, 6, 6,
     5, 5, 5, 6, 6, 6, 6, 6, 6, 6, 7, 8, 15, 6, 12, 10,
     13, 6, 7, 7, 7, 7, 7, 7, 7, 7, 7, 7, 7, 7, 7, 7,
     7, 7, 7, 7, 7, 7, 7, 7, 8, 7, 8, 13, 19, 13, 14, 6,
     15, 5, 6, 5, 6, 5, 6, 6, 6, 5, 7, 7, 6, 6, 6, 5,
     6, 7, 6, 5, 5, 6, 7, 7, 7, 7, 7, 15, 11, 14, 13, 28,
     20, 22, 20, 20, 22, 22, 22, 23, 22, 23, 23, 23, 23, 23, 24, 23,
     24, 24, 22, 23, 24, 23, 23, 23, 23, 21, 22, 23, 22, 23, 23, 24,
     22, 21, 20, 22, 22, 23, 23, 21, 23, 22, 22, 24, 21, 22, 23, 23,
     21, 21, 22, 21, 23, 22, 23, 23, 20, 22, 22, 22, 23, 22, 22, 23,
     26, 26, 20, 19, 22, 23, 22, 25, 26, 26, 26, 27, 27, 26, 24, 25,
     19, 21, 26, 27, 27, 26, 27, 24, 21, 21, 26, 26, 28, 27, 27, 27,
     20, 24, 20, 21, 22, 21, 21, 23, 22, 22, 25, 25, 24, 24, 26, 23,
     26, 27, 26, 26, 27, 27, 27, 27, 27, 28, 27, 27, 27, 27, 27, 26]"

text \<open>The symbols in the order of their codes aligned to 30 bits.\<close>

definition symbols_by_code :: "nat list" where
  "symbols_by_code = [
     48, 49, 50, 97, 99, 101, 105, 111, 115, 116, 32, 37, 45, 46, 47, 51,
     52, 53, 54, 55, 56, 57, 61, 65, 95, 98, 100, 102, 103, 104, 108, 109,
     110, 112, 114, 117, 58, 66, 67, 68, 69, 70, 71, 72, 73, 74, 75, 76,
     77, 78, 79, 80, 81, 82, 83, 84, 85, 86, 87, 89, 106, 107, 113, 118,
     119, 120, 121, 122, 38, 42, 44, 59, 88, 90, 33, 34, 40, 41, 63, 39,
     43, 124, 35, 62, 0, 36, 64, 91, 93, 126, 94, 125, 60, 96, 123, 92,
     195, 208, 128, 130, 131, 162, 184, 194, 224, 226, 153, 161, 167, 172, 176, 177,
     179, 209, 216, 217, 227, 229, 230, 129, 132, 133, 134, 136, 146, 154, 156, 160,
     163, 164, 169, 170, 173, 178, 181, 185, 186, 187, 189, 190, 196, 198, 228, 232,
     233, 1, 135, 137, 138, 139, 140, 141, 143, 147, 149, 150, 151, 152, 155, 157,
     158, 165, 166, 168, 174, 175, 180, 182, 183, 188, 191, 197, 231, 239, 9, 142,
     144, 145, 148, 159, 171, 206, 215, 225, 236, 237, 199, 207, 234, 235, 192, 193,
     200, 201, 202, 205, 210, 213, 218, 219, 238, 240, 242, 243, 255, 203, 204, 211,
     212, 214, 221, 222, 223, 241, 244, 245, 246, 247, 248, 250, 251, 252, 253, 254,
     2, 3, 4, 5, 6, 7, 8, 11, 12, 14, 15, 16, 17, 18, 19, 20,
     21, 23, 24, 25, 26, 27, 28, 29, 30, 31, 127, 220, 249, 10, 13, 22]"

text \<open>The byte paths of the inner nodes below the root, each with a symbol whose leaves it holds.\<close>

definition inner_paths :: "(nat list \<times> nat) list" where
  "inner_paths = [
     ([254], 33), ([255], 0), ([255, 254], 92),
     ([255, 255], 1), ([255, 255, 246], 199), ([255, 255, 247], 234),
     ([255, 255, 248], 192), ([255, 255, 249], 202), ([255, 255, 250], 218),
     ([255, 255, 251], 203), ([255, 255, 252], 211), ([255, 255, 253], 245),
     ([255, 255, 254], 2), ([255, 255, 255], 10)]"


subsection \<open>Facts computed from the table\<close>

text \<open>The interval of the 30-bit values that start with a code.\<close>

definition code_lo :: "nat \<times> nat \<Rightarrow> nat" where
  "code_lo cl = fst cl * 2 ^ (30 - snd cl)"

definition code_hi :: "nat \<times> nat \<Rightarrow> nat" where
  "code_hi cl = (fst cl + 1) * 2 ^ (30 - snd cl)"

fun ascending :: "(nat \<times> nat) list \<Rightarrow> bool" where
  "ascending [] = True"
| "ascending [x] = True"
| "ascending (x # y # zs) = (code_hi x \<le> code_lo y \<and> ascending (y # zs))"

definition code_table :: "(nat \<times> nat) list" where
  "code_table = zip huffman_codes huffman_code_len"

lemma length_tables: "length huffman_codes = 256" "length huffman_code_len = 256"
  by (simp_all add: huffman_codes_def huffman_codes_0_127_def huffman_codes_128_255_def huffman_code_len_def)

lemma code_table_eq: "code_table = [(8184, 13), (8388568, 23), (268435426, 28), (268435427, 28), (268435428, 28), (268435429, 28), (268435430, 28), (268435431, 28),
    (268435432, 28), (16777194, 24), (1073741820, 30), (268435433, 28), (268435434, 28), (1073741821, 30), (268435435, 28), (268435436, 28),
    (268435437, 28), (268435438, 28), (268435439, 28), (268435440, 28), (268435441, 28), (268435442, 28), (1073741822, 30), (268435443, 28),
    (268435444, 28), (268435445, 28), (268435446, 28), (268435447, 28), (268435448, 28), (268435449, 28), (268435450, 28), (268435451, 28),
    (20, 6), (1016, 10), (1017, 10), (4090, 12), (8185, 13), (21, 6), (248, 8), (2042, 11),
    (1018, 10), (1019, 10), (249, 8), (2043, 11), (250, 8), (22, 6), (23, 6), (24, 6),
    (0, 5), (1, 5), (2, 5), (25, 6), (26, 6), (27, 6), (28, 6), (29, 6),
    (30, 6), (31, 6), (92, 7), (251, 8), (32764, 15), (32, 6), (4091, 12), (1020, 10),
    (8186, 13), (33, 6), (93, 7), (94, 7), (95, 7), (96, 7), (97, 7), (98, 7),
    (99, 7), (100, 7), (101, 7), (102, 7), (103, 7), (104, 7), (105, 7), (106, 7),
    (107, 7), (108, 7), (109, 7), (110, 7), (111, 7), (112, 7), (113, 7), (114, 7),
    (252, 8), (115, 7), (253, 8), (8187, 13), (524272, 19), (8188, 13), (16380, 14), (34, 6),
    (32765, 15), (3, 5), (35, 6), (4, 5), (36, 6), (5, 5), (37, 6), (38, 6),
    (39, 6), (6, 5), (116, 7), (117, 7), (40, 6), (41, 6), (42, 6), (7, 5),
    (43, 6), (118, 7), (44, 6), (8, 5), (9, 5), (45, 6), (119, 7), (120, 7),
    (121, 7), (122, 7), (123, 7), (32766, 15), (2044, 11), (16381, 14), (8189, 13), (268435452, 28),
    (1048550, 20), (4194258, 22), (1048551, 20), (1048552, 20), (4194259, 22), (4194260, 22), (4194261, 22), (8388569, 23),
    (4194262, 22), (8388570, 23), (8388571, 23), (8388572, 23), (8388573, 23), (8388574, 23), (16777195, 24), (8388575, 23),
    (16777196, 24), (16777197, 24), (4194263, 22), (8388576, 23), (16777198, 24), (8388577, 23), (8388578, 23), (8388579, 23),
    (8388580, 23), (2097116, 21), (4194264, 22), (8388581, 23), (4194265, 22), (8388582, 23), (8388583, 23), (16777199, 24),
    (4194266, 22), (2097117, 21), (1048553, 20), (4194267, 22), (4194268, 22), (8388584, 23), (8388585, 23), (2097118, 21),
    (8388586, 23), (4194269, 22), (4194270, 22), (16777200, 24), (2097119, 21), (4194271, 22), (8388587, 23), (8388588, 23),
    (2097120, 21), (2097121, 21), (4194272, 22), (2097122, 21), (8388589, 23), (4194273, 22), (8388590, 23), (8388591, 23),
    (1048554, 20), (4194274, 22), (4194275, 22), (4194276, 22), (8388592, 23), (4194277, 22), (4194278, 22), (8388593, 23),
    (67108832, 26), (67108833, 26), (1048555, 20), (524273, 19), (4194279, 22), (8388594, 23), (4194280, 22), (33554412, 25),
    (67108834, 26), (67108835, 26), (67108836, 26), (134217694, 27), (134217695, 27), (67108837, 26), (16777201, 24), (33554413, 25),
    (524274, 19), (2097123, 21), (67108838, 26), (134217696, 27), (134217697, 27), (67108839, 26), (134217698, 27), (16777202, 24),
    (2097124, 21), (2097125, 21), (67108840, 26), (67108841, 26), (268435453, 28), (134217699, 27), (134217700, 27), (134217701, 27),
    (1048556, 20), (16777203, 24), (1048557, 20), (2097126, 21), (4194281, 22), (2097127, 21), (2097128, 21), (8388595, 23),
    (4194282, 22), (4194283, 22), (33554414, 25), (33554415, 25), (16777204, 24), (16777205, 24), (67108842, 26), (8388596, 23),
    (67108843, 26), (134217702, 27), (67108844, 26), (67108845, 26), (134217703, 27), (134217704, 27), (134217705, 27), (134217706, 27),
    (134217707, 27), (268435454, 28), (134217708, 27), (134217709, 27), (134217710, 27), (134217711, 27), (134217712, 27), (67108846, 26)]" 
  by (simp add: code_table_def huffman_codes_def huffman_codes_0_127_def huffman_codes_128_255_def huffman_code_len_def)

lemma table_bounds: "list_all (\<lambda>(c, l). 5 \<le> l \<and> l \<le> 30 \<and> c < 2 ^ l) code_table"
  by (simp add: code_table_eq)

lemma sorted_codes: "map (\<lambda>s. code_table ! s) symbols_by_code = [(0, 5), (1, 5), (2, 5), (3, 5), (4, 5), (5, 5), (6, 5), (7, 5),
    (8, 5), (9, 5), (20, 6), (21, 6), (22, 6), (23, 6), (24, 6), (25, 6),
    (26, 6), (27, 6), (28, 6), (29, 6), (30, 6), (31, 6), (32, 6), (33, 6),
    (34, 6), (35, 6), (36, 6), (37, 6), (38, 6), (39, 6), (40, 6), (41, 6),
    (42, 6), (43, 6), (44, 6), (45, 6), (92, 7), (93, 7), (94, 7), (95, 7),
    (96, 7), (97, 7), (98, 7), (99, 7), (100, 7), (101, 7), (102, 7), (103, 7),
    (104, 7), (105, 7), (106, 7), (107, 7), (108, 7), (109, 7), (110, 7), (111, 7),
    (112, 7), (113, 7), (114, 7), (115, 7), (116, 7), (117, 7), (118, 7), (119, 7),
    (120, 7), (121, 7), (122, 7), (123, 7), (248, 8), (249, 8), (250, 8), (251, 8),
    (252, 8), (253, 8), (1016, 10), (1017, 10), (1018, 10), (1019, 10), (1020, 10), (2042, 11),
    (2043, 11), (2044, 11), (4090, 12), (4091, 12), (8184, 13), (8185, 13), (8186, 13), (8187, 13),
    (8188, 13), (8189, 13), (16380, 14), (16381, 14), (32764, 15), (32765, 15), (32766, 15), (524272, 19),
    (524273, 19), (524274, 19), (1048550, 20), (1048551, 20), (1048552, 20), (1048553, 20), (1048554, 20), (1048555, 20),
    (1048556, 20), (1048557, 20), (2097116, 21), (2097117, 21), (2097118, 21), (2097119, 21), (2097120, 21), (2097121, 21),
    (2097122, 21), (2097123, 21), (2097124, 21), (2097125, 21), (2097126, 21), (2097127, 21), (2097128, 21), (4194258, 22),
    (4194259, 22), (4194260, 22), (4194261, 22), (4194262, 22), (4194263, 22), (4194264, 22), (4194265, 22), (4194266, 22),
    (4194267, 22), (4194268, 22), (4194269, 22), (4194270, 22), (4194271, 22), (4194272, 22), (4194273, 22), (4194274, 22),
    (4194275, 22), (4194276, 22), (4194277, 22), (4194278, 22), (4194279, 22), (4194280, 22), (4194281, 22), (4194282, 22),
    (4194283, 22), (8388568, 23), (8388569, 23), (8388570, 23), (8388571, 23), (8388572, 23), (8388573, 23), (8388574, 23),
    (8388575, 23), (8388576, 23), (8388577, 23), (8388578, 23), (8388579, 23), (8388580, 23), (8388581, 23), (8388582, 23),
    (8388583, 23), (8388584, 23), (8388585, 23), (8388586, 23), (8388587, 23), (8388588, 23), (8388589, 23), (8388590, 23),
    (8388591, 23), (8388592, 23), (8388593, 23), (8388594, 23), (8388595, 23), (8388596, 23), (16777194, 24), (16777195, 24),
    (16777196, 24), (16777197, 24), (16777198, 24), (16777199, 24), (16777200, 24), (16777201, 24), (16777202, 24), (16777203, 24),
    (16777204, 24), (16777205, 24), (33554412, 25), (33554413, 25), (33554414, 25), (33554415, 25), (67108832, 26), (67108833, 26),
    (67108834, 26), (67108835, 26), (67108836, 26), (67108837, 26), (67108838, 26), (67108839, 26), (67108840, 26), (67108841, 26),
    (67108842, 26), (67108843, 26), (67108844, 26), (67108845, 26), (67108846, 26), (134217694, 27), (134217695, 27), (134217696, 27),
    (134217697, 27), (134217698, 27), (134217699, 27), (134217700, 27), (134217701, 27), (134217702, 27), (134217703, 27), (134217704, 27),
    (134217705, 27), (134217706, 27), (134217707, 27), (134217708, 27), (134217709, 27), (134217710, 27), (134217711, 27), (134217712, 27),
    (268435426, 28), (268435427, 28), (268435428, 28), (268435429, 28), (268435430, 28), (268435431, 28), (268435432, 28), (268435433, 28),
    (268435434, 28), (268435435, 28), (268435436, 28), (268435437, 28), (268435438, 28), (268435439, 28), (268435440, 28), (268435441, 28),
    (268435442, 28), (268435443, 28), (268435444, 28), (268435445, 28), (268435446, 28), (268435447, 28), (268435448, 28), (268435449, 28),
    (268435450, 28), (268435451, 28), (268435452, 28), (268435453, 28), (268435454, 28), (1073741820, 30), (1073741821, 30), (1073741822, 30)]"
  by (simp add: code_table_eq symbols_by_code_def)

lemma table_ascending: "ascending (map (\<lambda>s. code_table ! s) symbols_by_code)"
  unfolding sorted_codes by (simp add: code_lo_def code_hi_def)

lemma symbols_bound: "list_all (\<lambda>s. s < 256) symbols_by_code"
  by (simp add: symbols_by_code_def)

lemma length_symbols: "length symbols_by_code = 256"
  by (simp add: symbols_by_code_def)

subsection \<open>No code is a prefix of another\<close>

lemma length_code_table [simp]: "length code_table = 256"
  by (simp add: code_table_def length_tables)

lemma code_table_nth: "s < 256 \<Longrightarrow> code_table ! s = (huffman_codes ! s, huffman_code_len ! s)"
  by (simp add: code_table_def length_tables)

lemma code_bounds:
  assumes "s < 256"
  shows "5 \<le> huffman_code_len ! s" and "huffman_code_len ! s \<le> 30"
    and "huffman_codes ! s < 2 ^ huffman_code_len ! s"
proof -
  have "5 \<le> huffman_code_len ! s \<and> huffman_code_len ! s \<le> 30 \<and> huffman_codes ! s < 2 ^ huffman_code_len ! s"
    using table_bounds assms by (auto simp: list_all_length code_table_nth)
  then show "5 \<le> huffman_code_len ! s" and "huffman_code_len ! s \<le> 30"
    and "huffman_codes ! s < 2 ^ huffman_code_len ! s"
    by simp_all
qed

lemma code_lo_less_hi: "code_lo x < code_hi x"
  by (simp add: code_lo_def code_hi_def)

lemma ascending_nth:
  "ascending xs \<Longrightarrow> i < j \<Longrightarrow> j < length xs \<Longrightarrow> code_hi (xs ! i) \<le> code_lo (xs ! j)"
proof (induction xs arbitrary: i j rule: ascending.induct)
  case (3 x y zs)
  show ?case
  proof (cases i)
    case 0
    show ?thesis
    proof (cases "j = 1")
      case True
      with 0 "3.prems" show ?thesis by simp
    next
      case False
      then have "code_hi ((y # zs) ! 0) \<le> code_lo ((y # zs) ! (j - 1))"
        using "3.prems" 0 by (intro "3.IH") auto
      then show ?thesis
        using "3.prems" 0 code_lo_less_hi [of y] by (cases j) auto
    qed
  next
    case (Suc k)
    with "3.prems" have "code_hi ((y # zs) ! k) \<le> code_lo ((y # zs) ! (j - 1))"
      by (intro "3.IH") auto
    with Suc "3.prems" show ?thesis
      by (cases j) auto
  qed
qed auto

lemma distinct_symbols: "distinct symbols_by_code"
proof -
  have "distinct (map (\<lambda>s. code_table ! s) symbols_by_code)"
    unfolding distinct_conv_nth
    using ascending_nth [OF table_ascending] code_lo_less_hi
    by (metis (no_types, lifting) leD linorder_neqE_nat)
  then show ?thesis
    by (simp add: distinct_map)
qed

lemma set_symbols: "set symbols_by_code = {..<256}"
proof (rule card_subset_eq)
  show "set symbols_by_code \<subseteq> {..<256}"
    using symbols_bound by (auto simp: list_all_iff)
  show "card (set symbols_by_code) = card {..<256 :: nat}"
    using distinct_symbols by (simp add: distinct_card length_symbols)
qed simp

lemma codes_disjoint:
  assumes "s < 256" and "t < 256" and "s \<noteq> t"
  shows "code_hi (code_table ! s) \<le> code_lo (code_table ! t) \<or>
         code_hi (code_table ! t) \<le> code_lo (code_table ! s)"
proof -
  obtain i j where "i < 256" "j < 256" "symbols_by_code ! i = s" "symbols_by_code ! j = t"
    using assms(1,2) set_symbols by (metis in_set_conv_nth length_symbols lessThan_iff)
  then show ?thesis
    using ascending_nth [OF table_ascending, of i j] ascending_nth [OF table_ascending, of j i] assms(3)
    by (cases i j rule: linorder_cases) (auto simp: length_symbols)
qed

subsection \<open>Inner nodes\<close>

text \<open>
  The byte path from the root to the node that holds a code's leaves, and the check that every
  step of every code's path is one of \<open>inner_paths\<close>.
\<close>

fun code_path :: "nat \<Rightarrow> nat \<Rightarrow> nat list" where
  "code_path c l = (if l > 8 then c div 2 ^ (l - 8) mod 256 # code_path c (l - 8) else [])"

declare code_path.simps [simp del]

fun steps_in :: "nat list list \<Rightarrow> nat list \<Rightarrow> nat list \<Rightarrow> bool" where
  "steps_in P acc [] = True"
| "steps_in P acc (x # xs) = (acc @ [x] \<in> set P \<and> steps_in P (acc @ [x]) xs)"

fun inner_ok :: "nat \<times> nat \<Rightarrow> bool" where
  "inner_ok (c, l) = steps_in (map fst inner_paths) [] (code_path c l)"

fun holds_leaves :: "nat list \<times> nat \<Rightarrow> bool" where
  "holds_leaves (p, s) = (s < 256 \<and> code_path (huffman_codes ! s) (huffman_code_len ! s) = p)"

lemma inner_paths_hold_leaves: "list_all holds_leaves inner_paths"
  by (simp add: inner_paths_def code_path.simps huffman_codes_def huffman_codes_0_127_def
      huffman_codes_128_255_def huffman_code_len_def)

lemma inner_paths_complete: "list_all inner_ok code_table"
  by (simp add: inner_paths_def code_path.simps code_table_eq)

lemma steps_in_take: "steps_in P acc xs \<Longrightarrow> 1 \<le> k \<Longrightarrow> k \<le> length xs \<Longrightarrow> acc @ take k xs \<in> set P"
proof (induction P acc xs arbitrary: k rule: steps_in.induct)
  case (2 P acc x xs)
  then show ?case
    by (cases "k = 1") (auto simp: take_Cons' dest!: "2.IH" [of "k - 1"])
qed auto

lemma inner_path_leaf:
  assumes "s < 256" and "1 \<le> k" and "k \<le> length (code_path (huffman_codes ! s) (huffman_code_len ! s))"
  obtains t where "t < 256" and "code_path (huffman_codes ! t) (huffman_code_len ! t) =
    take k (code_path (huffman_codes ! s) (huffman_code_len ! s))"
proof -
  have "inner_ok (code_table ! s)"
    using inner_paths_complete assms(1) by (auto simp: list_all_length)
  then have "take k (code_path (huffman_codes ! s) (huffman_code_len ! s)) \<in> set (map fst inner_paths)"
    using steps_in_take [of "map fst inner_paths" "[]" _ k] assms by (simp add: code_table_nth)
  then show ?thesis
    using inner_paths_hold_leaves that by (fastforce simp: list_all_iff)
qed

end
