(* ===== verification/Huffman_Encode.thy ===== *)
theory Huffman_Encode
  imports Bitstring Huffman_Tables
begin

section \<open>The Huffman encoder (src/src/util/huffman.cpp)\<close>

text \<open>
  \<open>hf_byte_encode\<close> and \<open>hf_string_encode\<close> write codes bit by bit into a buffer the
  caller zeroed, with \<open>|=\<close>. The buffer is a byte list, a write behind it is undefined.
  The model's lemma states what a bit-level specification would: the bits in the buffer are the
  codes of the characters one after the other, then ones up to the byte boundary.
\<close>

definition HEX_TO_HF_CODE :: "byte \<Rightarrow> u32" where
  "HEX_TO_HF_CODE hex = word_of_nat (huffman_codes ! unat hex)"

definition HEX_TO_HF_CODE_LEN :: "byte \<Rightarrow> nat" where
  "HEX_TO_HF_CODE_LEN hex = huffman_code_len ! unat hex"

definition or_at :: "bytes \<Rightarrow> nat \<Rightarrow> byte \<Rightarrow> bytes outcome" where
  "or_at buff i t = (if i < length buff then Some (buff[i := buff ! i OR t]) else None)"

definition set_at :: "bytes \<Rightarrow> nat \<Rightarrow> byte \<Rightarrow> bytes outcome" where
  "set_at buff i t = (if i < length buff then Some (buff[i := t]) else None)"

text \<open>
  The loop of \<open>hf_byte_encode\<close> at buffer index \<open>i\<close>; the result is the number of
  free bits left in the last byte touched.
\<close>

function hf_byte_loop :: "u32 \<Rightarrow> nat \<Rightarrow> nat \<Rightarrow> bytes \<Rightarrow> nat \<Rightarrow> (nat \<times> bytes) outcome" where
  "hf_byte_loop codes nbits remain buff i =
     (if remain > nbits then do {
        buff \<leftarrow> or_at buff i (ucast (push_bit (remain - nbits) codes));
        Some (remain - nbits, buff)
      } else do {
        buff \<leftarrow> or_at buff i (ucast (drop_bit (nbits - remain) codes));
        buff \<leftarrow> set_at buff (i + 1) 0;
        if nbits - remain = 0 then Some (8, buff)
        else hf_byte_loop codes (nbits - remain) 8 buff (i + 1)
      })"
  by pat_completeness auto
termination
  by (relation "measure (\<lambda>(codes, nbits, remain, buff, i). 2 * nbits + of_bool (remain = 0))") auto

declare hf_byte_loop.simps [simp del]

definition hf_byte_encode :: "byte \<Rightarrow> nat \<Rightarrow> bytes \<Rightarrow> nat \<Rightarrow> (nat \<times> bytes) outcome" where
  "hf_byte_encode ch remain buff j =
     hf_byte_loop (HEX_TO_HF_CODE ch) (HEX_TO_HF_CODE_LEN ch) remain buff j"

text \<open>
  \<open>buff_in\<close> points to \<open>char\<close>, which is signed on the platforms the server is built
  for: the table index \<open>(int)buff_in[i]\<close> is negative for a byte from 128 on, and the read
  is outside the table.
\<close>

definition code_len_at :: "byte \<Rightarrow> nat outcome" where
  "code_len_at c = (if sint c < 0 then None else Some (HEX_TO_HF_CODE_LEN c))"

fun hf_string_loop :: "bytes \<Rightarrow> nat \<Rightarrow> nat \<Rightarrow> bytes \<Rightarrow> (nat \<times> nat \<times> bytes) outcome" where
  "hf_string_loop [] remain j buff = Some (remain, j, buff)"
| "hf_string_loop (c # cs) remain j buff = do {
     len \<leftarrow> code_len_at c;
     let nbytes = (if remain > len then (remain - len) div 8 else (len - remain) div 8 + 1);
     (remain, buff) \<leftarrow> hf_byte_encode c remain buff j;
     hf_string_loop cs remain (j + nbytes) buff
   }"

text \<open>The result: the buffer and the number of bytes used. The callers pass \<open>prefix = 0\<close>.\<close>

definition hf_string_encode :: "bytes \<Rightarrow> nat \<Rightarrow> bytes \<Rightarrow> (bytes \<times> nat) outcome" where
  "hf_string_encode buff_in nprefix buff_out = do {
     (remain, j, buff) \<leftarrow> hf_string_loop buff_in (8 - nprefix) 0 buff_out;
     if remain < 8 then do {
       buff \<leftarrow> or_at buff j (ucast (drop_bit (30 - remain) (0x3fffffff :: u32)));
       Some (buff, j + 1)
     } else Some (buff, j)
   }"

text \<open>\<open>MAX_HUFFMAN_BUFF_LEN\<close>, the size of every output buffer.\<close>

definition MAX_HUFFMAN_BUFF_LEN :: "nat \<Rightarrow> nat" where
  "MAX_HUFFMAN_BUFF_LEN l = l * 8 + 1"

text \<open>The length of the encoding alone, as \<open>hf_string_encode_len\<close> computes it.\<close>

definition hf_string_encode_len :: "bytes \<Rightarrow> nat" where
  "hf_string_encode_len enc = (sum_list (map HEX_TO_HF_CODE_LEN enc) + 7) div 8"

subsection \<open>The specification: code bits\<close>

definition code_bits :: "byte \<Rightarrow> bool list" where
  "code_bits c = bits_of (HEX_TO_HF_CODE_LEN c) (huffman_codes ! unat c)"

definition codes_of :: "bytes \<Rightarrow> bool list" where
  "codes_of cs = concat (map code_bits cs)"

lemma codes_of_simps [simp]:
  "codes_of [] = []" "codes_of (c # cs) = code_bits c @ codes_of cs"
  by (simp_all add: codes_of_def)

lemma unat_byte_less: "unat (b :: byte) < 256"
  using unsigned_less [of b, where 'a = nat] by simp

lemma code_len_bounds: "5 \<le> HEX_TO_HF_CODE_LEN c" "HEX_TO_HF_CODE_LEN c \<le> 30"
  using code_bounds [OF unat_byte_less [of c]] by (simp_all add: HEX_TO_HF_CODE_LEN_def)

lemma length_code_bits [simp]: "length (code_bits c) = HEX_TO_HF_CODE_LEN c"
  by (simp add: code_bits_def)

lemma unat_HEX_TO_HF_CODE: "unat (HEX_TO_HF_CODE c) = huffman_codes ! unat c"
proof -
  have "huffman_codes ! unat c < 2 ^ HEX_TO_HF_CODE_LEN c"
    using code_bounds(3) [OF unat_byte_less [of c]] by (simp add: HEX_TO_HF_CODE_LEN_def)
  also have "\<dots> \<le> 2 ^ 30"
    using code_len_bounds(2) [of c] by (intro power_increasing) simp_all
  finally show ?thesis
    by (simp add: HEX_TO_HF_CODE_def unat_of_nat)
qed

subsection \<open>The buffer invariant\<close>

text \<open>
  \<open>packed buf j r bs\<close>: the bits \<open>bs\<close> fill the buffer up to byte \<open>j\<close>, whose
  lowest \<open>r\<close> bits are free and zero.
\<close>

definition packed :: "bytes \<Rightarrow> nat \<Rightarrow> nat \<Rightarrow> bool list \<Rightarrow> bool" where
  "packed buf j r bs \<longleftrightarrow> j < length buf \<and> 1 \<le> r \<and> r \<le> 8 \<and> unat (buf ! j) mod 2 ^ r = 0 \<and>
     bs = stream (take j buf) @ take (8 - r) (byte_bits (buf ! j))"

lemma packed_length: "packed buf j r bs \<Longrightarrow> length bs + r = 8 * j + 8"
  by (auto simp: packed_def)

lemma packed_start: "0 < n \<Longrightarrow> packed (replicate n 0) 0 8 []"
  by (simp add: packed_def)

lemma unat_or_low:
  fixes x t :: "'a::len word"
  assumes "unat x mod 2 ^ r = 0" and "unat t < 2 ^ r"
  shows "unat (x OR t) = unat x + unat t"
proof -
  have "\<not> (bit (unat x) n \<and> bit (unat t) n)" for n
  proof (cases "n < r")
    case True
    then show ?thesis
      using assms(1) bit_take_bit_iff [of r "unat x" n] by (simp add: take_bit_eq_mod)
  next
    case False
    have "take_bit r (unat t) = unat t"
      using assms(2) by (simp add: take_bit_nat_eq_self)
    then show ?thesis
      using False by (metis bit_take_bit_iff)
  qed
  then have "unat x AND unat t = 0"
    by (intro bit_eqI) (simp add: bit_and_iff)
  then have "unat x OR unat t = unat x + unat t"
    by (simp add: disjunctive_add_eq_or)
  then show ?thesis
    by (simp only: unsigned_or_eq)
qed

lemma byte_bits_or_low:
  assumes "unat x mod 2 ^ r = 0" and "unat t = v mod 2 ^ n * 2 ^ (r - n)" and "n \<le> r" and "r \<le> 8"
  shows "take (8 - (r - n)) (byte_bits (x OR t)) = take (8 - r) (byte_bits x) @ bits_of n v"
    and "unat (x OR t) mod 2 ^ (r - n) = 0"
proof -
  obtain h where h: "unat x = 2 ^ r * h"
    using assms(1) by auto
  have split: "(2::nat) ^ r = 2 ^ n * 2 ^ (r - n)"
    using assms(3) by (simp flip: power_add)
  have "unat t < 2 ^ r"
    unfolding assms(2) split by simp
  then have or: "unat (x OR t) = (h * 2 ^ n + v mod 2 ^ n) * 2 ^ (r - n)"
    using unat_or_low [OF assms(1)] assms(2) h split by (simp add: algebra_simps)
  then show "unat (x OR t) mod 2 ^ (r - n) = 0"
    by simp
  have e: "8 - (r - n) = (8 - r) + n"
    using assms(3,4) by simp
  have "take ((8 - r) + n) (byte_bits (x OR t)) = bits_of ((8 - r) + n) (h * 2 ^ n + v mod 2 ^ n)"
    using or assms(3,4) by (simp add: byte_bits_def take_bits_of flip: e)
  also have "\<dots> = bits_of (8 - r) h @ bits_of n v"
    by (rule bits_of_add)
  also have "bits_of (8 - r) h = take (8 - r) (byte_bits x)"
    using h assms(4) by (simp add: byte_bits_def take_bits_of)
  finally show "take (8 - (r - n)) (byte_bits (x OR t)) = take (8 - r) (byte_bits x) @ bits_of n v"
    by (simp only: e)
qed

lemma packed_part:
  assumes "packed buf j r bs" and "n < r" and "unat t = v mod 2 ^ n * 2 ^ (r - n)"
  shows "packed (buf[j := buf ! j OR t]) j (r - n) (bs @ bits_of n v)"
  using assms byte_bits_or_low [of "buf ! j" r t v n] by (auto simp: packed_def)

lemma packed_full:
  assumes "packed buf j r bs" and "unat t = v mod 2 ^ r" and "Suc j < length buf"
  shows "packed (buf[j := buf ! j OR t, Suc j := 0]) (Suc j) 8 (bs @ bits_of r v)"
  using assms byte_bits_or_low [of "buf ! j" r t v r] by (auto simp: packed_def take_Suc_conv_app_nth)

subsection \<open>The loops keep the invariant\<close>

lemma unat_low_byte: "unat (ucast (w :: u32) :: byte) = unat w mod 256"
  by (simp add: unsigned_ucast_eq take_bit_eq_mod unsigned_take_bit_eq)

lemma shifted_left_byte:
  assumes "n < r" and "r \<le> 8" and "r = 8 \<or> unat (codes :: u32) < 2 ^ n"
  shows "unat (ucast (push_bit (r - n) codes) :: byte) = unat codes mod 2 ^ n * 2 ^ (r - n)"
proof -
  have m: "unat (ucast (push_bit (r - n) codes) :: byte) = unat codes * 2 ^ (r - n) mod 256"
    by (simp only: unat_low_byte unat_push_bit) (simp add: mod_mod_cancel)
  show ?thesis
  proof (cases "r = 8")
    case True
    have "(256::nat) = 2 ^ n * 2 ^ (r - n)"
      using assms(1) True by (simp flip: power_add)
    then show ?thesis
      using m by (simp only: mod_mult_mult2)
  next
    case False
    with assms have c: "unat codes < 2 ^ n"
      by simp
    then have "unat codes * 2 ^ (r - n) < 2 ^ n * 2 ^ (r - n)"
      by simp
    also have "\<dots> = 2 ^ r"
      using assms(1) by (simp flip: power_add)
    also have "\<dots> \<le> 2 ^ 8"
      using assms(2) by (intro power_increasing) simp_all
    finally show ?thesis
      using m c by simp
  qed
qed

lemma shifted_right_byte:
  assumes "r \<le> n" and "r \<le> 8" and "r = 8 \<or> unat (codes :: u32) < 2 ^ n"
  shows "unat (ucast (drop_bit (n - r) codes) :: byte) = unat codes div 2 ^ (n - r) mod 2 ^ r"
proof -
  have m: "unat (ucast (drop_bit (n - r) codes) :: byte) = unat codes div 2 ^ (n - r) mod 256"
    by (simp only: unat_low_byte unat_drop_bit)
  show ?thesis
  proof (cases "r = 8")
    case True
    with m show ?thesis by simp
  next
    case False
    have "unat codes < 2 ^ r * 2 ^ (n - r)"
      using assms False by (simp flip: power_add)
    then have c: "unat codes div 2 ^ (n - r) < 2 ^ r"
      by (rule less_mult_imp_div_less)
    moreover have "(2::nat) ^ r \<le> 2 ^ 8"
      using assms(2) by (intro power_increasing) simp_all
    ultimately show ?thesis
      using m by simp
  qed
qed

lemma hf_byte_loop_packed:
  assumes "packed buf i r bs" and "r = 8 \<or> unat codes < 2 ^ nbits"
    and "(length bs + nbits) div 8 < length buf"
  shows "\<exists>r' buf'. hf_byte_loop codes nbits r buf i = Some (r', buf') \<and> length buf' = length buf \<and>
           packed buf' ((length bs + nbits) div 8) r' (bs @ bits_of nbits (unat codes))"
  using assms
proof (induction codes nbits r buf i arbitrary: bs rule: hf_byte_loop.induct)
  case (1 codes nbits r buf i)
  have len: "length bs + r = 8 * i + 8" and i: "i < length buf" and r: "r \<le> 8" "1 \<le> r"
    using "1.prems"(1) packed_length by (auto simp: packed_def)
  show ?case
  proof (cases "r > nbits")
    case True
    have at: "(length bs + nbits) div 8 = i"
      using len True r by linarith
    show ?thesis
      using packed_part [OF "1.prems"(1) True shifted_left_byte [OF True r(1) "1.prems"(2)]] True i at
      by (simp add: hf_byte_loop.simps [of codes nbits] or_at_def)
  next
    case False
    let ?t = "ucast (drop_bit (nbits - r) codes) :: byte"
    let ?buf = "buf[i := buf ! i OR ?t, Suc i := 0]"
    have at: "Suc i \<le> (length bs + nbits) div 8"
      using len False by linarith
    then have p: "packed ?buf (Suc i) 8 (bs @ bits_of r (unat codes div 2 ^ (nbits - r)))"
      using "1.prems" False r
      by (intro packed_full shifted_right_byte) simp_all
    have bits: "bits_of nbits (unat codes) =
        bits_of r (unat codes div 2 ^ (nbits - r)) @ bits_of (nbits - r) (unat codes)"
      using bits_of_append [of r "nbits - r"] False by simp
    have step: "hf_byte_loop codes nbits r buf i =
        (if nbits - r = 0 then Some (8, ?buf) else hf_byte_loop codes (nbits - r) 8 ?buf (Suc i))"
      using False i at "1.prems"(3) by (subst hf_byte_loop.simps) (simp add: or_at_def set_at_def)
    show ?thesis
    proof (cases "nbits - r = 0")
      case True
      then have "(length bs + nbits) div 8 = Suc i"
        using len False by simp
      then show ?thesis
        using True p step bits by auto
    next
      case nz: False
      have "length (bs @ bits_of r (unat codes div 2 ^ (nbits - r))) + (nbits - r) = length bs + nbits"
        using False by simp
      then show ?thesis
        using "1.IH" [OF False, of _ ?buf "bs @ bits_of r (unat codes div 2 ^ (nbits - r))"] nz p step bits
          "1.prems"(3) i at by (simp add: or_at_def set_at_def)
    qed
  qed
qed

text \<open>The characters the encoder's \<open>char\<close> index is defined for.\<close>

definition is_ascii :: "byte \<Rightarrow> bool" where
  "is_ascii c \<longleftrightarrow> unat c < 128"

lemma sint_neg_iff: "sint (c :: byte) < 0 \<longleftrightarrow> \<not> is_ascii c"
proof -
  have "bit c 7 \<longleftrightarrow> bit (unat c) 7"
    by (simp add: bit_unsigned_iff)
  also have "\<dots> \<longleftrightarrow> odd (unat c div 2 ^ 7)"
    by (rule bit_iff_odd)
  also have "\<dots> \<longleftrightarrow> 128 \<le> unat c"
  proof -
    have "unat c div 128 < 2"
      using unat_byte_less [of c] by (simp add: less_mult_imp_div_less)
    then have "unat c div 128 = 0 \<or> unat c div 128 = 1"
      by linarith
    then show ?thesis
      by (auto simp: div_eq_0_iff)
  qed
  finally show ?thesis
    by (simp add: is_ascii_def sint_uint signed_take_bit_negative_iff not_less bit_uint_iff)
qed

lemma code_len_at_ascii: "is_ascii c \<Longrightarrow> code_len_at c = Some (HEX_TO_HF_CODE_LEN c)"
  by (simp add: code_len_at_def sint_neg_iff)

lemma hf_byte_encode_packed:
  assumes "packed buf j r bs" and "(length bs + HEX_TO_HF_CODE_LEN c) div 8 < length buf"
  shows "\<exists>r' buf'. hf_byte_encode c r buf j = Some (r', buf') \<and> length buf' = length buf \<and>
           packed buf' ((length bs + HEX_TO_HF_CODE_LEN c) div 8) r' (bs @ code_bits c)"
  using hf_byte_loop_packed [OF assms(1) _ assms(2), of "HEX_TO_HF_CODE c"]
    code_bounds(3) [OF unat_byte_less [of c]]
  by (simp add: hf_byte_encode_def unat_HEX_TO_HF_CODE code_bits_def HEX_TO_HF_CODE_LEN_def)

lemma hf_string_loop_packed:
  assumes "packed buf j r bs" and "list_all is_ascii cs"
    and "(length bs + length (codes_of cs)) div 8 < length buf"
  shows "\<exists>r' j' buf'. hf_string_loop cs r j buf = Some (r', j', buf') \<and> length buf' = length buf \<and>
           packed buf' j' r' (bs @ codes_of cs)"
  using assms
proof (induction cs arbitrary: buf j r bs)
  case Nil
  then show ?case by simp
next
  case (Cons c cs)
  let ?len = "HEX_TO_HF_CODE_LEN c"
  let ?j = "j + (if r > ?len then (r - ?len) div 8 else (?len - r) div 8 + 1)"
  have len: "length bs + r = 8 * j + 8" and r: "r \<le> 8"
    using Cons.prems(1) packed_length by (auto simp: packed_def)
  have at: "(length bs + ?len) div 8 = ?j"
    using len r code_len_bounds [of c] by auto
  have fits: "(length bs + ?len) div 8 < length buf"
    using Cons.prems(3) div_le_mono [of "length bs + ?len" "length bs + (?len + length (codes_of cs))" 8]
    by simp
  obtain r' buf' where enc: "hf_byte_encode c r buf j = Some (r', buf')" "length buf' = length buf"
    "packed buf' ?j r' (bs @ code_bits c)"
    using hf_byte_encode_packed [OF Cons.prems(1) fits] unfolding at by blast
  have "(length (bs @ code_bits c) + length (codes_of cs)) div 8 < length buf'"
    using Cons.prems(3) enc(2) by (simp add: add.assoc)
  then show ?case
    using Cons.IH [OF enc(3)] Cons.prems(2) enc by (simp add: code_len_at_ascii)
qed

lemma codes_of_length: "5 * length cs \<le> length (codes_of cs)" "length (codes_of cs) \<le> 30 * length cs"
  by (induction cs) (use code_len_bounds in \<open>auto intro: add_mono\<close>)

lemma pad_byte:
  assumes "r \<le> 7"
  shows "unat (ucast (drop_bit (30 - r) (0x3fffffff :: u32)) :: byte) = (2 ^ r - 1) mod 2 ^ r * 2 ^ (r - r)"
proof -
  have "r \<in> {0, 1, 2, 3, 4, 5, 6, 7}"
    using assms by auto
  then show ?thesis
    by (elim insertE emptyE) (simp_all add: unat_low_byte unat_drop_bit)
qed

subsection \<open>The string encoder\<close>

lemma hf_string_encode_stream:
  assumes "list_all is_ascii cs"
  shows "\<exists>buf j k. hf_string_encode cs 0 (replicate (MAX_HUFFMAN_BUFF_LEN (length cs)) 0) = Some (buf, j) \<and>
           j \<le> length buf \<and> length buf = MAX_HUFFMAN_BUFF_LEN (length cs) \<and> k < 8 \<and>
           stream (take j buf) = codes_of cs @ replicate k True"
proof -
  let ?n = "MAX_HUFFMAN_BUFF_LEN (length cs)"
  have "length (codes_of cs) div 8 < ?n"
    using codes_of_length(2) [of cs] by (simp add: MAX_HUFFMAN_BUFF_LEN_def)
  then obtain r j buf where loop: "hf_string_loop cs 8 0 (replicate ?n 0) = Some (r, j, buf)"
    and len: "length buf = ?n" and p: "packed buf j r (codes_of cs)"
    using hf_string_loop_packed [of "replicate ?n 0" 0 8 "[]" cs] packed_start [of ?n] assms
    by (auto simp: MAX_HUFFMAN_BUFF_LEN_def)
  show ?thesis
  proof (cases "r < 8")
    case True
    let ?t = "ucast (drop_bit (30 - r) (0x3fffffff :: u32)) :: byte"
    have r: "1 \<le> r" and j: "j < length buf" and low: "unat (buf ! j) mod 2 ^ r = 0"
      and bits: "codes_of cs = stream (take j buf) @ take (8 - r) (byte_bits (buf ! j))"
      using p by (auto simp: packed_def)
    have "take (8 - (r - r)) (byte_bits (buf ! j OR ?t)) = take (8 - r) (byte_bits (buf ! j)) @ bits_of r (2 ^ r - 1)"
      using True low pad_byte [of r] by (intro byte_bits_or_low(1)) simp_all
    then have "stream (take (Suc j) (buf[j := buf ! j OR ?t])) = codes_of cs @ replicate r True"
      using j bits bits_of_ones [of r] by (simp add: take_Suc_conv_app_nth)
    then show ?thesis
      using loop True j len
      by (intro exI [of _ "buf[j := buf ! j OR ?t]"] exI [of _ "Suc j"] exI [of _ r])
        (simp add: hf_string_encode_def or_at_def)
  next
    case False
    with p have "r = 8" and "codes_of cs = stream (take j buf)" and "j < length buf"
      by (auto simp: packed_def)
    then show ?thesis
      using loop len
      by (intro exI [of _ buf] exI [of _ j] exI [of _ 0]) (simp add: hf_string_encode_def)
  qed
qed

lemma length_codes_of: "length (codes_of cs) = sum_list (map HEX_TO_HF_CODE_LEN cs)"
  by (induction cs) auto

text \<open>
  for a string of characters below 128 and a zeroed buffer of MAX_HUFFMAN_BUFF_LEN bytes,
  hf_string_encode writes inside the buffer, and the bits it leaves there are the code table's
  codes of the characters one after the other followed by at most seven ones; the number of
  bytes it reports is what hf_string_encode_len computes.
\<close>

theorem hf_string_encode_correct:
  assumes "list_all is_ascii cs"
  shows "\<exists>buf j k. hf_string_encode cs 0 (replicate (MAX_HUFFMAN_BUFF_LEN (length cs)) 0) = Some (buf, j) \<and>
           j \<le> length buf \<and> k < 8 \<and> stream (take j buf) = codes_of cs @ replicate k True \<and>
           j = hf_string_encode_len cs"
proof -
  obtain buf j k where enc: "hf_string_encode cs 0 (replicate (MAX_HUFFMAN_BUFF_LEN (length cs)) 0) = Some (buf, j)"
    and j: "j \<le> length buf" and k: "k < 8" and bits: "stream (take j buf) = codes_of cs @ replicate k True"
    using hf_string_encode_stream [OF assms] by blast
  have "8 * j = length (codes_of cs) + k"
    using arg_cong [OF bits, of length] j by simp
  then have "j = hf_string_encode_len cs"
    using k by (simp add: hf_string_encode_len_def length_codes_of)
  with enc j k bits show ?thesis
    by blast
qed

theorem hf_string_encode_correct_witness:
  "\<exists>buf j k. hf_string_encode [0x61, 0x2F] 0 (replicate (MAX_HUFFMAN_BUFF_LEN (length [0x61, 0x2F :: byte])) 0) = Some (buf, j) \<and>
     j \<le> length buf \<and> k < 8 \<and> stream (take j buf) = codes_of [0x61, 0x2F] @ replicate k True \<and>
     j = hf_string_encode_len [0x61, 0x2F]"
  by (rule hf_string_encode_correct) (simp add: is_ascii_def)

lemma hf_string_loop_high: "\<not> list_all is_ascii cs \<Longrightarrow> hf_string_loop cs r j buf = None"
proof (induction cs arbitrary: r j buf)
  case (Cons c cs)
  then show ?case
    by (cases "is_ascii c") (auto simp: code_len_at_def sint_neg_iff Let_def split: bind_splits)
qed simp

text \<open>
  a string with a byte from 128 on has no defined encoding, whatever the buffer: the table
  is indexed with the signed character, a negative number.
\<close>

theorem hf_string_encode_high_byte:
  assumes "\<not> list_all is_ascii cs"
  shows "hf_string_encode cs nprefix buf = None"
  using assms by (simp add: hf_string_encode_def hf_string_loop_high)

theorem hf_string_encode_high_byte_witness:
  "hf_string_encode [0x61, 0xC3, 0xA9] 0 (replicate (MAX_HUFFMAN_BUFF_LEN 3) 0) = None"
  by (rule hf_string_encode_high_byte) (simp add: is_ascii_def)

end
