(* ===== verification/Huffman_Decode.thy ===== *)
theory Huffman_Decode
  imports Huffman_Encode
begin

section \<open>The Huffman tree and the decoder (src/src/util/huffman.cpp)\<close>

text \<open>
  \<open>hf_init\<close> builds a tree with 256-way nodes out of the code table; a code of length
  \<open>8 q + r\<close> becomes a path of \<open>q\<close> inner nodes and \<open>2 ^ (8 - r)\<close> leaves. The
  decoder walks it byte by byte. The tree is characterised by what lies at the end of a byte
  path, and the decoder is proved to invert the code.
\<close>

datatype hnode = HNode
  (kids: "nat \<Rightarrow> hnode option") (sym: byte) (code: nat) (code_len: nat) (size_of: nat)

definition node_create :: hnode where
  "node_create = HNode (\<lambda>_. None) 0 0 0 0"

text \<open>One iteration of the last loop of \<open>_hf_add_node\<close>: child \<open>j\<close> is created or overwritten.\<close>

definition leaf_of :: "byte \<Rightarrow> nat \<Rightarrow> nat \<Rightarrow> hnode option \<Rightarrow> hnode" where
  "leaf_of s c l old = (let n = (case old of None \<Rightarrow> node_create | Some n \<Rightarrow> n)
     in HNode (kids n) s c l (size_of n))"

definition add_leaf :: "byte \<Rightarrow> nat \<Rightarrow> nat \<Rightarrow> nat \<Rightarrow> hnode \<Rightarrow> hnode" where
  "add_leaf s c l j cur =
     HNode ((kids cur)(j := Some (leaf_of s c l (kids cur j)))) (sym cur) (code cur) (code_len cur) (size_of cur + 1)"

text \<open>
  The casts to \<open>unsigned char\<close> are \<open>mod 256\<close>; codes have at most 30 bits, and what
  the left shift of the machine drops lies above the eight bits the cast keeps.
\<close>

fun hf_add_node :: "hnode \<Rightarrow> byte \<Rightarrow> nat \<Rightarrow> nat \<Rightarrow> hnode" where
  "hf_add_node cur s c l =
     (if l > 8 then
        let i = c div 2 ^ (l - 8) mod 256;
            child = (case kids cur i of None \<Rightarrow> node_create | Some n \<Rightarrow> n)
        in HNode ((kids cur)(i := Some (hf_add_node child s c (l - 8)))) (sym cur) (code cur) (code_len cur) (size_of cur)
      else
        let shift = 8 - l; start = c * 2 ^ shift mod 256
        in fold (add_leaf s c l) [start..<start + 2 ^ shift] cur)"

declare hf_add_node.simps [simp del]

definition hf_add_symbol :: "nat \<Rightarrow> hnode \<Rightarrow> hnode" where
  "hf_add_symbol i h_node = hf_add_node h_node (word_of_nat i) (huffman_codes ! i) (huffman_code_len ! i)"

definition hf_init :: hnode where
  "hf_init = fold hf_add_symbol [0..<256] node_create"

text \<open>
  The inner loop of \<open>hf_string_decode\<close>, while at least eight bits are pending. An error is
  \<open>Inl\<close> of the negative return value. \<open>out_buff\<close> has \<open>out_sz\<close> bytes, and a write
  behind it is undefined: the test \<open>at > out_sz\<close> lets one through.
\<close>

function hf_inner :: "hnode \<Rightarrow> u32 \<Rightarrow> nat \<Rightarrow> hnode \<Rightarrow> nat \<Rightarrow> bytes \<Rightarrow> (int + hnode \<times> nat \<times> bytes) outcome" where
  "hf_inner h_node cur out_sz n nbits out =
     (if nbits < 8 then Some (Inr (n, nbits, out))
      else case kids n (unat (ucast (drop_bit (nbits - 8) cur) :: byte)) of
        None \<Rightarrow> Some (Inl (- 1))
      | Some n' \<Rightarrow>
          if size_of n' = 0 then
            if out_sz > 0 \<and> length out > out_sz then Some (Inl (- 2))
            else if length out \<ge> out_sz then None
            else hf_inner h_node cur out_sz h_node (nbits - code_len n') (out @ [sym n'])
          else hf_inner h_node cur out_sz n' (nbits - 8) out)"
  by pat_completeness auto
termination
  by (relation "measures [\<lambda>(h, cur, sz, n, nb, out). sz - length out, \<lambda>(h, cur, sz, n, nb, out). nb]") auto

declare hf_inner.simps [simp del]

text \<open>
  The loop after the last byte, over fewer than eight pending bits: here the child is used
  without a test, and a missing one is a null pointer.
\<close>

function hf_tail :: "hnode \<Rightarrow> u32 \<Rightarrow> nat \<Rightarrow> hnode \<Rightarrow> nat \<Rightarrow> bytes \<Rightarrow> bytes outcome" where
  "hf_tail h_node cur out_sz n nbits out =
     (if nbits = 0 then Some out
      else case kids n (unat (ucast (push_bit (8 - nbits) cur) :: byte)) of
        None \<Rightarrow> None
      | Some n' \<Rightarrow>
          if size_of n' \<noteq> 0 \<or> code_len n' > nbits then Some out
          else if length out \<ge> out_sz then None
          else hf_tail h_node cur out_sz h_node (nbits - code_len n') (out @ [sym n']))"
  by pat_completeness auto
termination
  by (relation "measure (\<lambda>(h, cur, sz, n, nb, out). sz - length out)") auto

declare hf_tail.simps [simp del]

text \<open>The loop over the encoded bytes; \<open>enc\<close> is the memory from the string's start on.\<close>

function hf_bytes :: "hnode \<Rightarrow> bytes \<Rightarrow> nat \<Rightarrow> nat \<Rightarrow> nat \<Rightarrow> u32 \<Rightarrow> hnode \<Rightarrow> nat \<Rightarrow> bytes \<Rightarrow> (int + bytes) outcome" where
  "hf_bytes h_node enc enc_sz out_sz i cur n nbits out =
     (if i < enc_sz then do {
        e \<leftarrow> rd enc i;
        let cur = push_bit 8 cur OR ucast e;
        r \<leftarrow> hf_inner h_node cur out_sz n (nbits + 8) out;
        case r of Inl rc \<Rightarrow> Some (Inl rc)
        | Inr (n, nbits, out) \<Rightarrow> hf_bytes h_node enc enc_sz out_sz (i + 1) cur n nbits out
      } else map_option Inr (hf_tail h_node cur out_sz n nbits out))"
  by pat_completeness auto
termination
  by (relation "measure (\<lambda>(h, enc, sz, osz, i, cur, n, nb, out). sz - i)") auto

declare hf_bytes.simps [simp del]

definition hf_string_decode :: "hnode \<Rightarrow> bytes \<Rightarrow> nat \<Rightarrow> nat \<Rightarrow> (int + bytes) outcome" where
  "hf_string_decode h_node enc enc_sz out_sz = hf_bytes h_node enc enc_sz out_sz 0 0 h_node 0 []"


subsection \<open>What lies at the end of a path\<close>

fun descend :: "hnode \<Rightarrow> nat list \<Rightarrow> hnode option" where
  "descend n [] = Some n"
| "descend n (i # p) = Option.bind (kids n i) (\<lambda>k. descend k p)"

text \<open>The three fields the decoder looks at; a missing node counts as a fresh one.\<close>

definition info :: "hnode \<Rightarrow> nat list \<Rightarrow> (byte \<times> nat \<times> nat) option" where
  "info t p = (case descend t p of None \<Rightarrow> None | Some n \<Rightarrow> Some (sym n, code_len n, size_of n))"

definition info0 :: "hnode \<Rightarrow> nat list \<Rightarrow> byte \<times> nat \<times> nat" where
  "info0 t p = (case info t p of None \<Rightarrow> (0, 0, 0) | Some x \<Rightarrow> x)"

lemma descend_append: "descend n (p @ q) = Option.bind (descend n p) (\<lambda>m. descend m q)"
  by (induction p arbitrary: n) (auto split: bind_splits)

lemma info_Nil [simp]: "info t [] = Some (sym t, code_len t, size_of t)"
  by (simp add: info_def)

lemma info_Cons: "info t (i # p) = Option.bind (kids t i) (\<lambda>k. info k p)"
  by (cases "kids t i") (auto simp: info_def)

lemma info_node_create: "info node_create p = (if p = [] then Some (0, 0, 0) else None)"
  by (cases p) (auto simp: info_Cons node_create_def)

definition residue :: "nat \<Rightarrow> nat" where
  "residue l = (if l = 0 then 0 else (l - 1) mod 8 + 1)"

definition is_leaf :: "nat \<Rightarrow> nat \<Rightarrow> nat list \<Rightarrow> bool" where
  "is_leaf c l p \<longleftrightarrow> p \<noteq> [] \<and> butlast p = code_path c l \<and> last p < 256 \<and>
     last p div 2 ^ (8 - residue l) = c mod 2 ^ residue l"

lemma residue_small: "l \<le> 8 \<Longrightarrow> residue l = l"
  by (auto simp: residue_def)

lemma residue_step: "8 < l \<Longrightarrow> residue (l - 8) = residue l"
proof -
  assume "8 < l"
  then have "l - 1 = (l - 9) + 8" and "l - 8 \<noteq> 0" and "l - 8 - 1 = l - 9"
    by simp_all
  then show ?thesis
    using \<open>8 < l\<close> mod_add_self2 [of "l - 9" 8] by (simp add: residue_def)
qed

lemma leaf_range:
  assumes "l \<le> 8"
  shows "j \<in> set [c * 2 ^ (8 - l) mod 256..<c * 2 ^ (8 - l) mod 256 + 2 ^ (8 - l)] \<longleftrightarrow>
    j < 256 \<and> j div 2 ^ (8 - l) = c mod 2 ^ l"
proof -
  let ?k = "2 ^ (8 - l) :: nat"
  have k: "256 = 2 ^ l * ?k"
    using assms by (simp flip: power_add)
  have s: "c * ?k mod 256 = (c mod 2 ^ l) * ?k"
    unfolding k by (simp only: mod_mult_mult2)
  have b: "(c mod 2 ^ l) * ?k + ?k \<le> 256"
  proof -
    have "(c mod 2 ^ l + 1) * ?k \<le> 2 ^ l * ?k"
      by (intro mult_right_mono) (simp_all add: Suc_leI)
    then show ?thesis
      using k by simp
  qed
  show ?thesis
    unfolding s
  proof
    assume "j \<in> set [(c mod 2 ^ l) * ?k..<(c mod 2 ^ l) * ?k + ?k]"
    then have "(c mod 2 ^ l) * ?k \<le> j" and "j < (c mod 2 ^ l + 1) * ?k"
      by simp_all
    then have "j div ?k = c mod 2 ^ l"
      by (intro div_nat_eqI) (simp_all add: algebra_simps)
    with \<open>j < _\<close> b show "j < 256 \<and> j div ?k = c mod 2 ^ l"
      by simp
  next
    assume "j < 256 \<and> j div ?k = c mod 2 ^ l"
    then show "j \<in> set [(c mod 2 ^ l) * ?k..<(c mod 2 ^ l) * ?k + ?k]"
      using div_times_less_eq_dividend [of j ?k] dividend_less_div_times [of ?k j] by auto
  qed
qed

lemma kids_fold_add_leaf:
  "distinct js \<Longrightarrow> kids (fold (add_leaf s c l) js cur) j =
     (if j \<in> set js then Some (leaf_of s c l (kids cur j)) else kids cur j)"
  by (induction js arbitrary: cur) (auto simp: add_leaf_def)

lemma size_fold_add_leaf:
  "size_of (fold (add_leaf s c l) js cur) = size_of cur + length js"
  "sym (fold (add_leaf s c l) js cur) = sym cur"
  "code_len (fold (add_leaf s c l) js cur) = code_len cur"
  by (induction js arbitrary: cur) (auto simp: add_leaf_def)

lemma leaf_of_fields [simp]:
  "sym (leaf_of s c l m) = s" "code_len (leaf_of s c l m) = l"
  "size_of (leaf_of s c l m) = (case m of None \<Rightarrow> 0 | Some n \<Rightarrow> size_of n)"
  by (cases m; simp add: leaf_of_def node_create_def)+

lemma info_leaf_of:
  "info (leaf_of s c l m) p = (if p = [] then Some (s, l, case m of None \<Rightarrow> 0 | Some n \<Rightarrow> size_of n)
     else Option.bind m (\<lambda>n. info n p))"
  by (cases p; cases m) (auto simp: leaf_of_def info_Cons node_create_def)

lemma info_add_node:
  assumes "1 \<le> l"
  shows "info (hf_add_node t s c l) p =
   (if is_leaf c l p then Some (s, residue l, snd (snd (info0 t p)))
    else if prefix p (code_path c l) then
      (case info0 t p of (y, n, z) \<Rightarrow> Some (y, n, z + (if p = code_path c l then 2 ^ (8 - residue l) else 0)))
    else info t p)"
  using assms
proof (induction t s c l arbitrary: p rule: hf_add_node.induct)
  case (1 cur s c l)
  show ?case
  proof (cases "8 < l")
    case True
    let ?i = "c div 2 ^ (l - 8) mod 256"
    let ?ch = "case kids cur ?i of None \<Rightarrow> node_create | Some n \<Rightarrow> n"
    have step: "hf_add_node cur s c l = HNode ((kids cur)(?i := Some (hf_add_node ?ch s c (l - 8)))) (sym cur) (code cur) (code_len cur) (size_of cur)"
      using True by (subst hf_add_node.simps) (simp add: Let_def)
    have path: "code_path c l = ?i # code_path c (l - 8)"
      using True by (subst code_path.simps) simp
    show ?thesis
    proof (cases p)
      case Nil
      then show ?thesis
        by (simp add: step path is_leaf_def info0_def)
    next
      case (Cons i p')
      have leaf: "is_leaf c l (i # p') \<longleftrightarrow> i = ?i \<and> is_leaf c (l - 8) p'"
        using True by (auto simp: is_leaf_def path residue_step)
      have i1: "i = ?i \<Longrightarrow> info0 ?ch p' = info0 cur (i # p')"
        by (cases "kids cur ?i") (auto simp: info0_def info_Cons info_node_create)
      have i2: "i = ?i \<Longrightarrow> \<not> prefix p' (code_path c (l - 8)) \<Longrightarrow> info ?ch p' = info cur (i # p')"
        by (cases "kids cur ?i") (auto simp: info_Cons info_node_create)
      show ?thesis
        using "1.IH" [OF True refl refl, of p'] True i1 i2
        unfolding Cons leaf path
        by (auto simp: step info_Cons residue_step)
    qed
  next
    case False
    let ?st = "c * 2 ^ (8 - l) mod 256"
    define js where "js = [?st..<?st + 2 ^ (8 - l)]"
    have js: "distinct js" "length js = 2 ^ (8 - l)"
      by (simp_all add: js_def)
    have step: "hf_add_node cur s c l = fold (add_leaf s c l) js cur"
      using False by (subst hf_add_node.simps) (simp add: Let_def js_def)
    have path: "code_path c l = []"
      using False by (subst code_path.simps) simp
    have r: "residue l = l"
      using False by (simp add: residue_small)
    show ?thesis
    proof (cases p)
      case Nil
      then show ?thesis
        by (simp add: step path is_leaf_def size_fold_add_leaf info0_def r js)
    next
      case (Cons i p')
      have leaf: "is_leaf c l (i # p') \<longleftrightarrow> p' = [] \<and> i \<in> set js"
        using False leaf_range [of l i c] unfolding js_def by (auto simp: is_leaf_def path r)
      show ?thesis
        unfolding Cons leaf path step r
        by (cases "kids cur i"; cases "i \<in> set js"; cases "p' = []")
          (simp_all add: info_Cons kids_fold_add_leaf [OF js(1)] info_leaf_of info0_def)
    qed
  qed
qed

subsection \<open>Paths and code bits\<close>

definition pbits :: "nat list \<Rightarrow> bool list" where
  "pbits p = concat (map (bits_of 8) p)"

lemma pbits_simps [simp]: "pbits [] = []" "pbits (i # p) = bits_of 8 i @ pbits p" "pbits (p @ q) = pbits p @ pbits q"
  by (simp_all add: pbits_def)

lemma length_pbits [simp]: "length (pbits p) = 8 * length p"
  by (induction p) auto

lemma pbits_inj:
  "length p = length q \<Longrightarrow> \<forall>i\<in>set p. i < 256 \<Longrightarrow> \<forall>i\<in>set q. i < 256 \<Longrightarrow> pbits p = pbits q \<Longrightarrow> p = q"
proof (induction p q rule: list_induct2)
  case (Cons x xs y ys)
  then have "bits_of 8 x = bits_of 8 y" and "pbits xs = pbits ys"
    by (auto simp: append_eq_append_conv)
  then show ?case
    using Cons by (auto simp: bits_of_eq_iff)
qed simp

lemma residue_bounds: "1 \<le> l \<Longrightarrow> 1 \<le> residue l \<and> residue l \<le> 8"
  by (auto simp: residue_def)

lemma code_path_length: "1 \<le> l \<Longrightarrow> 8 * length (code_path c l) + residue l = l"
proof (induction c l rule: code_path.induct)
  case (1 c l)
  show ?case
  proof (cases "8 < l")
    case True
    then have "8 * length (code_path c (l - 8)) + residue l = l - 8"
      using "1.IH" by (simp add: residue_step)
    with True show ?thesis
      using code_path.simps [of c l] by simp
  next
    case False
    then show ?thesis
      using code_path.simps [of c l] by (simp add: residue_small)
  qed
qed

lemma code_path_less: "i \<in> set (code_path c l) \<Longrightarrow> i < 256"
proof (induction c l rule: code_path.induct)
  case (1 c l)
  then show ?case
    by (subst (asm) (2) code_path.simps) (auto split: if_splits)
qed

lemma code_path_bits: "1 \<le> l \<Longrightarrow> bits_of l c = pbits (code_path c l) @ bits_of (residue l) c"
proof (induction c l rule: code_path.induct)
  case (1 c l)
  show ?case
  proof (cases "8 < l")
    case True
    have "bits_of l c = bits_of 8 (c div 2 ^ (l - 8)) @ bits_of (l - 8) c"
      using True bits_of_append [of 8 "l - 8" c] by simp
    also have "bits_of 8 (c div 2 ^ (l - 8)) = bits_of 8 (c div 2 ^ (l - 8) mod 256)"
      using bits_of_mod [of 8 "c div 2 ^ (l - 8)"] by simp
    finally show ?thesis
      using True 1 code_path.simps [of c l] by (simp add: residue_step)
  next
    case False
    then show ?thesis
      using code_path.simps [of c l] by (simp add: residue_small)
  qed
qed

lemma last_bits:
  assumes "1 \<le> l"
  shows "j div 2 ^ (8 - residue l) = c mod 2 ^ residue l \<Longrightarrow> prefix (bits_of (residue l) c) (bits_of 8 j)"
    and "j < 256 \<Longrightarrow> prefix (bits_of (residue l) c) (bits_of 8 j) \<Longrightarrow> j div 2 ^ (8 - residue l) = c mod 2 ^ residue l"
proof -
  have take: "take (residue l) (bits_of 8 j) = bits_of (residue l) (j div 2 ^ (8 - residue l))"
    using residue_bounds [OF assms] by (simp add: take_bits_of)
  show "prefix (bits_of (residue l) c) (bits_of 8 j)"
    if "j div 2 ^ (8 - residue l) = c mod 2 ^ residue l"
    using take take_is_prefix [of "residue l" "bits_of 8 j"] unfolding that by simp
  show "j div 2 ^ (8 - residue l) = c mod 2 ^ residue l"
    if "j < 256" and "prefix (bits_of (residue l) c) (bits_of 8 j)"
  proof -
    have "j < 2 ^ residue l * 2 ^ (8 - residue l)"
      using that(1) residue_bounds [OF assms] by (simp flip: power_add)
    then have "j div 2 ^ (8 - residue l) < 2 ^ residue l"
      by (rule less_mult_imp_div_less)
    moreover have "bits_of (residue l) c = bits_of (residue l) (j div 2 ^ (8 - residue l))"
      using that(2) unfolding take [symmetric] by (auto simp: prefix_def)
    ultimately show ?thesis
      by (simp add: bits_of_eq_iff)
  qed
qed

lemma leaf_bits:
  assumes "1 \<le> l" and "is_leaf c l p"
  shows "prefix (bits_of l c) (pbits p)" and "length p = Suc (length (code_path c l))"
proof -
  obtain j where p: "p = code_path c l @ [j]" and j: "j div 2 ^ (8 - residue l) = c mod 2 ^ residue l"
    using assms(2) unfolding is_leaf_def by (metis append_butlast_last_id)
  show "prefix (bits_of l c) (pbits p)"
    using last_bits(1) [OF assms(1) j] code_path_bits [OF assms(1), of c] by (simp add: p)
  show "length p = Suc (length (code_path c l))"
    by (simp add: p)
qed

lemma inner_of_bits:
  assumes "1 \<le> l" and "\<forall>i\<in>set p. i < 256" and "8 * length p < l" and "prefix (pbits p) (bits_of l c)"
  shows "prefix p (code_path c l)"
proof -
  have len: "length p \<le> length (code_path c l)"
    using assms(3) code_path_length [OF assms(1), of c] residue_bounds [OF assms(1)] by linarith
  have "pbits p = take (8 * length p) (bits_of l c)"
    using assms(4) by (auto simp: prefix_def)
  also have "\<dots> = take (8 * length p) (pbits (code_path c l))"
    using code_path_bits [OF assms(1), of c] len by simp
  also have "\<dots> = pbits (take (length p) (code_path c l))"
    using len by (subst append_take_drop_id [of "length p" "code_path c l", symmetric], subst pbits_simps(3)) simp
  finally have "p = take (length p) (code_path c l)"
    using len assms(2) code_path_less [of _ c l]
    by (intro pbits_inj) (auto dest: in_set_takeD)
  then show ?thesis
    by (metis take_is_prefix)
qed

lemma leaf_of_bits:
  assumes "1 \<le> l" and "\<forall>i\<in>set q. i < 256" and "j < 256" and "8 * length q < l" and "l \<le> 8 * length q + 8"
    and "prefix (bits_of l c) (pbits (q @ [j]))"
  shows "is_leaf c l (q @ [j])" and "q = code_path c l" and "residue l = l - 8 * length q"
proof -
  have "prefix (pbits q) (bits_of l c)"
    using assms(4,6) prefix_length_prefix [of "pbits q" "pbits (q @ [j])" "bits_of l c"] by simp
  then have pre: "prefix q (code_path c l)"
    using inner_of_bits assms by blast
  moreover have "length q = length (code_path c l)"
    using code_path_length [OF assms(1), of c] residue_bounds [OF assms(1)] assms(4,5) by linarith
  ultimately show q: "q = code_path c l"
    by (auto simp: prefix_def)
  show "residue l = l - 8 * length q"
    using code_path_length [OF assms(1), of c] q by simp
  have "prefix (bits_of (residue l) c) (bits_of 8 j)"
    using assms(6) code_path_bits [OF assms(1), of c] q by simp
  then have "j div 2 ^ (8 - residue l) = c mod 2 ^ residue l"
    using last_bits(2) assms(1,3) by blast
  then show "is_leaf c l (q @ [j])"
    using q assms(3) by (simp add: is_leaf_def)
qed

subsection \<open>The tree of the code table\<close>

definition word_of_sym :: "nat \<Rightarrow> bool list" where
  "word_of_sym s = bits_of (huffman_code_len ! s) (huffman_codes ! s)"

definition sym_path :: "nat \<Rightarrow> nat list" where
  "sym_path s = code_path (huffman_codes ! s) (huffman_code_len ! s)"

definition sym_leaf :: "nat \<Rightarrow> nat list \<Rightarrow> bool" where
  "sym_leaf s p = is_leaf (huffman_codes ! s) (huffman_code_len ! s) p"

definition size_at :: "hnode \<Rightarrow> nat list \<Rightarrow> nat" where
  "size_at t p = snd (snd (info0 t p))"

lemma code_len_pos: "s < 256 \<Longrightarrow> 1 \<le> huffman_code_len ! s"
  using code_bounds(1) [of s] by simp

lemma prefix_free:
  assumes "s < 256" and "t < 256" and "prefix (word_of_sym s) (word_of_sym t)"
  shows "s = t"
proof (rule ccontr)
  let ?cs = "huffman_codes ! s" and ?ls = "huffman_code_len ! s"
  let ?ct = "huffman_codes ! t" and ?lt = "huffman_code_len ! t"
  assume "s \<noteq> t"
  obtain x where x: "word_of_sym t = word_of_sym s @ x"
    using assms(3) by (auto simp: prefix_def)
  have len: "?lt = ?ls + length x"
    using arg_cong [OF x, of length] by (simp add: word_of_sym_def)
  have "?ct = ?cs * 2 ^ length x + val x"
    using arg_cong [OF x, of val] code_bounds(3) [OF assms(1)] code_bounds(3) [OF assms(2)]
    by (simp add: word_of_sym_def val_append val_bits_of)
  moreover have "val x < 2 ^ length x"
    by (rule val_less)
  ultimately have "?cs * 2 ^ length x \<le> ?ct" and "?ct + 1 \<le> (?cs + 1) * 2 ^ length x"
    by simp_all
  then have "?cs * 2 ^ length x * 2 ^ (30 - ?lt) \<le> ?ct * 2 ^ (30 - ?lt)"
    and "(?ct + 1) * 2 ^ (30 - ?lt) \<le> (?cs + 1) * 2 ^ length x * 2 ^ (30 - ?lt)"
    by (intro mult_right_mono; simp)+
  moreover have "(2::nat) ^ (30 - ?ls) = 2 ^ length x * 2 ^ (30 - ?lt)"
    using code_bounds(2) [OF assms(2)] len by (simp flip: power_add)
  ultimately have "code_lo (code_table ! s) \<le> code_lo (code_table ! t)"
    and "code_hi (code_table ! t) \<le> code_hi (code_table ! s)"
    using assms(1,2) by (simp_all add: code_lo_def code_hi_def code_table_nth algebra_simps)
  then show False
    using codes_disjoint [OF assms(1,2) \<open>s \<noteq> t\<close>] code_lo_less_hi [of "code_table ! s"]
      code_lo_less_hi [of "code_table ! t"] by linarith
qed

lemma leaf_not_leaf:
  assumes "s < 256" and "t < 256" and "sym_leaf s p" and "sym_leaf t p"
  shows "s = t"
proof -
  have "prefix (word_of_sym s) (pbits p)" and "prefix (word_of_sym t) (pbits p)"
    using leaf_bits(1) assms code_len_pos by (auto simp: sym_leaf_def word_of_sym_def)
  then have "prefix (word_of_sym s) (word_of_sym t) \<or> prefix (word_of_sym t) (word_of_sym s)"
    by (rule prefix_same_cases)
  then show ?thesis
    using prefix_free assms(1,2) by blast
qed

lemma leaf_not_inner:
  assumes "s < 256" and "t < 256" and "sym_leaf s p"
  shows "\<not> prefix p (sym_path t)"
proof
  assume "prefix p (sym_path t)"
  then obtain q where "sym_path t = p @ q"
    by (auto simp: prefix_def)
  then have "prefix (pbits p) (word_of_sym t)"
    using code_path_bits [OF code_len_pos [OF assms(2)], of "huffman_codes ! t"]
    by (simp add: sym_path_def word_of_sym_def)
  moreover have "prefix (word_of_sym s) (pbits p)"
    using leaf_bits(1) assms code_len_pos by (auto simp: sym_leaf_def word_of_sym_def)
  ultimately have "s = t"
    using prefix_free assms(1,2) prefix_order.trans by blast
  moreover have "length p = Suc (length (sym_path s))"
    using leaf_bits(2) assms(1,3) code_len_pos by (simp add: sym_leaf_def sym_path_def)
  ultimately show False
    using \<open>prefix p (sym_path t)\<close> prefix_length_le by fastforce
qed

lemma info_add_symbol:
  assumes "s < 256"
  shows "info (hf_add_symbol s t) p =
   (if sym_leaf s p then Some (word_of_nat s, residue (huffman_code_len ! s), size_at t p)
    else if prefix p (sym_path s) then
      (case info0 t p of (y, n, z) \<Rightarrow> Some (y, n, z + (if p = sym_path s then 2 ^ (8 - residue (huffman_code_len ! s)) else 0)))
    else info t p)"
  using info_add_node [OF code_len_pos [OF assms]]
  by (simp add: hf_add_symbol_def sym_leaf_def sym_path_def size_at_def)

lemma size_at_add_symbol:
  assumes "s < 256"
  shows "size_at (hf_add_symbol s t) p = size_at t p + (if p = sym_path s then 2 ^ (8 - residue (huffman_code_len ! s)) else 0)"
  using leaf_not_inner [OF assms assms, of p] info_add_symbol [OF assms, of t p]
  by (auto simp: size_at_def info0_def split: prod.splits if_splits)

lemma size_at_table:
  "\<forall>s\<in>set xs. s < 256 \<Longrightarrow> size_at (fold hf_add_symbol xs node_create) p = 0 \<longleftrightarrow> (\<forall>s\<in>set xs. p \<noteq> sym_path s)"
proof (induction xs rule: rev_induct)
  case Nil
  then show ?case
    by (simp add: size_at_def info0_def info_node_create)
qed (auto simp: size_at_add_symbol)

lemma leaf_in_table:
  assumes "\<forall>s\<in>set xs. s < 256" and "s \<in> set xs" and "sym_leaf s p"
  shows "info (fold hf_add_symbol xs node_create) p = Some (word_of_nat s, residue (huffman_code_len ! s), 0)"
  using assms
proof (induction xs rule: rev_induct)
  case (snoc t ts)
  have size: "size_at (fold hf_add_symbol ts node_create) p = 0"
    using snoc.prems leaf_not_inner [of s _ p] by (subst size_at_table) auto
  show ?case
  proof (cases "sym_leaf t p")
    case True
    then have "s = t"
      using leaf_not_leaf snoc.prems by auto
    then show ?thesis
      using snoc.prems size by (simp add: info_add_symbol)
  next
    case False
    then have "s \<in> set ts"
      using snoc.prems by auto
    then show ?thesis
      using False snoc leaf_not_inner [of s t p] by (simp add: info_add_symbol)
  qed
qed simp

lemma inner_in_table:
  assumes "\<forall>s\<in>set xs. s < 256" and "s \<in> set xs" and "prefix p (sym_path s)"
  shows "info (fold hf_add_symbol xs node_create) p \<noteq> None"
  using assms
proof (induction xs rule: rev_induct)
  case (snoc t ts)
  then show ?case
    by (cases "info0 (fold hf_add_symbol ts node_create) p"; cases "s = t")
      (auto simp: info_add_symbol)
qed simp

lemma descend_leaf:
  assumes "s < 256" and "sym_leaf s p"
  obtains n where "descend hf_init p = Some n" and "sym n = word_of_nat s"
    and "code_len n = residue (huffman_code_len ! s)" and "size_of n = 0"
  using leaf_in_table [of "[0..<256]" s p] assms that
  by (auto simp: hf_init_def info_def split: option.splits)

lemma descend_inner:
  assumes "s < 256" and "p \<noteq> []" and "prefix p (sym_path s)"
  obtains n where "descend hf_init p = Some n" and "size_of n \<noteq> 0"
proof -
  have p: "p = take (length p) (sym_path s)" and "1 \<le> length p" and "length p \<le> length (sym_path s)"
    using assms by (auto simp: prefix_def Suc_le_eq)
  then obtain t where t: "t < 256" "p = sym_path t"
    using inner_path_leaf [OF assms(1), of "length p"] unfolding sym_path_def by metis
  have "size_at hf_init p \<noteq> 0"
    using size_at_table [of "[0..<256]" p] t by (auto simp: hf_init_def)
  moreover obtain x where "info hf_init p = Some x"
    using inner_in_table [of "[0..<256]" s p] assms by (auto simp: hf_init_def)
  ultimately show ?thesis
    using that by (auto simp: size_at_def info0_def info_def split: option.splits)
qed

subsection \<open>Decoding\<close>

text \<open>
  \<open>pending n q ss\<close>: the walk stands at the node of path \<open>q\<close>, inside the code of the first
  symbol of \<open>ss\<close>, the symbols still to come.
\<close>

definition pending :: "hnode \<Rightarrow> nat list \<Rightarrow> bytes \<Rightarrow> bool" where
  "pending n q ss \<longleftrightarrow> descend hf_init q = Some n \<and> (\<forall>i\<in>set q. i < 256) \<and>
     (case ss of [] \<Rightarrow> q = [] | s # _ \<Rightarrow> 8 * length q < HEX_TO_HF_CODE_LEN s)"

lemma pending_root: "pending hf_init [] ss"
  using less_le_trans [OF _ code_len_bounds(1), of 0] by (auto simp: pending_def split: list.splits)

lemma code_bits_word: "code_bits c = word_of_sym (unat c)"
  by (simp add: code_bits_def word_of_sym_def HEX_TO_HF_CODE_LEN_def)

lemma cur_byte:
  assumes "unat (cur :: u32) mod 2 ^ length pb = val pb" and "8 \<le> length pb"
  shows "unat (ucast (drop_bit (length pb - 8) cur) :: byte) = val (take 8 pb)"
proof -
  have b: "bits_of (length pb) (unat cur) = pb"
    using assms(1) bits_of_mod [of "length pb" "unat cur"] bits_of_val by metis
  then have "val (take 8 pb) = val (bits_of 8 (unat cur div 2 ^ (length pb - 8)))"
    using take_bits_of [OF assms(2), of "unat cur"] by simp
  then show ?thesis
    by (simp only: unat_low_byte unat_drop_bit val_bits_of) simp
qed

lemma cur_drop:
  assumes "unat (cur :: u32) mod 2 ^ length pb = val pb" and "k \<le> length pb"
  shows "unat cur mod 2 ^ (length pb - k) = val (drop k pb)"
proof -
  have "bits_of (length pb) (unat cur) = pb"
    using assms(1) bits_of_mod [of "length pb" "unat cur"] bits_of_val by metis
  then have "val (drop k pb) = val (bits_of (length pb - k) (unat cur))"
    using drop_bits_of [OF assms(2), of "unat cur"] by simp
  then show ?thesis
    by (simp add: val_bits_of)
qed

text \<open>One byte \<open>j\<close> further down: either a leaf, or a node inside the code.\<close>

lemma child_leaf:
  assumes "pending n q (s # ss)" and "j < 256" and "HEX_TO_HF_CODE_LEN s \<le> 8 * length q + 8"
    and "prefix (code_bits s) (pbits q @ bits_of 8 j)"
  obtains n' where "kids n j = Some n'" and "sym n' = s" and "code_len n' = HEX_TO_HF_CODE_LEN s - 8 * length q"
    and "size_of n' = 0"
proof -
  have leaf: "sym_leaf (unat s) (q @ [j])" "residue (HEX_TO_HF_CODE_LEN s) = HEX_TO_HF_CODE_LEN s - 8 * length q"
    using leaf_of_bits [of "HEX_TO_HF_CODE_LEN s" q j "huffman_codes ! unat s"] assms code_len_pos [OF unat_byte_less [of s]]
    by (simp_all add: pending_def sym_leaf_def HEX_TO_HF_CODE_LEN_def code_bits_def)
  then obtain n' where n': "descend hf_init (q @ [j]) = Some n'" "sym n' = s" "code_len n' = residue (HEX_TO_HF_CODE_LEN s)" "size_of n' = 0"
    using descend_leaf [OF unat_byte_less [of s] leaf(1)] by (auto simp: HEX_TO_HF_CODE_LEN_def)
  then have "kids n j = Some n'"
    using assms(1) by (auto simp: pending_def descend_append split: bind_splits)
  with n' leaf that show ?thesis
    by simp
qed

lemma child_inner:
  assumes "pending n q (s # ss)" and "j < 256" and "8 * length q + 8 < HEX_TO_HF_CODE_LEN s"
    and "prefix (pbits q @ bits_of 8 j) (code_bits s)"
  obtains n' where "kids n j = Some n'" and "size_of n' \<noteq> 0" and "pending n' (q @ [j]) (s # ss)"
proof -
  have "prefix (q @ [j]) (sym_path (unat s))"
    using inner_of_bits [of "HEX_TO_HF_CODE_LEN s" "q @ [j]" "huffman_codes ! unat s"] assms code_len_pos [OF unat_byte_less [of s]]
    by (simp add: pending_def sym_path_def HEX_TO_HF_CODE_LEN_def code_bits_def)
  then obtain n' where n': "descend hf_init (q @ [j]) = Some n'" "size_of n' \<noteq> 0"
    using descend_inner [OF unat_byte_less] by blast
  then have "kids n j = Some n'"
    using assms(1) by (auto simp: pending_def descend_append split: bind_splits)
  moreover have "pending n' (q @ [j]) (s # ss)"
    using assms n' by (auto simp: pending_def)
  ultimately show ?thesis
    using that n' by blast
qed

lemma prefix_of_append: "prefix xs (ys @ zs) \<Longrightarrow> length xs \<le> length ys \<Longrightarrow> prefix xs ys"
  using prefix_length_prefix [of xs "ys @ zs" ys] by simp

lemma val_take_8: "val (take 8 pb) < 256"
  using val_less [of "take 8 pb"] power_increasing [of "length (take 8 pb)" 8 "2 :: nat"] by simp

lemma bits_val_take: "8 \<le> length pb \<Longrightarrow> bits_of 8 (val (take 8 pb)) = take 8 pb"
  using bits_of_val [of "take 8 pb"] by (simp add: min_absorb2)

lemma take_drop_append: "take k xs @ drop k xs @ ys = xs @ ys"
  by (metis append.assoc append_take_drop_id)

lemma hf_inner_correct:
  assumes "pending n q ss" and "unat cur mod 2 ^ length pb = val pb"
    and "pbits q @ pb @ rest = codes_of ss @ replicate k True" and "k < 8" and "length out + length ss \<le> sz"
  shows "\<exists>n' q' ss1 ss2 pb'. hf_inner hf_init cur sz n (length pb) out = Some (Inr (n', length pb', out @ ss1)) \<and>
    ss = ss1 @ ss2 \<and> pending n' q' ss2 \<and> unat cur mod 2 ^ length pb' = val pb' \<and> length pb' < 8 \<and>
    pbits q' @ pb' @ rest = codes_of ss2 @ replicate k True"
  using assms
proof (induction "length pb + length ss" arbitrary: n q ss pb out rule: less_induct)
  case less
  show ?case
  proof (cases "length pb < 8")
    case True
    then show ?thesis
      using less.prems by (intro exI [of _ n] exI [of _ q] exI [of _ "[]"] exI [of _ ss] exI [of _ pb])
        (simp add: hf_inner.simps)
  next
    case False
    let ?j = "val (take 8 pb)"
    have byte: "unat (ucast (drop_bit (length pb - 8) cur) :: byte) = ?j"
      using cur_byte less.prems(2) False by simp
    have bits: "bits_of 8 ?j = take 8 pb"
      using False by (simp add: bits_val_take)
    obtain s ss' where ss: "ss = s # ss'"
    proof (cases ss)
      case Nil
      then show ?thesis
        using arg_cong [OF less.prems(3), of length] less.prems(4) False by simp
    qed
    have eq: "(pbits q @ take 8 pb) @ drop 8 pb @ rest = code_bits s @ codes_of ss' @ replicate k True"
      using less.prems(3) by (simp add: ss take_drop_append)
    show ?thesis
    proof (cases "HEX_TO_HF_CODE_LEN s \<le> 8 * length q + 8")
      case True
      have "prefix (code_bits s) ((pbits q @ take 8 pb) @ drop 8 pb @ rest)"
        unfolding eq by simp
      then have pre: "prefix (code_bits s) (pbits q @ take 8 pb)"
        by (rule prefix_of_append) (use True False in simp)
      then obtain n' where n': "kids n ?j = Some n'" "sym n' = s"
        "code_len n' = HEX_TO_HF_CODE_LEN s - 8 * length q" "size_of n' = 0"
        using child_leaf [OF less.prems(1) [unfolded ss] val_take_8 True] bits by metis
      let ?r = "HEX_TO_HF_CODE_LEN s - 8 * length q"
      have r: "1 \<le> ?r" "?r \<le> length pb"
        using less.prems(1) True False ss by (auto simp: pending_def)
      have "pbits q @ take ?r pb = code_bits s"
      proof -
        obtain x where "pbits q @ take 8 pb = code_bits s @ x"
          using pre by (auto simp: prefix_def)
        then have "take (HEX_TO_HF_CODE_LEN s) (pbits q @ take 8 pb) = code_bits s"
          by simp
        then show ?thesis
          using True r(1) by (simp add: min_absorb1)
      qed
      then have rest: "drop ?r pb @ rest = codes_of ss' @ replicate k True"
        using less.prems(3) unfolding ss
        by (metis append.assoc append_take_drop_id codes_of_simps(2) same_append_eq)
      have "hf_inner hf_init cur sz n (length pb) out = hf_inner hf_init cur sz hf_init (length (drop ?r pb)) (out @ [s])"
        using False n' byte less.prems(5) ss by (subst hf_inner.simps) simp
      then show ?thesis
        using less.hyps [of "drop ?r pb" ss' hf_init "[]" "out @ [s]"] pending_root cur_drop [OF less.prems(2) r(2)]
          rest less.prems(4,5) r ss by (fastforce intro: exI [of _ "s # _"])
    next
      case long: False
      have "prefix (pbits q @ take 8 pb) (code_bits s @ codes_of ss' @ replicate k True)"
        unfolding eq [symmetric] by simp
      then have pre: "prefix (pbits q @ take 8 pb) (code_bits s)"
        by (rule prefix_of_append) (use long False in simp)
      then obtain n' where n': "kids n ?j = Some n'" "size_of n' \<noteq> 0" "pending n' (q @ [?j]) (s # ss')"
        using child_inner [OF less.prems(1) [unfolded ss] val_take_8] long bits by (metis not_le)
      have "hf_inner hf_init cur sz n (length pb) out = hf_inner hf_init cur sz n' (length (drop 8 pb)) out"
        using False n' byte by (subst hf_inner.simps) simp
      then show ?thesis
        using less.hyps [of "drop 8 pb" ss n' "q @ [?j]" out] n'(3) cur_drop [OF less.prems(2), of 8]
          eq less.prems(4,5) False ss bits by simp
    qed
  qed
qed

subsection \<open>The last byte\<close>

text \<open>A tail of ones leads to a node the decoder stops at: no code of the table is that short.\<close>

lemma table_entry:
  "HEX_TO_HF_CODE_LEN 61 = 6" "HEX_TO_HF_CODE_LEN 69 = 7" "HEX_TO_HF_CODE_LEN 85 = 7"
  "HEX_TO_HF_CODE_LEN 119 = 7" "HEX_TO_HF_CODE_LEN 38 = 8" "HEX_TO_HF_CODE_LEN 88 = 8" "HEX_TO_HF_CODE_LEN 33 = 10"
  "code_bits 61 = bits_of 6 0x20" "code_bits 69 = bits_of 7 0x60" "code_bits 85 = bits_of 7 0x70"
  "code_bits 119 = bits_of 7 0x78" "code_bits 38 = bits_of 8 0xf8" "code_bits 88 = bits_of 8 0xfc"
  "code_bits 33 = bits_of 10 0x3f8"
  by (simp_all add: code_bits_def HEX_TO_HF_CODE_LEN_def huffman_code_len_def huffman_codes_def
      huffman_codes_0_127_def)

lemma ones_child:
  assumes "1 \<le> k" and "k < 8"
  shows "\<exists>n. kids hf_init ((2 ^ k - 1) * 2 ^ (8 - k)) = Some n \<and> (size_of n \<noteq> 0 \<or> k < code_len n)"
proof -
  have leaf: "\<exists>n. kids hf_init j = Some n \<and> (size_of n \<noteq> 0 \<or> k < code_len n)"
    if "j < 256" "HEX_TO_HF_CODE_LEN s \<le> 8" "prefix (code_bits s) (bits_of 8 j)" "k < HEX_TO_HF_CODE_LEN s" for s k j
    using child_leaf [OF pending_root, of j s] that by fastforce
  have 1: "\<exists>n. kids hf_init 128 = Some n \<and> (size_of n \<noteq> 0 \<or> 1 < code_len n)"
    by (rule leaf [of 128 61]) (simp_all add: table_entry bits_of_numeral)
  have 2: "\<exists>n. kids hf_init 192 = Some n \<and> (size_of n \<noteq> 0 \<or> 2 < code_len n)"
    by (rule leaf [of 192 69]) (simp_all add: table_entry bits_of_numeral)
  have 3: "\<exists>n. kids hf_init 224 = Some n \<and> (size_of n \<noteq> 0 \<or> 3 < code_len n)"
    by (rule leaf [of 224 85]) (simp_all add: table_entry bits_of_numeral)
  have 4: "\<exists>n. kids hf_init 240 = Some n \<and> (size_of n \<noteq> 0 \<or> 4 < code_len n)"
    by (rule leaf [of 240 119]) (simp_all add: table_entry bits_of_numeral)
  have 5: "\<exists>n. kids hf_init 248 = Some n \<and> (size_of n \<noteq> 0 \<or> 5 < code_len n)"
    by (rule leaf [of 248 38]) (simp_all add: table_entry bits_of_numeral)
  have 6: "\<exists>n. kids hf_init 252 = Some n \<and> (size_of n \<noteq> 0 \<or> 6 < code_len n)"
    by (rule leaf [of 252 88]) (simp_all add: table_entry bits_of_numeral)
  have 7: "\<exists>n. kids hf_init 254 = Some n \<and> (size_of n \<noteq> 0 \<or> 7 < code_len n)"
    by (rule child_inner [OF pending_root, where j = 254 and s = 33 and ss = "[]"]) (auto simp: table_entry bits_of_numeral)
  have "k \<in> {1, 2, 3, 4, 5, 6, 7}"
    using assms by auto
  then show ?thesis
    using 1 2 3 4 5 6 7 by (elim insertE emptyE) simp_all
qed

lemma cur_tail:
  assumes "unat (cur :: u32) mod 2 ^ length pb = val pb" and "length pb < 8"
  shows "unat (ucast (push_bit (8 - length pb) cur) :: byte) = val pb * 2 ^ (8 - length pb)"
    and "bits_of 8 (val pb * 2 ^ (8 - length pb)) = pb @ replicate (8 - length pb) False"
    and "val pb * 2 ^ (8 - length pb) < 256"
proof -
  have p: "(256 :: nat) = 2 ^ length pb * 2 ^ (8 - length pb)"
    using assms(2) by (simp flip: power_add)
  have "unat (ucast (push_bit (8 - length pb) cur) :: byte) = unat cur * 2 ^ (8 - length pb) mod 256"
    by (simp only: unat_low_byte unat_push_bit) (simp add: mod_mod_cancel)
  also have "\<dots> = (unat cur mod 2 ^ length pb) * 2 ^ (8 - length pb)"
    unfolding p by (simp only: mod_mult_mult2)
  finally show "unat (ucast (push_bit (8 - length pb) cur) :: byte) = val pb * 2 ^ (8 - length pb)"
    by (simp only: assms(1))
  have "8 = length pb + (8 - length pb)"
    using assms(2) by simp
  then show "bits_of 8 (val pb * 2 ^ (8 - length pb)) = pb @ replicate (8 - length pb) False"
    using bits_of_add [of "length pb" "8 - length pb" "val pb" 0] bits_of_val [of pb] by simp
  show "val pb * 2 ^ (8 - length pb) < 256"
    unfolding p using val_less [of pb] by (intro mult_strict_right_mono) simp_all
qed

lemma hf_tail_correct:
  assumes "pending n q ss" and "unat cur mod 2 ^ length pb = val pb" and "length pb < 8"
    and "pbits q @ pb = codes_of ss @ replicate k True" and "k < 8" and "length out + length ss \<le> sz"
  shows "hf_tail hf_init cur sz n (length pb) out = Some (out @ ss)"
  using assms
proof (induction ss arbitrary: n q pb out)
  case Nil
  then have q: "q = []" "n = hf_init" and pb: "pb = replicate k True"
    by (auto simp: pending_def)
  have "val pb = 2 ^ k - 1"
    using bits_of_ones [of k] val_bits_of [of k "2 ^ k - 1"] pb by simp
  then show ?case
    using ones_child [of k] cur_tail(1) [OF Nil.prems(2,3)] Nil.prems(5) q pb
    by (subst hf_tail.simps) (auto simp: Suc_le_eq)
next
  case (Cons s ss)
  let ?r = "HEX_TO_HF_CODE_LEN s - 8 * length q"
  let ?j = "val pb * 2 ^ (8 - length pb)"
  have eq: "pbits q @ pb = code_bits s @ codes_of ss @ replicate k True"
    using Cons.prems(4) by simp
  have r: "1 \<le> ?r" "?r \<le> length pb"
    using Cons.prems(1) arg_cong [OF eq, of length] by (auto simp: pending_def)
  then have short: "HEX_TO_HF_CODE_LEN s \<le> 8 * length q + 8"
    using Cons.prems(3) by simp
  have "prefix (code_bits s) ((pbits q @ pb) @ replicate (8 - length pb) False)"
    unfolding eq by simp
  then have "prefix (code_bits s) (pbits q @ bits_of 8 ?j)"
    using cur_tail(2) [OF Cons.prems(2,3)] by simp
  then obtain n' where n': "kids n ?j = Some n'" "sym n' = s" "code_len n' = ?r" "size_of n' = 0"
    using child_leaf [OF Cons.prems(1) cur_tail(3) [OF Cons.prems(2,3)] short] by metis
  have "drop (HEX_TO_HF_CODE_LEN s) (pbits q @ pb) = codes_of ss @ replicate k True"
    unfolding eq by simp
  then have rest: "drop ?r pb = codes_of ss @ replicate k True"
    using r by simp
  have "hf_tail hf_init cur sz n (length pb) out = hf_tail hf_init cur sz hf_init (length (drop ?r pb)) (out @ [s])"
    using n' cur_tail(1) [OF Cons.prems(2,3)] r Cons.prems(6) by (subst hf_tail.simps) auto
  also have "\<dots> = Some ((out @ [s]) @ ss)"
  proof (rule Cons.IH [OF pending_root])
    show "unat cur mod 2 ^ length (drop ?r pb) = val (drop ?r pb)"
      using cur_drop [OF Cons.prems(2) r(2)] by (simp only: length_drop)
    show "length (drop ?r pb) < 8" and "k < 8" and "length (out @ [s]) + length ss \<le> sz"
      using Cons.prems(3,5,6) by simp_all
    show "pbits [] @ drop ?r pb = codes_of ss @ replicate k True"
      using rest by simp
  qed
  finally show ?case by simp
qed

lemma cur_push:
  assumes "unat (cur :: u32) mod 2 ^ length pb = val pb" and "length pb < 8"
  shows "unat (push_bit 8 cur OR ucast (e :: byte) :: u32) mod 2 ^ (length pb + 8) = val (pb @ byte_bits e)"
proof -
  have b: "unat (ucast e :: u32) = unat e"
    by (simp add: unsigned_ucast_eq take_bit_nat_eq_self unat_byte_less less_trans [OF unat_byte_less])
  have "unat (push_bit 8 cur) mod 2 ^ 8 = 0"
    by (simp only: unat_push_bit) (simp add: mod_mod_cancel)
  then have "unat (push_bit 8 cur OR ucast e :: u32) = unat cur * 2 ^ 8 mod 2 ^ 32 + unat e"
    using unat_or_low [of "push_bit 8 cur" 8 "ucast e"] b unat_byte_less [of e]
    by (simp only: unat_push_bit) simp
  also have "\<dots> mod 2 ^ (length pb + 8) = (unat cur * 2 ^ 8 + unat e) mod 2 ^ (length pb + 8)"
  proof -
    have "(2 :: nat) ^ (length pb + 8) dvd 2 ^ 32"
      using assms(2) by (intro le_imp_power_dvd) simp
    then have c: "unat cur * 2 ^ 8 mod 2 ^ 32 mod 2 ^ (length pb + 8) = unat cur * 2 ^ 8 mod 2 ^ (length pb + 8)"
      by (rule mod_mod_cancel)
    show ?thesis
      using mod_add_left_eq [of "unat cur * 2 ^ 8 mod 2 ^ 32" "2 ^ (length pb + 8)" "unat e"]
        mod_add_left_eq [of "unat cur * 2 ^ 8" "2 ^ (length pb + 8)" "unat e"]
      by (simp only: c)
  qed
  also have "\<dots> = (unat cur mod 2 ^ length pb) * 2 ^ 8 + unat e"
  proof -
    have "(unat cur * 2 ^ 8 + unat e) mod (2 ^ length pb * 2 ^ 8) = 
      2 ^ 8 * ((unat cur * 2 ^ 8 + unat e) div 2 ^ 8 mod 2 ^ length pb) + (unat cur * 2 ^ 8 + unat e) mod 2 ^ 8"
      using mod_mult2_eq [of "unat cur * 2 ^ 8 + unat e" "2 ^ 8" "2 ^ length pb"] by (simp only: mult.commute)
    also have "(unat cur * 2 ^ 8 + unat e) div 2 ^ 8 = unat cur"
      using unat_byte_less [of e] by simp
    also have "(unat cur * 2 ^ 8 + unat e) mod 2 ^ 8 = unat e"
      using unat_byte_less [of e] by simp
    finally show ?thesis
      by (simp add: power_add mult.commute)
  qed
  also have "\<dots> = val (pb @ byte_bits e)"
    by (simp add: assms(1) val_append)
  finally show ?thesis .
qed

lemma hf_bytes_correct:
  assumes "pending n q ss" and "unat cur mod 2 ^ length pb = val pb" and "length pb < 8"
    and "pbits q @ pb @ stream (drop i bs) = codes_of ss @ replicate k True" and "k < 8"
    and "length out + length ss \<le> sz" and "i \<le> length bs"
  shows "hf_bytes hf_init (bs @ more) (length bs) sz i cur n (length pb) out = Some (Inr (out @ ss))"
  using assms
proof (induction "length bs - i" arbitrary: n q ss cur pb out i)
  case 0
  then show ?case
    using hf_tail_correct [of n q ss cur pb k out sz] by (subst hf_bytes.simps) simp
next
  case (Suc m)
  let ?e = "bs ! i"
  let ?cur = "push_bit 8 cur OR ucast ?e :: u32"
  have i: "i < length bs"
    using Suc.hyps(2) by simp
  have "pbits q @ (pb @ byte_bits ?e) @ stream (drop (Suc i) bs) = codes_of ss @ replicate k True"
    using Suc.prems(4) i by (simp add: Cons_nth_drop_Suc [symmetric])
  moreover have "unat ?cur mod 2 ^ length (pb @ byte_bits ?e) = val (pb @ byte_bits ?e)"
    using cur_push [OF Suc.prems(2,3), of ?e] by simp
  ultimately obtain n' q' ss1 ss2 pb' where
    inner: "hf_inner hf_init ?cur sz n (length (pb @ byte_bits ?e)) out = Some (Inr (n', length pb', out @ ss1))"
    and ss: "ss = ss1 @ ss2" and rest: "pending n' q' ss2" "unat ?cur mod 2 ^ length pb' = val pb'" "length pb' < 8"
      "pbits q' @ pb' @ stream (drop (Suc i) bs) = codes_of ss2 @ replicate k True"
    using hf_inner_correct [OF Suc.prems(1) _ _ Suc.prems(5,6)] by blast
  have "hf_bytes hf_init (bs @ more) (length bs) sz i cur n (length pb) out =
      hf_bytes hf_init (bs @ more) (length bs) sz (Suc i) ?cur n' (length pb') (out @ ss1)"
    using i inner by (subst hf_bytes.simps) (simp add: rd_append1 Let_def)
  then show ?case
    using Suc.hyps(1) [OF _ rest Suc.prems(5), of "out @ ss1"] Suc.hyps(2) Suc.prems(6) ss i by simp
qed

lemma hf_string_decode_codes:
  assumes "stream bs = codes_of ss @ replicate k True" and "k < 8" and "length ss \<le> sz"
  shows "hf_string_decode hf_init (bs @ more) (length bs) sz = Some (Inr ss)"
  using hf_bytes_correct [OF pending_root, of 0 "[]" 0 bs ss k "[]" sz more] assms
  by (simp add: hf_string_decode_def)

text \<open>
  hf_string_decode inverts the code. Any byte string whose bits are the codes of the
  characters \<open>ss\<close> (all 256 values) followed by at most seven ones decodes to exactly
  \<open>ss\<close>, reading nothing behind it and writing nothing behind an output buffer of at least
  that many bytes; in particular no code is mistaken for another and the padding is dropped.
\<close>

theorem hf_string_decode_correct:
  assumes "stream bs = codes_of ss @ replicate k True" and "k < 8" and "length ss \<le> sz"
  shows "hf_string_decode hf_init (bs @ more) (length bs) sz = Some (Inr ss)"
  using assms by (rule hf_string_decode_codes)

theorem hf_string_decode_correct_witness:
  "hf_string_decode hf_init ([0x1F] @ [0xAA]) (length [0x1F :: byte]) 9 = Some (Inr [0x61])"
  by (rule hf_string_decode_correct [of _ _ "Suc (Suc (Suc 0))"])
    (simp_all add: code_bits_def HEX_TO_HF_CODE_LEN_def huffman_code_len_def huffman_codes_def
      huffman_codes_0_127_def byte_bits_def bits_of_numeral)

text \<open>
  round trip of the Huffman codec: a string of characters below 128, encoded by
  hf_string_encode into a buffer of MAX_HUFFMAN_BUFF_LEN bytes, is decoded to itself by
  hf_string_decode, whatever follows the encoding in memory.
\<close>

theorem hf_string_round_trip:
  assumes "list_all is_ascii cs" and "length cs \<le> sz"
  shows "\<exists>buf j. hf_string_encode cs 0 (replicate (MAX_HUFFMAN_BUFF_LEN (length cs)) 0) = Some (buf, j) \<and>
           hf_string_decode hf_init (take j buf @ more) j sz = Some (Inr cs)"
proof -
  obtain buf j k where enc: "hf_string_encode cs 0 (replicate (MAX_HUFFMAN_BUFF_LEN (length cs)) 0) = Some (buf, j)"
    and "j \<le> length buf" "k < 8" "stream (take j buf) = codes_of cs @ replicate k True"
    using hf_string_encode_stream [OF assms(1)] by blast
  then show ?thesis
    using hf_string_decode_codes [of "take j buf" cs k sz more] assms(2) by (simp add: min_absorb2)
qed

theorem hf_string_round_trip_witness:
  "\<exists>buf j. hf_string_encode [0x2F, 0x7E] 0 (replicate (MAX_HUFFMAN_BUFF_LEN (length [0x2F, 0x7E :: byte])) 0) = Some (buf, j) \<and>
     hf_string_decode hf_init (take j buf @ [1, 2]) j 17 = Some (Inr [0x2F, 0x7E])"
  by (rule hf_string_round_trip) (simp_all add: is_ascii_def)


subsection \<open>A missing child in the last byte\<close>

lemma outside_table:
  "p \<noteq> [] \<Longrightarrow> \<forall>s\<in>set xs. s < 256 \<and> \<not> sym_leaf s p \<and> \<not> prefix p (sym_path s) \<Longrightarrow>
     info (fold hf_add_symbol xs node_create) p = None"
  by (induction xs rule: rev_induct) (auto simp: info_node_create info_add_symbol)

lemma no_code_of_ones: "s < 256 \<Longrightarrow> huffman_codes ! s \<noteq> 2 ^ huffman_code_len ! s - 1"
proof -
  have "list_all (\<lambda>(c, l). c \<noteq> 2 ^ l - 1) code_table"
    by (simp add: code_table_eq)
  then show "s < 256 \<Longrightarrow> ?thesis"
    by (auto simp: list_all_length code_table_nth)
qed

lemma replicate_prefix_eq: "prefix xs (replicate n x) \<Longrightarrow> xs = replicate (length xs) x"
  by (intro replicate_eqI) (auto dest!: set_mono_prefix split: if_splits)

lemma replicate_num: "replicate (numeral k) x = x # replicate (pred_numeral k) x"
  by (simp add: numeral_eq_Suc)

lemma no_child_after_30_ones: "descend hf_init [255, 255, 255, 252] = None"
proof -
  have "\<not> sym_leaf s [255, 255, 255, 252]" and "\<not> prefix [255, 255, 255, 252] (sym_path s)" if s: "s < 256" for s
  proof -
    have len: "8 * length (sym_path s) + residue (huffman_code_len ! s) = huffman_code_len ! s"
      using code_path_length [OF code_len_pos [OF s]] by (simp add: sym_path_def)
    show "\<not> prefix [255, 255, 255, 252] (sym_path s)"
      using len code_bounds(2) [OF s] by (auto dest: prefix_length_le)
    show "\<not> sym_leaf s [255, 255, 255, 252]"
    proof
      assume leaf: "sym_leaf s [255, 255, 255, 252]"
      have "prefix (word_of_sym s) (pbits [255, 255, 255, 252])"
        unfolding word_of_sym_def by (rule leaf_bits(1) [OF code_len_pos [OF s] leaf [unfolded sym_leaf_def]])
      also have "pbits [255, 255, 255, 252] = replicate 30 True @ [False, False]"
        by (simp add: bits_of_numeral replicate_num)
      finally have "prefix (word_of_sym s) (replicate 30 True)"
        by (rule prefix_of_append) (use code_bounds(2) [OF s] in \<open>simp add: word_of_sym_def\<close>)
      then have "word_of_sym s = replicate (huffman_code_len ! s) True"
        using replicate_prefix_eq by (metis length_bits_of word_of_sym_def)
      then have "val (word_of_sym s) = val (bits_of (huffman_code_len ! s) (2 ^ (huffman_code_len ! s) - 1))"
        by (simp only: bits_of_ones)
      then have "huffman_codes ! s = 2 ^ (huffman_code_len ! s) - 1"
        using code_bounds(3) [OF s] by (simp add: word_of_sym_def val_bits_of)
      then show False
        using no_code_of_ones [OF s] by simp
    qed
  qed
  then have "info hf_init [255, 255, 255, 252] = None"
    unfolding hf_init_def by (intro outside_table) auto
  then show ?thesis
    by (auto simp: info_def split: option.splits)
qed

text \<open>
  a Huffman string on the wire can make the decoder dereference a null pointer: the five
  bytes FE 3F FF FF FF, the code of an exclamation mark and thirty ones, reach a missing child
  in the loop after the last byte, which, unlike the loop before it, does not test for one.
\<close>

theorem hf_string_decode_null:
  assumes "0 < sz"
  shows "hf_string_decode hf_init ([0xFE, 0x3F, 0xFF, 0xFF, 0xFF] @ more) 5 sz = None"
proof -
  have p0: "pending hf_init [] [33]" "pending hf_init [] [10]"
    by (simp_all add: pending_root)
  have bits: "code_bits 10 = bits_of 30 0x3ffffffc" "HEX_TO_HF_CODE_LEN 10 = 30"
    by (simp_all add: code_bits_def HEX_TO_HF_CODE_LEN_def huffman_code_len_def huffman_codes_def
      huffman_codes_0_127_def)
  obtain n1 where n1: "kids hf_init 254 = Some n1" "size_of n1 \<noteq> 0" "pending n1 [254] [33]"
    using child_inner [OF p0(1), of 254] by (auto simp: table_entry bits_of_numeral)
  obtain n2 where n2: "kids n1 63 = Some n2" "sym n2 = 33" "code_len n2 = 2" "size_of n2 = 0"
    using child_leaf [OF n1(3), of 63] by (auto simp: table_entry bits_of_numeral)
  obtain n3 where n3: "kids hf_init 255 = Some n3" "size_of n3 \<noteq> 0" "pending n3 [255] [10]"
    using child_inner [OF p0(2), of 255] by (auto simp: bits bits_of_numeral)
  obtain n4 where n4: "kids n3 255 = Some n4" "size_of n4 \<noteq> 0" "pending n4 [255, 255] [10]"
    using child_inner [OF n3(3), of 255] by (auto simp: bits bits_of_numeral)
  obtain n5 where n5: "kids n4 255 = Some n5" "size_of n5 \<noteq> 0" "pending n5 [255, 255, 255] [10]"
    using child_inner [OF n4(3), of 255] by (auto simp: bits bits_of_numeral)
  have "kids n5 252 = None"
    using no_child_after_30_ones n3(1) n4(1) n5(1) by (auto split: bind_splits)
  then show ?thesis
    using assms n1 n2 n3 n4 n5
    by (simp add: hf_string_decode_def hf_bytes.simps hf_inner.simps hf_tail.simps rd_def)
qed

theorem hf_string_decode_null_witness:
  "hf_string_decode hf_init ([0xFE, 0x3F, 0xFF, 0xFF, 0xFF] @ []) 5 41 = None"
  by (rule hf_string_decode_null) simp

end
