(* ===== verification/Strutil.thy ===== *)
theory Strutil
  imports Prelude
begin

section \<open>String utilities (src/src/util/general.h)\<close>

text \<open>
  The C string and \<open>std::string\<close> helpers the protocol code calls: case-insensitive
  comparison, searching, cutting out a part between two markers, trimming, splitting and
  joining. A \<open>const char*\<close> argument is a string without NUL; a \<open>std::string\<close>
  may contain one, and \<open>cstr\<close> is what its \<open>c_str()\<close> shows. \<open>npos\<close> is
  the value \<open>None\<close>.
\<close>

subsection \<open>Case\<close>

text \<open>The macro \<open>LOCH\<close>, which is \<open>tolower\<close> of the C locale.\<close>

definition LOCH :: "char \<Rightarrow> char" where
  "LOCH c = (if CHR ''A'' \<le> c \<and> c \<le> CHR ''Z'' then char_of (of_char c + (32 :: nat)) else c)"

definition UPCH :: "char \<Rightarrow> char" where
  "UPCH c = (if CHR ''a'' \<le> c \<and> c \<le> CHR ''z'' then char_of (of_char c - (32 :: nat)) else c)"

definition strcaseeq :: "string \<Rightarrow> string \<Rightarrow> bool" where
  "strcaseeq s t \<longleftrightarrow> map LOCH (cstr s) = map LOCH (cstr t)"

definition strncaseeq :: "string \<Rightarrow> string \<Rightarrow> nat \<Rightarrow> bool" where
  "strncaseeq s t n \<longleftrightarrow> map LOCH (take n (cstr s)) = map LOCH (take n (cstr t))"

definition strtolower :: "string \<Rightarrow> string" where
  "strtolower s = map LOCH s"

definition strtoupper :: "string \<Rightarrow> string" where
  "strtoupper s = map UPCH s"

text \<open>\<open>lowercase\<close> pushes the terminating NUL into the \<open>std::string\<close> as a character.\<close>

definition lowercase :: "string \<Rightarrow> string" where
  "lowercase src = map LOCH (cstr src) @ [NUL]"

lemma strcaseeq_refl [simp]: "strcaseeq s s"
  by (simp add: strcaseeq_def)

lemma strcaseeq_sym: "strcaseeq s t \<Longrightarrow> strcaseeq t s"
  by (simp add: strcaseeq_def)

lemma strcaseeq_trans: "strcaseeq s t \<Longrightarrow> strcaseeq t u \<Longrightarrow> strcaseeq s u"
  by (simp add: strcaseeq_def)

lemma of_char_less_256: "(of_char c :: nat) < 256"
  by (cases c) simp

lemma LOCH_upper: "CHR ''A'' \<le> c \<Longrightarrow> c \<le> CHR ''Z'' \<Longrightarrow> of_char (LOCH c) = (of_char c + 32 :: nat)"
  by (simp add: LOCH_def less_eq_char_def of_char_of)

lemma LOCH_idem [simp]: "LOCH (LOCH c) = LOCH c"
proof (cases "CHR ''A'' \<le> c \<and> c \<le> CHR ''Z''")
  case True
  then have "of_char (LOCH c) = (of_char c + 32 :: nat)" and "65 \<le> (of_char c :: nat)"
    using LOCH_upper by (simp_all add: less_eq_char_def)
  then have "\<not> LOCH c \<le> CHR ''Z''"
    by (simp add: less_eq_char_def)
  then show ?thesis
    by (simp add: LOCH_def [of "LOCH c"])
qed (auto simp: LOCH_def)

lemma LOCH_NUL_iff [simp]: "LOCH c = NUL \<longleftrightarrow> c = NUL"
proof (cases "CHR ''A'' \<le> c \<and> c \<le> CHR ''Z''")
  case True
  then have "of_char (LOCH c) \<noteq> (of_char NUL :: nat)" and "of_char c \<noteq> (of_char NUL :: nat)"
    using LOCH_upper by (auto simp: less_eq_char_def)
  then show ?thesis
    by auto
qed (auto simp: LOCH_def)

lemma no_nul_map_LOCH [simp]: "no_nul (map LOCH s) \<longleftrightarrow> no_nul s"
  by (induction s) auto

text \<open>What the callers rely on: the name a header is looked up by is its lower-case form.\<close>

lemma cstr_lowercase [simp]: "cstr (lowercase s) = map LOCH (cstr s)"
  by (simp add: lowercase_def)

lemma strcaseeq_lowercase [simp]: "strcaseeq t (lowercase s) \<longleftrightarrow> strcaseeq t s"
  by (simp add: strcaseeq_def comp_def)

lemma length_lowercase: "no_nul s \<Longrightarrow> length (lowercase s) = length s + 1"
  by (simp add: lowercase_def)

subsection \<open>Searching\<close>

fun find_sub :: "string \<Rightarrow> string \<Rightarrow> nat option" where
  "find_sub pat [] = (if pat = [] then Some 0 else None)"
| "find_sub pat (c # s) =
     (if take (length pat) (c # s) = pat then Some 0 else map_option Suc (find_sub pat s))"

definition find_from :: "string \<Rightarrow> string \<Rightarrow> nat \<Rightarrow> nat option" where
  "find_from pat s i = (if i \<le> length s then map_option ((+) i) (find_sub pat (drop i s)) else None)"

fun find_if :: "(char \<Rightarrow> bool) \<Rightarrow> string \<Rightarrow> nat option" where
  "find_if P [] = None"
| "find_if P (c # s) = (if P c then Some 0 else map_option Suc (find_if P s))"

definition find_if_from :: "(char \<Rightarrow> bool) \<Rightarrow> string \<Rightarrow> nat \<Rightarrow> nat option" where
  "find_if_from P s i = (if i < length s then map_option ((+) i) (find_if P (drop i s)) else None)"

fun find_last_if :: "(char \<Rightarrow> bool) \<Rightarrow> string \<Rightarrow> nat option" where
  "find_last_if P [] = None"
| "find_last_if P (c # s) =
     (case find_last_if P s of Some i \<Rightarrow> Some (Suc i) | None \<Rightarrow> if P c then Some 0 else None)"

lemma find_sub_Some:
  "find_sub pat s = Some i \<Longrightarrow> i + length pat \<le> length s \<and> take (length pat) (drop i s) = pat"
proof (induction pat s arbitrary: i rule: find_sub.induct)
  case (2 pat c s)
  then show ?case
    by (cases i) (auto split: if_splits, metis length_Cons length_take min.bounded_iff order_refl)
qed (auto split: if_splits)

lemma find_sub_first:
  "find_sub pat s = Some i \<Longrightarrow> j < i \<Longrightarrow> take (length pat) (drop j s) \<noteq> pat"
proof (induction pat s arbitrary: i j rule: find_sub.induct)
  case (2 pat c s)
  then show ?case
    by (cases j) (auto split: if_splits)
qed (auto split: if_splits)

lemma find_sub_None: "find_sub pat s = None \<Longrightarrow> take (length pat) (drop j s) = pat \<Longrightarrow> False"
proof (induction pat s arbitrary: j rule: find_sub.induct)
  case (2 pat c s)
  then show ?case
    by (cases j) (auto split: if_splits)
qed (auto split: if_splits)

lemma find_sub_char: "c \<notin> set s \<Longrightarrow> find_sub [c] (s @ c # t) = Some (length s)"
  by (induction s) auto

lemma find_sub_char_None: "c \<notin> set s \<Longrightarrow> find_sub [c] s = None"
  by (induction s) auto

lemma find_last_if_None: "find_last_if P s = None \<longleftrightarrow> (\<forall>c\<in>set s. \<not> P c)"
  by (induction s) (auto split: option.splits)

lemma find_last_if_Some:
  "find_last_if P s = Some i \<Longrightarrow> i < length s \<and> P (s ! i) \<and> (\<forall>c\<in>set (drop (Suc i) s). \<not> P c)"
  by (induction s arbitrary: i) (auto split: option.splits if_splits simp: find_last_if_None)

subsection \<open>Trimming\<close>

definition is_ws :: "char \<Rightarrow> bool" where
  "is_ws c \<longleftrightarrow> c = CHR '' '' \<or> c = CHR 0x0D \<or> c = CHR 0x0A \<or> c = CHR 0x09"

definition strtrim :: "string \<Rightarrow> string" where
  "strtrim src =
     (if src = [] \<or> hd src = NUL then src
      else let p1 = find_if (\<lambda>c. \<not> is_ws c) src in
        if is_ws (hd src) \<and> p1 = None then []
        else let src = (case p1 of Some p \<Rightarrow> drop p src | None \<Rightarrow> src) in
          (case find_last_if (\<lambda>c. \<not> is_ws c) src of Some p \<Rightarrow> take (Suc p) src | None \<Rightarrow> src))"

text \<open>The overload with the characters to strip, \<open>aim\<close>.\<close>

definition strtrim_aim :: "string \<Rightarrow> string \<Rightarrow> string" where
  "strtrim_aim aim src =
     (let ops1 = find_if (\<lambda>c. c \<notin> set aim) src;
          src = (case ops1 of Some p \<Rightarrow> (if p \<noteq> 0 then drop p src else src) | None \<Rightarrow> [])
      in case find_last_if (\<lambda>c. c \<notin> set aim) src of
           Some p \<Rightarrow> (if p \<noteq> length src - 1 then take (p + 1) src else src)
         | None \<Rightarrow> src)"

text \<open>The specification: drop the longest prefix and suffix of characters that satisfy \<open>P\<close>.\<close>

definition strip :: "(char \<Rightarrow> bool) \<Rightarrow> string \<Rightarrow> string" where
  "strip P s = rev (dropWhile P (rev (dropWhile P s)))"

lemma find_if_dropWhile:
  "(case find_if (\<lambda>c. \<not> P c) s of Some p \<Rightarrow> drop p s | None \<Rightarrow> []) = dropWhile P s"
  by (induction s) (auto split: option.splits)

lemma find_if_None: "find_if P s = None \<longleftrightarrow> (\<forall>c\<in>set s. \<not> P c)"
  by (induction s) auto

lemma take_last_if:
  "(case find_last_if (\<lambda>c. \<not> P c) s of Some p \<Rightarrow> take (Suc p) s | None \<Rightarrow> []) = rev (dropWhile P (rev s))"
proof (induction s rule: rev_induct)
  case (snoc c s)
  have "find_last_if Q (s @ [c]) = (if Q c then Some (length s) else find_last_if Q s)" for Q
    by (induction s) (auto split: option.splits)
  with snoc show ?case
    using find_last_if_Some [of "\<lambda>c. \<not> P c" s]
    by (auto split: option.splits)
qed simp

lemma dropWhile_last: "dropWhile P s \<noteq> [] \<Longrightarrow> \<exists>c\<in>set (dropWhile P s). \<not> P c"
  by (metis hd_dropWhile hd_in_set)

lemma erase_after_last:
  "(case find_last_if (\<lambda>c. \<not> P c) (dropWhile P s) of Some p \<Rightarrow> take (Suc p) (dropWhile P s) | None \<Rightarrow> dropWhile P s)
     = strip P s"
proof (cases "dropWhile P s = []")
  case False
  then have "find_last_if (\<lambda>c. \<not> P c) (dropWhile P s) \<noteq> None"
    using dropWhile_last [of P s] by (auto simp: find_last_if_None)
  then show ?thesis
    using take_last_if [where P = P and s = "dropWhile P s"] by (auto simp: strip_def)
next
  case True
  then show ?thesis
    unfolding strip_def True by simp
qed

lemma strtrim_strip: "strtrim s = (if s \<noteq> [] \<and> hd s = NUL then s else strip is_ws s)"
proof (cases "s = [] \<or> hd s = NUL")
  case False
  then have ne: "s \<noteq> []" "hd s \<noteq> NUL" by auto
  show ?thesis
  proof (cases "find_if (\<lambda>c. \<not> is_ws c) s")
    case None
    then have "\<forall>c\<in>set s. is_ws c"
      by (auto simp: find_if_None)
    then have "dropWhile is_ws s = []"
      by simp
    then show ?thesis
      using None ne \<open>\<forall>c\<in>set s. is_ws c\<close> by (simp only: strtrim_def strip_def Let_def) simp
  next
    case (Some p)
    then have "drop p s = dropWhile is_ws s"
      using find_if_dropWhile [where P = is_ws and s = s] by simp
    then show ?thesis
      using Some ne erase_after_last [of is_ws s] by (simp add: strtrim_def Let_def)
  qed
qed (auto simp: strtrim_def strip_def)

lemma strip_Nil: "strip P [] = []"
  by (simp add: strip_def)

lemma strip_idem [simp]: "strip P (strip P s) = strip P s"
proof (cases "dropWhile P (rev (dropWhile P s)) = []")
  case False
  let ?t = "dropWhile P s"
  have "dropWhile P (strip P s) = strip P s"
  proof -
    have ne: "strip P s \<noteq> []"
      using False by (simp add: strip_def)
    obtain u where u: "?t = strip P s @ u"
      by (metis rev_append rev_rev_ident strip_def takeWhile_dropWhile_id)
    have "?t \<noteq> []"
      using False by (cases "?t = []") simp_all
    then have "\<not> P (hd ?t)"
      by (rule hd_dropWhile)
    then show ?thesis
      using ne u by (metis dropWhile_eq_self_iff hd_append2)
  qed
  moreover have "dropWhile P (rev (strip P s)) = rev (strip P s)"
    by (simp add: strip_def dropWhile_idem)
  ultimately show ?thesis
    by (simp add: strip_def [of P "strip P s"])
next
  case True
  then have "strip P s = []"
    unfolding strip_def by (simp only: rev.simps)
  then show ?thesis
    by (simp only: strip_Nil)
qed

lemma strip_id: "s = [] \<or> (\<not> P (hd s) \<and> \<not> P (last s)) \<Longrightarrow> strip P s = s"
  by (cases "s = []") (simp_all add: strip_def dropWhile_eq_self_iff [THEN iffD2] hd_rev)

lemma no_nul_strip [simp]: "no_nul s \<Longrightarrow> no_nul (strip P s)"
  by (auto simp: no_nul_def strip_def dest!: set_dropWhileD)

lemma strtrim_no_nul: "no_nul s \<Longrightarrow> strtrim s = strip is_ws s"
  by (cases s) (auto simp: strtrim_strip)

text \<open>
  strtrim removes exactly the leading and trailing blanks, tabs and line ends of a C string:
  what it returns starts and ends with another character or is empty, what it removed is white
  space, and trimming twice changes nothing.
\<close>

theorem strtrim_correct:
  assumes "no_nul s"
  shows "strtrim s = strip is_ws s \<and> strtrim (strtrim s) = strtrim s \<and>
    (\<exists>a b. s = a @ strtrim s @ b \<and> list_all is_ws a \<and> list_all is_ws b) \<and>
    (strtrim s \<noteq> [] \<longrightarrow> \<not> is_ws (hd (strtrim s)) \<and> \<not> is_ws (last (strtrim s)))"
proof -
  have t: "strtrim s = strip is_ws s"
    using assms by (rule strtrim_no_nul)
  have tt: "strtrim (strtrim s) = strtrim s"
    using assms by (simp add: t strtrim_no_nul)
  let ?d = "dropWhile is_ws s"
  have "s = takeWhile is_ws s @ ?d" and "?d = strip is_ws s @ rev (takeWhile is_ws (rev ?d))"
    by (simp, metis rev_append rev_rev_ident strip_def takeWhile_dropWhile_id)
  then have ab: "\<exists>a b. s = a @ strtrim s @ b \<and> list_all is_ws a \<and> list_all is_ws b"
    unfolding t by (intro exI [of _ "takeWhile is_ws s"] exI [of _ "rev (takeWhile is_ws (rev ?d))"])
      (auto simp: list_all_iff dest: set_takeWhileD)
  have "\<not> is_ws (hd (strip is_ws s)) \<and> \<not> is_ws (last (strip is_ws s))" if "strip is_ws s \<noteq> []"
  proof -
    have d: "dropWhile is_ws (rev ?d) \<noteq> []"
      using that by (simp add: strip_def)
    then have "\<not> is_ws (last (strip is_ws s))"
      using hd_dropWhile [OF d] by (simp add: strip_def last_rev)
    moreover have "hd (strip is_ws s) = hd ?d"
      using \<open>?d = _\<close> that by (metis hd_append2)
    moreover have "?d \<noteq> []"
      using d by (cases "?d = []") simp_all
    ultimately show ?thesis
      using hd_dropWhile [of is_ws s] by simp
  qed
  with t tt ab show ?thesis
    by simp
qed

theorem strtrim_correct_witness:
  "strtrim '' a b '' = strip is_ws '' a b '' \<and> strtrim (strtrim '' a b '') = strtrim '' a b '' \<and>
    (\<exists>a b. '' a b '' = a @ strtrim '' a b '' @ b \<and> list_all is_ws a \<and> list_all is_ws b) \<and>
    strtrim '' a b '' = ''a b'' \<and> \<not> is_ws (hd (strtrim '' a b '')) \<and> \<not> is_ws (last (strtrim '' a b ''))"
proof -
  have n: "no_nul '' a b ''"
    by simp
  have t: "strtrim '' a b '' = ''a b''"
    unfolding strtrim_no_nul [OF n] by (simp add: strip_def is_ws_def)
  then have "strtrim '' a b '' \<noteq> []"
    by simp
  with strtrim_correct [OF n] t show ?thesis
    by blast
qed

subsection \<open>Cutting\<close>

text \<open>
  \<open>strcut\<close>: the text between two markers, each of which may be absent (a null pointer). When
  the first marker is not in the text the result is empty.
\<close>

definition strcut :: "string \<Rightarrow> string option \<Rightarrow> string option \<Rightarrow> string" where
  "strcut txt begstring endstring =
     (let ops1 = (case begstring of None \<Rightarrow> Some 0 | Some b \<Rightarrow> find_sub b txt);
          blen = (case begstring of None \<Rightarrow> 0 | Some b \<Rightarrow> length b)
      in case ops1 of None \<Rightarrow> []
       | Some p \<Rightarrow>
           (case endstring of None \<Rightarrow> drop (p + blen) txt
            | Some e \<Rightarrow>
                (case find_from e txt (p + blen) of None \<Rightarrow> drop (p + blen) txt
                 | Some q \<Rightarrow> take (q - (p + blen)) (drop (p + blen) txt))))"

text \<open>\<open>fnfy_strcut\<close>: after the marker, skip \<open>notbegset\<close> and stop at the first of \<open>endset\<close>.\<close>

definition fnfy_strcut :: "string \<Rightarrow> string option \<Rightarrow> string \<Rightarrow> string \<Rightarrow> string" where
  "fnfy_strcut txt begstring notbegset endset =
     (let ops0 = (case begstring of None \<Rightarrow> Some 0 | Some b \<Rightarrow> find_sub b txt);
          blen = (case begstring of None \<Rightarrow> 0 | Some b \<Rightarrow> length b)
      in case ops0 of None \<Rightarrow> []
       | Some p \<Rightarrow>
           (case find_if_from (\<lambda>c. c \<notin> set notbegset) txt (p + blen) of None \<Rightarrow> []
            | Some q \<Rightarrow>
                (case find_if_from (\<lambda>c. c \<in> set endset) txt q of None \<Rightarrow> drop q txt
                 | Some r \<Rightarrow> take (r - q) (drop q txt))))"

text \<open>
  \<open>fnln_strcut\<close> ends after the last character not in \<open>notendset\<close>. The length is an
  unsigned difference: an end before the start is a huge number, and \<open>substr\<close> then takes
  the rest.
\<close>

definition fnln_strcut :: "string \<Rightarrow> string option \<Rightarrow> string \<Rightarrow> string \<Rightarrow> string" where
  "fnln_strcut txt begstring notbegset notendset =
     (let ops0 = (case begstring of None \<Rightarrow> Some 0 | Some b \<Rightarrow> find_sub b txt);
          blen = (case begstring of None \<Rightarrow> 0 | Some b \<Rightarrow> length b)
      in case ops0 of None \<Rightarrow> []
       | Some p \<Rightarrow>
           let subfirst = (case find_if_from (\<lambda>c. c \<notin> set notbegset) txt (p + blen) of None \<Rightarrow> length txt | Some q \<Rightarrow> q)
           in case find_last_if (\<lambda>c. c \<notin> set notendset) txt of None \<Rightarrow> drop subfirst txt
              | Some r \<Rightarrow> if r + 1 < subfirst then drop subfirst txt else take (r + 1 - subfirst) (drop subfirst txt))"

text \<open>
  \<open>memsplit2str\<close> on a block of bytes: the text before the separator (kept as it was when the
  separator stands first) and the bytes behind it; \<open>None\<close> is the null pointer.
\<close>

fun find_bytes :: "bytes \<Rightarrow> bytes \<Rightarrow> nat option" where
  "find_bytes pat [] = (if pat = [] then Some 0 else None)"
| "find_bytes pat (c # s) =
     (if take (length pat) (c # s) = pat then Some 0 else map_option Suc (find_bytes pat s))"

definition memsplit2str :: "bytes \<Rightarrow> bytes \<Rightarrow> string \<Rightarrow> string \<times> bytes option" where
  "memsplit2str buf sepstr strleft =
     (case find_bytes sepstr buf of None \<Rightarrow> (strleft, None)
      | Some x \<Rightarrow> (if x > 0 then cstr (of_bytes (take x buf)) else strleft, Some (drop (x + length sepstr) buf)))"

text \<open>What a header line is cut into.\<close>

lemma strcut_name: "c \<notin> set name \<Longrightarrow> strcut (name @ c # rest) None (Some [c]) = name"
  by (simp add: strcut_def find_from_def find_sub_char)

lemma strcut_value: "c \<notin> set name \<Longrightarrow> strcut (name @ c # rest) (Some [c]) None = rest"
  by (simp add: strcut_def find_sub_char)

lemma strcut_no_marker: "c \<notin> set txt \<Longrightarrow> strcut txt (Some [c]) e = [] \<and> strcut txt None (Some [c]) = txt"
  by (simp add: strcut_def find_from_def find_sub_char_None)

subsection \<open>Replacing\<close>

text \<open>
  \<open>GlobalReplace\<close> starts over after each replacement. It may run forever, when the new text
  contains the old one; a call that returns is \<open>Some\<close>.
\<close>

partial_function (option) GlobalReplace :: "string \<Rightarrow> string \<Rightarrow> string \<Rightarrow> string option" where
  "GlobalReplace dst rpl src =
     (case find_sub dst src of None \<Rightarrow> Some src
      | Some pos \<Rightarrow> GlobalReplace dst rpl (take pos src @ rpl @ drop (pos + length dst) src))"

lemma GlobalReplace_ends:
  "length rpl < length dst \<Longrightarrow> \<exists>res. GlobalReplace dst rpl src = Some res \<and> find_sub dst res = None"
proof (induction src rule: length_induct)
  case (1 src)
  show ?case
  proof (cases "find_sub dst src")
    case None
    then show ?thesis
      by (subst GlobalReplace.simps) simp
  next
    case (Some pos)
    let ?src = "take pos src @ rpl @ drop (pos + length dst) src"
    have "length ?src < length src"
      using find_sub_Some [OF Some] "1.prems" by auto
    then show ?thesis
      using "1.IH" "1.prems" Some by (subst GlobalReplace.simps) auto
  qed
qed

text \<open>
  GlobalReplace of a text by a shorter one (the callers collapse a double slash into a
  single one) always ends, and its result does not contain the text any more.
\<close>

theorem GlobalReplace_terminates:
  assumes "length rpl < length dst"
  shows "\<exists>res. GlobalReplace dst rpl src = Some res \<and> (\<forall>j. take (length dst) (drop j res) \<noteq> dst)"
proof -
  obtain res where "GlobalReplace dst rpl src = Some res" and "find_sub dst res = None"
    using GlobalReplace_ends [OF assms] by blast
  then show ?thesis
    using find_sub_None by blast
qed

theorem GlobalReplace_terminates_witness:
  "\<exists>res. GlobalReplace ''//'' ''/'' ''a///b'' = Some res \<and> (\<forall>j. take (length ''//'') (drop j res) \<noteq> ''//'')"
  by (rule GlobalReplace_terminates) simp

subsection \<open>Splitting\<close>

text \<open>
  \<open>vSplitString\<close> splits at any of the separator's characters, at most \<open>count\<close> times; the
  last part is taken as a C string. An empty input leaves the vector as it was.
\<close>

definition last_part :: "bool \<Rightarrow> string \<Rightarrow> string list" where
  "last_part emptyignore t = (if cstr t = [] \<and> emptyignore then [] else [cstr t])"

fun split_loop :: "string \<Rightarrow> bool \<Rightarrow> nat \<Rightarrow> string \<Rightarrow> string \<Rightarrow> string list" where
  "split_loop seps emptyignore count tok [] = last_part emptyignore tok"
| "split_loop seps emptyignore count tok (c # cs) =
     (if c \<in> set seps then
        if count = 0 then last_part emptyignore (tok @ c # cs)
        else (if tok = [] \<and> emptyignore then [] else [tok]) @ split_loop seps emptyignore (count - 1) [] cs
      else split_loop seps emptyignore count (tok @ [c]) cs)"

definition vSplitString :: "string \<Rightarrow> string list \<Rightarrow> string \<Rightarrow> bool \<Rightarrow> nat \<Rightarrow> string list" where
  "vSplitString strSrc vecDest szSeparator emptyignore count =
     (if strSrc = [] then vecDest else split_loop szSeparator emptyignore count [] strSrc)"

definition default_count :: nat where
  "default_count = 0x7FFFFFFF"

text \<open>\<open>vSplitStringEx\<close> splits at the whole separator.\<close>

fun split_ex_loop :: "string \<Rightarrow> bool \<Rightarrow> nat \<Rightarrow> string \<Rightarrow> string list" where
  "split_ex_loop sep emptyignore count s =
     (case find_sub sep s of None \<Rightarrow> last_part emptyignore s
      | Some pos \<Rightarrow>
          if count = 0 then last_part emptyignore s
          else (if take pos s = [] \<and> emptyignore then [] else [take pos s]) @
            split_ex_loop sep emptyignore (count - 1) (drop (pos + length sep) s))"

declare split_ex_loop.simps [simp del]

definition vSplitStringEx :: "string \<Rightarrow> string list \<Rightarrow> string \<Rightarrow> bool \<Rightarrow> nat \<Rightarrow> string list" where
  "vSplitStringEx strSrc vecDest szSeparator emptyignore count =
     (if strSrc = [] then vecDest else split_ex_loop szSeparator emptyignore count strSrc)"

definition get_extend_name :: "string \<Rightarrow> string" where
  "get_extend_name filename =
     (let vTmp = vSplitString filename [] ''.'' False default_count
      in if length vTmp > 1 then vTmp ! (length vTmp - 1) else [])"

fun join :: "string \<Rightarrow> string list \<Rightarrow> string" where
  "join sep [] = []"
| "join sep [s] = s"
| "join sep (s # t # ss) = s @ sep @ join sep (t # ss)"

lemma join_Cons: "ss \<noteq> [] \<Longrightarrow> join sep (s # ss) = s @ sep @ join sep ss"
  by (cases ss) auto

lemma split_loop_ne: "split_loop seps False n tok s \<noteq> []"
  by (induction seps False n tok s rule: split_loop.induct) (auto simp: last_part_def)

lemma join_split_loop:
  "no_nul tok \<Longrightarrow> no_nul s \<Longrightarrow> join [c] (split_loop [c] False n tok s) = tok @ s"
  by (induction "[c]" False n tok s rule: split_loop.induct)
    (auto simp: last_part_def join_Cons split_loop_ne)

lemma split_loop_parts:
  "no_nul tok \<Longrightarrow> no_nul s \<Longrightarrow> c \<notin> set tok \<Longrightarrow> length s \<le> n \<Longrightarrow>
     \<forall>p\<in>set (split_loop [c] False n tok s). c \<notin> set p"
  by (induction "[c]" False n tok s rule: split_loop.induct) (auto simp: last_part_def)

lemma split_ex_loop_ne: "split_ex_loop sep False n s \<noteq> []"
  by (subst split_ex_loop.simps) (auto simp: last_part_def split: option.splits)

lemma join_split_ex_loop:
  "no_nul s \<Longrightarrow> join sep (split_ex_loop sep False n s) = s"
proof (induction sep False n s rule: split_ex_loop.induct)
  case (1 sep count s)
  show ?case
  proof (cases "find_sub sep s")
    case None
    then show ?thesis
      using "1.prems" by (subst split_ex_loop.simps) (simp add: last_part_def)
  next
    case (Some pos)
    show ?thesis
    proof (cases "count = 0")
      case True
      then show ?thesis
        using "1.prems" Some by (subst split_ex_loop.simps) (simp add: last_part_def)
    next
      case False
      have "no_nul (drop (pos + length sep) s)"
        using "1.prems" by (auto simp: no_nul_def dest: in_set_dropD)
      then have "join sep (split_ex_loop sep False (count - 1) (drop (pos + length sep) s)) = drop (pos + length sep) s"
        using "1.hyps" Some False by simp
      moreover have "take pos s @ sep @ drop (pos + length sep) s = s"
        using find_sub_Some [OF Some] by (metis append.assoc append_take_drop_id take_add)
      ultimately show ?thesis
        using Some False split_ex_loop_ne
        by (subst split_ex_loop.simps) (simp add: join_Cons)
    qed
  qed
qed

text \<open>
  splitting and joining are inverse. The parts of vSplitString at one separator character,
  joined with it, give the input back whatever the count, and with the default count no part
  contains the separator; the same for vSplitStringEx with a separator string.
\<close>

theorem vSplitString_join:
  assumes "no_nul s" and "s \<noteq> []"
  shows "join [c] (vSplitString s v [c] False n) = s \<and> join sep (vSplitStringEx s v sep False n) = s \<and>
    (length s \<le> n \<longrightarrow> (\<forall>p\<in>set (vSplitString s v [c] False n). c \<notin> set p))"
  using assms join_split_loop [of "[]" s c n] split_loop_parts [of "[]" s c n] join_split_ex_loop [of s sep n]
  by (simp add: vSplitString_def vSplitStringEx_def)

theorem vSplitString_join_witness:
  "join [CHR '','' ] (vSplitString ''a,,b'' [] '','' False default_count) = ''a,,b'' \<and>
   join '', '' (vSplitStringEx ''a,,b'' [] '', '' False default_count) = ''a,,b'' \<and>
   list_all (\<lambda>p. CHR '','' \<notin> set p) (vSplitString ''a,,b'' [] '','' False default_count)"
proof -
  have "length ''a,,b'' \<le> default_count"
    by (simp add: default_count_def)
  with vSplitString_join [of "''a,,b''" "CHR '',''" "[]" default_count "'', ''"] show ?thesis
    by (simp add: list_all_iff)
qed

subsection \<open>Small helpers\<close>

definition getcharnum :: "string \<Rightarrow> char \<Rightarrow> nat" where
  "getcharnum src ch = length (filter (\<lambda>c. c = ch) src)"

definition datecmp :: "nat \<Rightarrow> nat \<Rightarrow> nat \<Rightarrow> nat \<Rightarrow> nat \<Rightarrow> nat \<Rightarrow> int" where
  "datecmp y1 m1 d1 y2 m2 d2 =
     (if y1 > y2 then 1
      else if y1 = y2 then
        if m1 > m2 then 1
        else if m1 = m2 then (if d1 > d2 then 1 else if d1 = d2 then 0 else - 1)
        else - 1
      else - 1)"

text \<open>\<open>atoi\<close>, without the undefined overflow: leading white space, a sign, digits.\<close>

fun digits_value :: "nat \<Rightarrow> string \<Rightarrow> nat" where
  "digits_value acc [] = acc"
| "digits_value acc (c # cs) =
     (if CHR ''0'' \<le> c \<and> c \<le> CHR ''9'' then digits_value (10 * acc + (of_char c - 48)) cs else acc)"

definition atoi :: "string \<Rightarrow> int" where
  "atoi s = (let t = dropWhile (\<lambda>c. is_ws c \<or> c = CHR 0x0B \<or> c = CHR 0x0C) s in
     case t of [] \<Rightarrow> 0
     | c # cs \<Rightarrow> if c = CHR ''-'' then - int (digits_value 0 cs)
         else if c = CHR ''+'' then int (digits_value 0 cs) else int (digits_value 0 t))"

definition getmonthnumber :: "string \<Rightarrow> int" where
  "getmonthnumber mstr =
     (if strcaseeq mstr ''Jan'' then 1 else if strcaseeq mstr ''Feb'' then 2
      else if strcaseeq mstr ''Mar'' then 3 else if strcaseeq mstr ''Apr'' then 4
      else if strcaseeq mstr ''May'' then 5 else if strcaseeq mstr ''Jun'' then 6
      else if strcaseeq mstr ''Jul'' then 7 else if strcaseeq mstr ''Aug'' then 8
      else if strcaseeq mstr ''Sep'' then 9 else if strcaseeq mstr ''Oct'' then 10
      else if strcaseeq mstr ''Nov'' then 11 else if strcaseeq mstr ''Dec'' then 12
      else atoi mstr)"

lemma datecmp_lex:
  "datecmp y1 m1 d1 y2 m2 d2 = 0 \<longleftrightarrow> (y1, m1, d1) = (y2, m2, d2)"
  "datecmp y1 m1 d1 y2 m2 d2 = - datecmp y2 m2 d2 y1 m1 d1"
  by (auto simp: datecmp_def)

end
