(* ===== verification/Hpack.thy ===== *)
theory Hpack
  imports Hpack_Int Huffman_Decode Strutil
begin

section \<open>The header block codec (src/src/hpack.h, src/src/hpack.cpp)\<close>

text \<open>
  \<open>hpack::parse\<close> decodes a header block into a list of \<open>HTTP2_Header\<close>, which still
  hold indices into the tables of the connection, and \<open>hpack::build\<close> encodes the text of an
  HTTP/1.1 response header. The block is the memory from \<open>m_field\<close> on; its length argument and
  the size of the allocation are kept apart, because the code does not compare the string lengths
  it reads with either of them.
\<close>

datatype index_type_e =
    type_indexed | type_with_indexing_indexed_name | type_with_indexing_new_name
  | type_without_indexing_indexed_name | type_without_indexing_new_name
  | type_never_indexed_indexed_name | type_never_indexed_new_name | type_error

record HTTP2_Header =
  index_type :: index_type_e
  index :: u32
  name :: string
  val_of :: string

definition mk_header :: "index_type_e \<Rightarrow> u32 \<Rightarrow> string \<Rightarrow> string \<Rightarrow> HTTP2_Header" where
  "mk_header t i n v = \<lparr> index_type = t, index = i, name = n, val_of = v \<rparr>"

text \<open>The bit fields of the tag octet.\<close>

definition top1 :: "byte \<Rightarrow> byte" where "top1 b = drop_bit 7 b"
definition top2 :: "byte \<Rightarrow> byte" where "top2 b = drop_bit 6 b"
definition top4 :: "byte \<Rightarrow> byte" where "top4 b = drop_bit 4 b"
definition low4 :: "byte \<Rightarrow> byte" where "low4 b = b AND 0x0F"
definition low6 :: "byte \<Rightarrow> byte" where "low6 b = b AND 0x3F"

definition set_top1 :: "byte \<Rightarrow> byte \<Rightarrow> byte" where "set_top1 c b = (b AND 0x7F) OR push_bit 7 c"
definition set_top2 :: "byte \<Rightarrow> byte \<Rightarrow> byte" where "set_top2 c b = (b AND 0x3F) OR push_bit 6 c"
definition set_top4 :: "byte \<Rightarrow> byte \<Rightarrow> byte" where "set_top4 c b = (b AND 0x0F) OR push_bit 4 c"

subsection \<open>\<open>hpack::parse\<close>\<close>

text \<open>
  One string at the memory \<open>m\<close>: the result is the C string and the number of octets it takes.
  A length that is negative as an \<open>int\<close>, or whose buffer size overflows one, has no defined
  meaning. The branch without Huffman coding copies \<open>string_len + 1\<close> octets.
\<close>

definition parse_string :: "bytes \<Rightarrow> (int + string \<times> nat) outcome" where
  "parse_string m = do {
     (integer_len, string_len, string_ptr) \<leftarrow> decode_http2_header_string m;
     case string_ptr of
       None \<Rightarrow> Some (Inl (- 1))
     | Some p \<Rightarrow>
         if unat string_len \<ge> 2 ^ 28 then None
         else do {
           b \<leftarrow> rd m 0;
           if top1 b = 1 then do {
             r \<leftarrow> hf_string_decode hf_init (drop p m) (unat string_len) (MAX_HUFFMAN_BUFF_LEN (unat string_len));
             case r of
               Inl rc \<Rightarrow> Some (Inl (- 1))
             | Inr out \<Rightarrow>
                 if length out < MAX_HUFFMAN_BUFF_LEN (unat string_len)
                 then Some (Inr (cstr (of_bytes out), p + unat string_len)) else None
           } else do {
             out \<leftarrow> rd_n m p (unat string_len + 1);
             Some (Inr (cstr (of_bytes (take (unat string_len) out)), p + unat string_len))
           }
         }
   }"

text \<open>The tag octet and the index: the header without its strings, and the octets consumed.\<close>

definition parse_tag :: "bytes \<Rightarrow> (int + HTTP2_Header \<times> nat) outcome" where
  "parse_tag m = do {
     b \<leftarrow> rd m 0;
     if top1 b = 1 then do {
       (integer_len, f_index) \<leftarrow> decode_http2_header_index m 7;
       if integer_len < 0 then Some (Inl (- 1))
       else Some (Inr (mk_header type_indexed f_index [] [], nat integer_len))
     } else if top2 b = 1 then do {
       (integer_len, f_index) \<leftarrow> decode_http2_header_index m 6;
       if integer_len < 0 then Some (Inl (- 1))
       else Some (Inr (mk_header
         (if low6 b > 0 then type_with_indexing_indexed_name else type_with_indexing_new_name) f_index [] [],
         nat integer_len))
     } else do {
       (integer_len, f_index) \<leftarrow> decode_http2_header_index m 4;
       if integer_len < 0 then Some (Inl (- 1))
       else if top4 b = 0 then Some (Inr (mk_header
         (if low4 b > 0 then type_without_indexing_indexed_name else type_without_indexing_new_name)
         (ucast (low4 b)) [] [], nat integer_len))
       else if top4 b = 1 then Some (Inr (mk_header
         (if low4 b > 0 then type_never_indexed_indexed_name else type_never_indexed_new_name) f_index [] [],
         nat integer_len))
       else Some (Inl (- 1))
     }
   }"

text \<open>One round of the loop: the header pushed and the octets consumed.\<close>

definition parse_field :: "bytes \<Rightarrow> (int + HTTP2_Header \<times> nat) outcome" where
  "parse_field m = do {
     t \<leftarrow> parse_tag m;
     case t of
       Inl rc \<Rightarrow> Some (Inl rc)
     | Inr (header, k) \<Rightarrow>
         if index_type header = type_indexed then Some (Inr (header, k))
         else do {
           s \<leftarrow> parse_string (drop k m);
           case s of
             Inl rc \<Rightarrow> Some (Inl rc)
           | Inr (str, k1) \<Rightarrow>
               if index header > 0 then Some (Inr (header\<lparr> val_of := str \<rparr>, k + k1))
               else do {
                 s2 \<leftarrow> parse_string (drop (k + k1) m);
                 case s2 of
                   Inl rc \<Rightarrow> Some (Inl rc)
                 | Inr (str2, k2) \<Rightarrow> Some (Inr (header\<lparr> name := str, val_of := str2 \<rparr>, k + k1 + k2))
               }
         }
   }"

lemma parse_tag_advances: "parse_tag m = Some (Inr (h, k)) \<Longrightarrow> 1 \<le> k \<and> k \<le> length m"
  by (auto simp: parse_tag_def decode_http2_header_index_def bind_Some_iff split: if_splits prod.splits
      dest!: decode_integer_bounds)

lemma parse_field_advances:
  assumes "parse_field m = Some (Inr (h, k))"
  shows "1 \<le> k"
proof -
  obtain h0 k0 where "parse_tag m = Some (Inr (h0, k0))"
    using assms by (cases "parse_tag m") (auto simp: parse_field_def split: sum.splits)
  then show ?thesis
    using assms parse_tag_advances [of m h0 k0]
    by (auto simp: parse_field_def split: if_splits bind_splits sum.split_asm)
qed

text \<open>
  The loop over the block; the headers decoded so far are kept on an error, as
  \<open>m_decoded_headers\<close> keeps them.
\<close>

function parse_loop :: "bytes \<Rightarrow> nat \<Rightarrow> nat \<Rightarrow> HTTP2_Header list \<Rightarrow> (int \<times> HTTP2_Header list) outcome" where
  "parse_loop m m_len parsed hs =
     (if parsed < m_len then
        case parse_field (drop parsed m) of
          None \<Rightarrow> None
        | Some (Inl rc) \<Rightarrow> Some (rc, hs)
        | Some (Inr (header, k)) \<Rightarrow> parse_loop m m_len (parsed + k) (hs @ [header])
      else Some (0, hs))"
  by pat_completeness auto
termination
  by (relation "measure (\<lambda>(m, m_len, parsed, hs). m_len - parsed)") (auto dest: parse_field_advances)

declare parse_loop.simps [simp del]

definition hpack_parse :: "bytes \<Rightarrow> nat \<Rightarrow> (int \<times> HTTP2_Header list) outcome" where
  "hpack_parse field len = parse_loop field len 0 []"

subsection \<open>\<open>hpack::build\<close>\<close>

type_synonym static_table = "(nat \<times> string \<times> string) list"

text \<open>
  The lines of the text: the pointer to the current line moves on only behind a line that is not
  empty, so an empty one ends the list.
\<close>

fun header_lines :: "string \<Rightarrow> string \<Rightarrow> string list" where
  "header_lines tok [] = (if tok = [] then [] else [tok])"
| "header_lines tok (c # cs) =
     (if c = CHR 0x0A \<or> c = NUL then (if tok = [] then [] else tok # header_lines [] cs)
      else header_lines (tok @ [c]) cs)"

text \<open>
  The tag octet for an entry of the table. The variable has one octet, and a longer integer is
  written behind it.
\<close>

definition write_tag :: "nat \<Rightarrow> u32 \<Rightarrow> (byte \<Rightarrow> byte) \<Rightarrow> bytes outcome" where
  "write_tag nprefix i set_code =
     (let (n, out) = encode_http2_header_index nprefix i
      in if length out = 1 then Some [set_code (hd out)] else None)"

text \<open>
  The loop over the static table: the last entry of that name, or the first that also has the
  value.
\<close>

fun scan_table :: "static_table \<Rightarrow> string \<Rightarrow> string \<Rightarrow> index_type_e \<times> bytes \<Rightarrow> (index_type_e \<times> bytes) outcome" where
  "scan_table [] n v r = Some r"
| "scan_table ((i, tn, tv) # rest) n v r =
     (if strcaseeq tn n then do {
        tag \<leftarrow> write_tag 6 (word_of_nat i) (set_top2 1);
        if strcaseeq tv v then do {
          tag \<leftarrow> write_tag 7 (word_of_nat i) (set_top1 1);
          Some (type_indexed, tag)
        } else scan_table rest n v (type_with_indexing_indexed_name, tag)
      } else scan_table rest n v r)"

text \<open>A string: its length with the \<open>h\<close> bit, then its Huffman code.\<close>

definition build_string :: "string \<Rightarrow> bytes outcome" where
  "build_string s = do {
     (out_buff, out_len) \<leftarrow> hf_string_encode (to_bytes s) 0 (replicate (MAX_HUFFMAN_BUFF_LEN (length s)) 0);
     let ((integer_len, string_ptr), out) = encode_http2_header_string (word_of_nat out_len);
     Some (set_top1 1 (hd out) # tl out @ take out_len out_buff)
   }"

definition is_digit :: "char \<Rightarrow> bool" where
  "is_digit c \<longleftrightarrow> CHR ''0'' \<le> c \<and> c \<le> CHR ''9''"

text \<open>
  \<open>sscanf\<close> with \<open>http/1.1%*[^0-9]%[0-9]%*[^0-9]\<close> into an array of 16 characters:
  at least one other character, then the digits.
\<close>

definition scan_status :: "string \<Rightarrow> string outcome" where
  "scan_status low =
     (let t = drop 8 low; u = dropWhile (\<lambda>c. \<not> is_digit c) t; code = takeWhile is_digit u
      in if t \<noteq> [] \<and> \<not> is_digit (hd t) then (if length code \<ge> 16 then None else Some code) else Some [])"

definition build_status :: "static_table \<Rightarrow> string \<Rightarrow> bytes outcome" where
  "build_status table current_line = do {
     tag0 \<leftarrow> write_tag 4 0 (set_top4 1);
     status_code \<leftarrow> scan_status (cstr (lowercase current_line));
     (ty, tag) \<leftarrow> scan_table table '':status'' status_code (type_never_indexed_new_name, tag0);
     if ty = type_with_indexing_indexed_name then do {
       s \<leftarrow> build_string status_code;
       Some (tag @ s)
     } else Some tag
   }"

definition line_name :: "string \<Rightarrow> string" where
  "line_name current_line =
     strtrim (if current_line \<noteq> [] \<and> hd current_line = CHR '':''
       then '':'' @ strcut (tl current_line) None (Some '':'') else strcut current_line None (Some '':''))"

definition line_value :: "string \<Rightarrow> string" where
  "line_value current_line =
     strtrim (if current_line \<noteq> [] \<and> hd current_line = CHR '':''
       then strcut (tl current_line) (Some '':'') None else strcut current_line (Some '':'') None)"

definition build_header :: "static_table \<Rightarrow> string \<Rightarrow> bytes outcome" where
  "build_header table current_line = do {
     tag0 \<leftarrow> write_tag 4 0 (set_top4 1);
     let strNameLow = lowercase (line_name current_line);
     let strValue = line_value current_line;
     (ty, tag) \<leftarrow> scan_table table strNameLow strValue (type_never_indexed_new_name, tag0);
     if ty = type_with_indexing_indexed_name then do {
       s \<leftarrow> build_string strValue;
       Some (tag @ s)
     } else if ty = type_never_indexed_new_name then do {
       s \<leftarrow> build_string strNameLow;
       s2 \<leftarrow> build_string strValue;
       Some (tag @ s @ s2)
     } else Some tag
   }"

definition build_line :: "static_table \<Rightarrow> string \<Rightarrow> bytes outcome" where
  "build_line table line =
     (let current_line = strtrim line
      in if current_line = [] then Some []
         else if strncaseeq current_line ''HTTP/1.1'' 8 then build_status table current_line
         else build_header table current_line)"

fun build_lines :: "static_table \<Rightarrow> string list \<Rightarrow> bytes outcome" where
  "build_lines table [] = Some []"
| "build_lines table (l # ls) = do {
     f \<leftarrow> build_line table l;
     fs \<leftarrow> build_lines table ls;
     Some (f @ fs)
   }"

definition hpack_build :: "string \<Rightarrow> static_table \<Rightarrow> bytes outcome" where
  "hpack_build http1_headers table = build_lines table (header_lines [] http1_headers)"

subsection \<open>Strings: what is built is parsed\<close>

lemma set_top1_low: "(ucast (set_top1 1 b) :: u32) AND prefix_max 7 = ucast b AND prefix_max 7"
  unfolding prefix_max_mask set_top1_def
  by (rule bit_word_eqI) (auto simp: bit_simps byte_simps)

lemma top1_set_top1 [simp]: "top1 (set_top1 1 b) = 1"
  unfolding top1_def set_top1_def
  by (rule bit_word_eqI) (auto simp: bit_simps byte_simps)

definition ascii_string :: "string \<Rightarrow> bool" where
  "ascii_string s \<longleftrightarrow> (\<forall>c\<in>set s. of_char c < (128 :: nat))"

lemma ascii_to_bytes: "ascii_string s \<longleftrightarrow> list_all is_ascii (to_bytes s)"
  by (simp add: ascii_string_def to_bytes_def is_ascii_def list_all_iff byte_of_unat)

definition enc_str :: "string \<Rightarrow> bytes" where
  "enc_str s = the (build_string s)"

definition dec_str :: "bytes \<Rightarrow> (string \<times> bytes) option" where
  "dec_str m = (case parse_string m of Some (Inr (s, k)) \<Rightarrow> Some (s, drop k m) | _ \<Rightarrow> None)"

definition str_ok :: "string \<Rightarrow> bool" where
  "str_ok s \<longleftrightarrow> ascii_string s \<and> length s < 2 ^ 24"

lemma decode_coded_length:
  assumes "encode_http2_header_string v = ((n, ptr), out)"
  shows "decode_http2_header_string (set_top1 1 (hd out) # tl out @ rest) = Some (int (length out), v, Some (length out))"
    and "out \<noteq> []"
proof -
  have enc: "encode_integer MAX_BYTES_OF_LENGTH v 7 = (n, out)"
    using assms by (auto simp: encode_http2_header_string_def split: prod.splits)
  have c: "n = int (length out) \<and> 1 \<le> length out \<and> length out \<le> 6 \<and>
      decode_integer 0 (out @ rest) MAX_BYTES_OF_LENGTH 7 = Some (n, v)"
    by (rule integer_coded [OF _ _ _ _ enc]) (simp_all add: MAX_BYTES_OF_LENGTH_def)
  then show ne: "out \<noteq> []"
    by auto
  have "decode_integer 0 (set_top1 1 (hd out) # tl out @ rest) MAX_BYTES_OF_LENGTH 7 =
      decode_integer 0 (hd out # tl out @ rest) MAX_BYTES_OF_LENGTH 7"
    by (rule decode_integer_first) (rule set_top1_low)
  also have "hd out # tl out @ rest = out @ rest"
    using ne by simp
  finally show "decode_http2_header_string (set_top1 1 (hd out) # tl out @ rest) = Some (int (length out), v, Some (length out))"
    using c by (simp add: decode_http2_header_string_def)
qed

lemma build_string_coded:
  assumes "str_ok s"
  shows "\<exists>bs. build_string s = Some bs \<and> parse_string (bs @ rest) = Some (Inr (cstr s, length bs))"
proof -
  let ?n = "length s"
  obtain buf j k where enc: "hf_string_encode (to_bytes s) 0 (replicate (MAX_HUFFMAN_BUFF_LEN ?n) 0) = Some (buf, j)"
    and j: "j \<le> length buf" and len: "length buf = MAX_HUFFMAN_BUFF_LEN ?n" and k: "k < 8"
    and bits: "stream (take j buf) = codes_of (to_bytes s) @ replicate k True"
    using hf_string_encode_stream [of "to_bytes s"] assms by (auto simp: str_ok_def ascii_to_bytes)
  obtain n ptr out where int: "encode_http2_header_string (word_of_nat j) = ((n, ptr), out)"
    by (metis prod.exhaust)
  let ?bs = "set_top1 1 (hd out) # tl out @ take j buf"
  have build: "build_string s = Some ?bs"
    using enc int by (simp add: build_string_def)
  have small: "j < 2 ^ 28"
    using j len assms by (simp add: MAX_HUFFMAN_BUFF_LEN_def str_ok_def)
  then have uj: "unat (word_of_nat j :: u32) = j"
    by (simp add: unat_of_nat)
  have out: "out \<noteq> []"
    using decode_coded_length(2) [OF int] .
  then have hd_tl: "set_top1 1 (hd out) # tl out @ x = (set_top1 1 (hd out) # tl out) @ x" and
    len_out: "length (set_top1 1 (hd out) # tl out) = length out" for x
    by simp_all
  have "8 * j = length (codes_of (to_bytes s)) + k"
    using arg_cong [OF bits, of length] j by simp
  then have fits: "?n \<le> 8 * j"
    using codes_of_length(1) [of "to_bytes s"] by simp
  have dec: "hf_string_decode hf_init (take j buf @ rest) j (MAX_HUFFMAN_BUFF_LEN j) = Some (Inr (to_bytes s))"
    using hf_string_decode_codes [OF bits k, of "MAX_HUFFMAN_BUFF_LEN j" rest] fits j
    by (simp add: MAX_HUFFMAN_BUFF_LEN_def min_absorb2)
  have drop: "drop (length out) (set_top1 1 (hd out) # tl out @ x) = x" for x
    using out by (cases out) simp_all
  have "parse_string (?bs @ rest) = Some (Inr (cstr s, length out + j))"
    using decode_coded_length(1) [OF int, of "take j buf @ rest"] uj small dec fits drop
    by (simp add: parse_string_def rd_Cons_0 MAX_HUFFMAN_BUFF_LEN_def)
  moreover have "length ?bs = length out + j"
    using len_out j by (simp add: min_absorb2)
  ultimately show ?thesis
    using build by metis
qed

text \<open>The two string routines are a prefix codec.\<close>

interpretation str_codec: prefix_codec enc_str dec_str "\<lambda>s. str_ok s \<and> no_nul s"
proof
  fix s rest
  assume "str_ok s \<and> no_nul s"
  then show "dec_str (enc_str s @ rest) = Some (s, rest)"
    using build_string_coded [of s rest] by (auto simp: dec_str_def enc_str_def)
qed

subsection \<open>Tags\<close>

lemma decode_index_small:
  assumes "(ucast b :: u32) AND prefix_max n \<noteq> prefix_max n"
  shows "decode_http2_header_index (b # rest) n = Some (1, ucast b AND prefix_max n)"
  using assms by (simp add: decode_http2_header_index_def decode_integer_def MAX_BYTES_OF_LENGTH_def rd_Cons_0 Let_def)

lemma write_tag_small: "i < prefix_max n \<Longrightarrow> write_tag n i f = Some [f (ucast i)]"
  by (simp add: write_tag_def encode_http2_header_index_def encode_integer_def MAX_BYTES_OF_LENGTH_def)

lemma small_index:
  assumes "i < 63"
  shows "(word_of_nat i :: u32) < prefix_max 6" and "(word_of_nat i :: u32) < prefix_max 7"
    and "unat (word_of_nat i :: u32) = i" and "unat (ucast (word_of_nat i :: u32) :: byte) = i"
  using assms by (simp_all add: word_less_nat_alt unat_prefix_max unat_of_nat unsigned_ucast_eq take_bit_nat_eq_self)

lemma bit_63 [byte_simps]: "bit (63 :: int) n \<longleftrightarrow> n < 6"
  using bit_mask_int [of 6 n] by (simp add: mask_eq_exp_minus_1)

lemma bit_15 [byte_simps]: "bit (15 :: int) n \<longleftrightarrow> n < 4"
  using bit_mask_int [of 4 n] by (simp add: mask_eq_exp_minus_1)

lemma bit_16 [byte_simps]: "bit (16 :: int) n \<longleftrightarrow> n = 4"
  using bit_pow_int [of 4 n] by simp

lemma bit_64 [byte_simps]: "bit (64 :: int) n \<longleftrightarrow> n = 6"
  using bit_pow_int [of 6 n] by simp

lemma set_top_tag:
  fixes w :: u32
  assumes "unat w < 63"
  shows "(ucast (set_top1 1 (ucast w)) :: u32) AND prefix_max 7 = w"
    and "(ucast (set_top2 1 (ucast w)) :: u32) AND prefix_max 6 = w"
    and "low6 (set_top2 1 (ucast w)) = ucast w"
    and "top1 (set_top2 1 (ucast w)) = 0" and "top2 (set_top2 1 (ucast w)) = 1"
proof -
  have "take_bit 6 w = w"
    using assms by (simp add: word_unat_eq_iff unsigned_take_bit_eq take_bit_nat_eq_self)
  then have b: "n < 6" if "bit w n" for n
    using that by (metis bit_take_bit_iff)
  have b': "n < 7" if "bit w n" for n
    using b [OF that] by simp
  show "(ucast (set_top1 1 (ucast w)) :: u32) AND prefix_max 7 = w"
    unfolding prefix_max_mask set_top1_def
    by (rule bit_word_eqI) (auto simp: bit_simps byte_simps dest: b')
  show "(ucast (set_top2 1 (ucast w)) :: u32) AND prefix_max 6 = w"
    unfolding prefix_max_mask set_top2_def
    by (rule bit_word_eqI) (auto simp: bit_simps byte_simps dest: b)
  show "low6 (set_top2 1 (ucast w)) = ucast w"
    unfolding low6_def set_top2_def
    by (rule bit_word_eqI) (auto simp: bit_simps byte_simps dest: b)
  show "top1 (set_top2 1 (ucast w)) = 0"
    unfolding top1_def set_top2_def
    by (rule bit_word_eqI) (auto simp: bit_simps byte_simps)
  show "top2 (set_top2 1 (ucast w)) = 1"
    unfolding top2_def set_top2_def
    by (rule bit_word_eqI) (auto simp: bit_simps byte_simps)
qed

lemma never_tag:
  "top1 (set_top4 1 0) = 0" "top2 (set_top4 1 0) = 0" "top4 (set_top4 1 0) = 1" "low4 (set_top4 1 0) = 0"
  "(ucast (set_top4 1 0) :: u32) AND prefix_max 4 = 0"
  unfolding top1_def top2_def top4_def low4_def set_top4_def prefix_max_mask
  by (rule bit_word_eqI; auto simp: bit_simps byte_simps)+

lemma parse_indexed:
  assumes "unat w < 63"
  shows "parse_tag (set_top1 1 (ucast w) # rest) = Some (Inr (mk_header type_indexed w [] [], 1))"
proof -
  have "w \<noteq> prefix_max 7"
    using assms unat_prefix_max [of 7] by auto
  then show ?thesis
    using decode_index_small [of "set_top1 1 (ucast w)" 7 rest] set_top_tag [OF assms]
    by (simp add: parse_tag_def rd_Cons_0)
qed

lemma parse_with_indexing:
  assumes "unat w < 63" and "0 < w"
  shows "parse_tag (set_top2 1 (ucast w) # rest) = Some (Inr (mk_header type_with_indexing_indexed_name w [] [], 1))"
proof -
  have "w \<noteq> prefix_max 6"
    using assms unat_prefix_max [of 6] by auto
  moreover have "unat (ucast w :: byte) \<noteq> 0"
    using assms by (simp add: unsigned_ucast_eq take_bit_nat_eq_self unat_gt_0)
  then have "0 < (ucast w :: byte)"
    by (metis unat_0 word_gt_0)
  ultimately show ?thesis
    using decode_index_small [of "set_top2 1 (ucast w)" 6 rest] set_top_tag [OF assms(1)]
    by (simp add: parse_tag_def rd_Cons_0)
qed

lemma parse_never_new:
  "parse_tag (set_top4 1 0 # rest) = Some (Inr (mk_header type_never_indexed_new_name 0 [] [], 1))"
proof -
  have "(0 :: u32) \<noteq> prefix_max 4"
    using unat_prefix_max [of 4] by auto
  then show ?thesis
    using decode_index_small [of "set_top4 1 0" 4 rest] never_tag
    by (simp add: parse_tag_def rd_Cons_0)
qed

subsection \<open>The table look-up and one line\<close>

definition table_ok :: "static_table \<Rightarrow> bool" where
  "table_ok t \<longleftrightarrow> (\<forall>(i, n, v)\<in>set t. 0 < i \<and> i < 63)"

text \<open>
  The specification of the choice: an entry with the name and the value if there is one, else
  the last entry with the name.
\<close>

datatype table_match = Full nat | Name_only nat | No_match

definition table_lookup :: "static_table \<Rightarrow> string \<Rightarrow> string \<Rightarrow> table_match" where
  "table_lookup t n v =
     (case find (\<lambda>(i, tn, tv). strcaseeq tn n \<and> strcaseeq tv v) t of
        Some (i, _) \<Rightarrow> Full i
      | None \<Rightarrow> (case find (\<lambda>(i, tn, tv). strcaseeq tn n) (rev t) of Some (i, _) \<Rightarrow> Name_only i | None \<Rightarrow> No_match))"

definition match_tag :: "table_match \<Rightarrow> index_type_e \<times> bytes \<Rightarrow> index_type_e \<times> bytes" where
  "match_tag m r = (case m of
     Full i \<Rightarrow> (type_indexed, [set_top1 1 (ucast (word_of_nat i :: u32))])
   | Name_only i \<Rightarrow> (type_with_indexing_indexed_name, [set_top2 1 (ucast (word_of_nat i :: u32))])
   | No_match \<Rightarrow> r)"

lemma find_append: "find p (front @ rear) = (case find p front of Some a \<Rightarrow> Some a | None \<Rightarrow> find p rear)"
  by (induction front) auto

lemma scan_table_lookup:
  assumes "table_ok t"
  shows "scan_table t n v r = Some (match_tag (table_lookup t n v) r)"
  using assms
proof (induction t n v r rule: scan_table.induct)
  case (1 n v r)
  then show ?case by (simp add: table_lookup_def match_tag_def)
next
  case (2 i tn tv rest n v r)
  have ok: "table_ok rest" and i: "i < 63"
    using "2.prems" by (auto simp: table_ok_def)
  have w: "write_tag 6 (word_of_nat i) f = Some [f (ucast (word_of_nat i :: u32))]"
    "write_tag 7 (word_of_nat i) f = Some [f (ucast (word_of_nat i :: u32))]" for f
    using small_index [OF i] by (simp_all add: write_tag_small)
  show ?case
    using "2.IH" ok w
    by (auto simp: table_lookup_def match_tag_def find_append split: option.splits table_match.splits)
qed

lemma strtrim_sub: "set (strtrim s) \<subseteq> set s" "length (strtrim s) \<le> length s"
proof -
  have "set (strip is_ws s) \<subseteq> set s"
    by (auto simp: strip_def dest!: set_dropWhileD)
  moreover have "length (strip is_ws s) \<le> length s"
    unfolding strip_def length_rev by (metis length_dropWhile_le length_rev order_trans)
  ultimately show "set (strtrim s) \<subseteq> set s" "length (strtrim s) \<le> length s"
    by (simp_all add: strtrim_strip)
qed

lemma strcut_sub: "set (strcut t b e) \<subseteq> set t" "length (strcut t b e) \<le> length t"
  by (auto simp: strcut_def Let_def split: option.splits dest: in_set_dropD in_set_takeD)

definition clean :: "string \<Rightarrow> bool" where
  "clean s \<longleftrightarrow> ascii_string s \<and> no_nul s"

lemma clean_sub: "clean t \<Longrightarrow> set s \<subseteq> set t \<Longrightarrow> clean s"
  by (auto simp: clean_def ascii_string_def no_nul_def)

lemma line_name_clean: "clean l \<Longrightarrow> clean (line_name l)" "length (line_name l) \<le> length l"
proof -
  have "set (line_name l) \<subseteq> set l"
    unfolding line_name_def
    by (rule order_trans [OF strtrim_sub(1)])
      (use strcut_sub(1) [of l "None" "(Some '':'')"] strcut_sub(1) [of "tl l" "None" "(Some '':'')"] in \<open>cases l; auto\<close>)
  then show "clean l \<Longrightarrow> clean (line_name l)"
    using clean_sub by blast
  show "length (line_name l) \<le> length l"
    unfolding line_name_def
    by (rule order_trans [OF strtrim_sub(2)]) (use strcut_sub(2) [of l "None" "(Some '':'')"] strcut_sub(2) [of "tl l" "None" "(Some '':'')"] in \<open>cases l; auto\<close>)
qed

lemma line_value_clean: "clean l \<Longrightarrow> clean (line_value l)" "length (line_value l) \<le> length l"
proof -
  have "set (line_value l) \<subseteq> set l"
    unfolding line_value_def
    by (rule order_trans [OF strtrim_sub(1)])
      (use strcut_sub(1) [of l "(Some '':'')" "None"] strcut_sub(1) [of "tl l" "(Some '':'')" "None"] in \<open>cases l; auto\<close>)
  then show "clean l \<Longrightarrow> clean (line_value l)"
    using clean_sub by blast
  show "length (line_value l) \<le> length l"
    unfolding line_value_def
    by (rule order_trans [OF strtrim_sub(2)]) (use strcut_sub(2) [of l "(Some '':'')" "None"] strcut_sub(2) [of "tl l" "(Some '':'')" "None"] in \<open>cases l; auto\<close>)
qed

lemma ascii_LOCH: "of_char c < (128 :: nat) \<Longrightarrow> of_char (LOCH c) < (128 :: nat)"
  using LOCH_upper [of c] by (cases "CHR ''A'' \<le> c \<and> c \<le> CHR ''Z''") (auto simp: LOCH_def less_eq_char_def)

lemma lowercase_ok: "clean s \<Longrightarrow> length s + 1 < 2 ^ 24 \<Longrightarrow> str_ok (lowercase s)"
  by (auto simp: clean_def str_ok_def ascii_string_def lowercase_def ascii_LOCH)

lemma clean_ok: "clean s \<Longrightarrow> length s < 2 ^ 24 \<Longrightarrow> str_ok s"
  by (simp add: clean_def str_ok_def)

text \<open>The header the peer should read for a line.\<close>

definition header_for :: "static_table \<Rightarrow> string \<Rightarrow> string \<Rightarrow> HTTP2_Header" where
  "header_for t n v = (case table_lookup t n v of
     Full i \<Rightarrow> mk_header type_indexed (word_of_nat i) [] []
   | Name_only i \<Rightarrow> mk_header type_with_indexing_indexed_name (word_of_nat i) [] v
   | No_match \<Rightarrow> mk_header type_never_indexed_new_name 0 n v)"

definition line_header :: "static_table \<Rightarrow> string \<Rightarrow> HTTP2_Header list" where
  "line_header t line =
     (let l = strtrim line
      in if l = [] then []
         else if strncaseeq l ''HTTP/1.1'' 8 then [header_for t '':status'' (the (scan_status (map LOCH l)))]
         else [header_for t (map LOCH (line_name l)) (line_value l)])"

lemma table_index: "table_ok t \<Longrightarrow> table_lookup t n v = Full i \<or> table_lookup t n v = Name_only i \<Longrightarrow> 0 < i \<and> i < 63"
  by (auto simp: table_lookup_def table_ok_def find_Some_iff rev_nth split: option.splits)
    (metis (no_types, lifting) case_prodD nth_mem diff_less length_greater_0_conv list.size(3) not_less_zero zero_less_Suc)+

lemma enc_str_coded:
  assumes "str_ok s"
  shows "build_string s = Some (enc_str s)" and "parse_string (enc_str s @ rest) = Some (Inr (cstr s, length (enc_str s)))"
  using build_string_coded [OF assms, of rest] by (auto simp: enc_str_def)

lemma parse_field_full:
  assumes "table_ok t" and "table_lookup t n v = Full i"
  shows "parse_field (set_top1 1 (ucast (word_of_nat i :: u32)) # rest) = Some (Inr (mk_header type_indexed (word_of_nat i) [] [], 1))"
proof -
  have "unat (word_of_nat i :: u32) < 63"
    using table_index [OF assms(1), of n v i] assms(2) small_index(3) [of i] by simp
  then show ?thesis
    by (simp add: parse_field_def parse_indexed mk_header_def)
qed

lemma parse_field_name_only:
  assumes "table_ok t" and "table_lookup t n v = Name_only i" and "parse_string m = Some (Inr (s, k))"
  shows "parse_field (set_top2 1 (ucast (word_of_nat i :: u32)) # m) =
    Some (Inr (mk_header type_with_indexing_indexed_name (word_of_nat i) [] s, Suc k))"
proof -
  have "unat (word_of_nat i :: u32) < 63" and "0 < unat (word_of_nat i :: u32)"
    using table_index [OF assms(1), of n v i] assms(2) small_index(3) [of i] by simp_all
  moreover from this(2) have "0 < (word_of_nat i :: u32)"
    by (metis unat_0 less_irrefl word_gt_0)
  ultimately show ?thesis
    using assms(3) by (simp add: parse_field_def parse_with_indexing mk_header_def)
qed

lemma parse_field_new:
  assumes "parse_string (a @ b @ rest) = Some (Inr (n, length a))" and "parse_string (b @ rest) = Some (Inr (v, length b))"
  shows "parse_field (set_top4 1 0 # a @ b @ rest) =
    Some (Inr (mk_header type_never_indexed_new_name 0 n v, Suc (length a + length b)))"
  using assms by (simp add: parse_field_def parse_never_new mk_header_def)

lemma table_lookup_lowercase: "no_nul s \<Longrightarrow> table_lookup t (lowercase s) v = table_lookup t (map LOCH s) v"
proof -
  assume "no_nul s"
  then have "strcaseeq tn (lowercase s) = strcaseeq tn (map LOCH s)" for tn
    by (simp add: strcaseeq_def comp_def)
  then show ?thesis
    by (simp only: table_lookup_def)
qed

lemma never_tag_written: "write_tag 4 0 (set_top4 1) = Some [set_top4 1 0]"
proof -
  have "(0 :: u32) < prefix_max 4"
    using unat_prefix_max [of 4] by (simp add: word_less_nat_alt)
  then show ?thesis
    by (simp add: write_tag_small)
qed

lemma build_header_parsed:
  assumes "table_ok t" and "clean l" and "length l + 1 < 2 ^ 24"
  shows "\<exists>f. build_header t l = Some f \<and> f \<noteq> [] \<and>
    (\<forall>rest. parse_field (f @ rest) = Some (Inr (header_for t (map LOCH (line_name l)) (line_value l), length f)))"
proof -
  let ?n = "line_name l" and ?v = "line_value l"
  have n: "str_ok (lowercase ?n)" "no_nul ?n"
    using lowercase_ok [OF line_name_clean(1) [OF assms(2)]] line_name_clean [of l] assms(2,3)
    by (auto simp: clean_def)
  have v: "str_ok ?v" "no_nul ?v"
    using line_value_clean [of l] assms(2,3) by (auto simp: clean_def str_ok_def)
  note enc = enc_str_coded [OF n(1)] enc_str_coded [OF v(1)]
  show ?thesis
  proof (cases "table_lookup t (map LOCH ?n) ?v")
    case (Full i)
    then show ?thesis
      using parse_field_full [OF assms(1) Full] scan_table_lookup [OF assms(1)] n
      by (simp add: build_header_def never_tag_written table_lookup_lowercase match_tag_def header_for_def)
  next
    case (Name_only i)
    then show ?thesis
      using parse_field_name_only [OF assms(1) Name_only enc(4)] scan_table_lookup [OF assms(1)] n v enc
      by (simp add: build_header_def never_tag_written table_lookup_lowercase match_tag_def header_for_def)
  next
    case No_match
    then show ?thesis
      using parse_field_new [OF enc(2) enc(4)] scan_table_lookup [OF assms(1)] n v enc
      by (simp add: build_header_def never_tag_written table_lookup_lowercase match_tag_def header_for_def)
  qed
qed

definition has_status :: "static_table \<Rightarrow> bool" where
  "has_status t \<longleftrightarrow> (\<exists>(i, n, v)\<in>set t. strcaseeq n '':status'')"

lemma build_status_parsed:
  assumes "table_ok t" and "has_status t" and "clean l" and "length l < 2 ^ 24" and "scan_status (map LOCH l) = Some sc"
  shows "\<exists>f. build_status t l = Some f \<and> f \<noteq> [] \<and>
    (\<forall>rest. parse_field (f @ rest) = Some (Inr (header_for t '':status'' sc, length f)))"
proof -
  let ?u = "dropWhile (\<lambda>c. \<not> is_digit c) (drop 8 (map LOCH l))"
  have sc: "sc = takeWhile is_digit ?u \<or> sc = []"
    using assms(5) by (auto simp: scan_status_def Let_def split: if_splits)
  then have "set sc \<subseteq> set (map LOCH l)"
    by (auto dest!: set_takeWhileD set_dropWhileD in_set_dropD)
  moreover have len: "length sc \<le> length l"
    using sc length_takeWhile_le [of is_digit ?u] length_dropWhile_le [of "\<lambda>c. \<not> is_digit c" "drop 8 (map LOCH l)"]
    by auto
  ultimately have "clean (map LOCH l)" and "set sc \<subseteq> set (map LOCH l)"
    using assms(3) ascii_LOCH by (simp_all add: clean_def ascii_string_def)
  then have "clean sc"
    by (rule clean_sub)
  then have v: "str_ok sc" "no_nul sc"
    using len assms(4) by (auto simp: clean_def str_ok_def)
  note enc = enc_str_coded [OF v(1)]
  have l: "cstr l = l"
    using assms(3) by (simp add: clean_def)
  show ?thesis
  proof (cases "table_lookup t '':status'' sc")
    case (Full i)
    then show ?thesis
      using parse_field_full [OF assms(1) Full] scan_table_lookup [OF assms(1)] assms(5) l
      by (simp add: build_status_def never_tag_written match_tag_def header_for_def)
  next
    case (Name_only i)
    then show ?thesis
      using parse_field_name_only [OF assms(1) Name_only enc(2)] scan_table_lookup [OF assms(1)] v enc assms(5) l
      by (simp add: build_status_def never_tag_written match_tag_def header_for_def)
  next
    case No_match
    then show ?thesis
      using assms(2) by (fastforce simp: has_status_def table_lookup_def find_None_iff split: option.splits)
  qed
qed


text \<open>A text the server may send: ASCII, not huge, with sensible status lines.\<close>

definition text_ok :: "string \<Rightarrow> bool" where
  "text_ok s \<longleftrightarrow> ascii_string s \<and> length s + 1 < 2 ^ 24 \<and>
     (\<forall>l\<in>set (header_lines [] s). scan_status (map LOCH (strtrim l)) \<noteq> None)"

lemma header_lines_clean:
  "ascii_string (tok @ s) \<Longrightarrow> no_nul tok \<Longrightarrow> l \<in> set (header_lines tok s) \<Longrightarrow>
     clean l \<and> length l \<le> length tok + length s"
  by (induction tok s rule: header_lines.induct)
    (fastforce simp: clean_def ascii_string_def split: if_splits)+

lemma build_line_parsed:
  assumes "table_ok t" and "has_status t" and "clean l" and "length l + 1 < 2 ^ 24"
    and "scan_status (map LOCH (strtrim l)) \<noteq> None"
  shows "(strtrim l = [] \<and> build_line t l = Some [] \<and> line_header t l = []) \<or>
    (\<exists>f h. build_line t l = Some f \<and> f \<noteq> [] \<and> line_header t l = [h] \<and>
      (\<forall>rest. parse_field (f @ rest) = Some (Inr (h, length f))))"
proof -
  have "clean (strtrim l)" and "length (strtrim l) + 1 < 2 ^ 24"
    using clean_sub [OF assms(3) strtrim_sub(1)] strtrim_sub(2) [of l] assms(4) by simp_all
  then show ?thesis
    using build_header_parsed [OF assms(1), of "strtrim l"] build_status_parsed [OF assms(1,2), of "strtrim l"] assms(5)
    by (auto simp: build_line_def line_header_def Let_def)
qed

lemma parse_loop_step:
  assumes "parse_field (f @ rest) = Some (Inr (h, length f))" and "f \<noteq> []"
  shows "parse_loop (pre @ f @ rest) (length pre + length f + k) (length pre) hs =
    parse_loop ((pre @ f) @ rest) (length (pre @ f) + k) (length (pre @ f)) (hs @ [h])"
  using assms by (subst parse_loop.simps) simp

lemma build_lines_parsed:
  assumes "table_ok t" and "has_status t"
    and "\<forall>l\<in>set ls. clean l \<and> length l + 1 < 2 ^ 24 \<and> scan_status (map LOCH (strtrim l)) \<noteq> None"
  shows "\<exists>bs. build_lines t ls = Some bs \<and>
    (\<forall>pre rest hs. parse_loop (pre @ bs @ rest) (length pre + length bs) (length pre) hs =
       Some (0, hs @ concat (map (line_header t) ls)))"
  using assms(3)
proof (induction ls)
  case Nil
  show ?case
    by (simp add: parse_loop.simps)
next
  case (Cons l ls)
  then obtain bs where bs: "build_lines t ls = Some bs"
    "\<And>pre rest hs. parse_loop (pre @ bs @ rest) (length pre + length bs) (length pre) hs =
       Some (0, hs @ concat (map (line_header t) ls))"
    by auto
  consider (empty) "build_line t l = Some []" "line_header t l = []"
    | (field) f h where "build_line t l = Some f" "f \<noteq> []" "line_header t l = [h]"
        "\<And>rest. parse_field (f @ rest) = Some (Inr (h, length f))"
    using build_line_parsed [OF assms(1,2), of l] Cons.prems by auto
  then show ?case
  proof cases
    case empty
    then show ?thesis
      using bs by simp
  next
    case field
    have "parse_loop (pre @ (f @ bs) @ rest) (length pre + length (f @ bs)) (length pre) hs =
        Some (0, hs @ concat (map (line_header t) (l # ls)))" for pre rest hs
      using parse_loop_step [OF field(4) [of "bs @ rest"] field(2), of pre "length bs" hs]
        bs(2) [of "pre @ f" rest "hs @ [h]"] field(3)
      by (simp add: add.assoc)
    then show ?thesis
      using bs(1) field(1) by auto
  qed
qed

lemma build_parse:
  assumes "table_ok t" and "has_status t" and "text_ok s"
  shows "\<exists>bs. hpack_build s t = Some bs \<and>
    (\<forall>more. hpack_parse (bs @ more) (length bs) = Some (0, concat (map (line_header t) (header_lines [] s))))"
proof -
  have "\<forall>l\<in>set (header_lines [] s). clean l \<and> length l + 1 < 2 ^ 24 \<and> scan_status (map LOCH (strtrim l)) \<noteq> None"
    using header_lines_clean [of "[]" s] assms(3) by (fastforce simp: text_ok_def)
  then obtain bs where "build_lines t (header_lines [] s) = Some bs"
    "\<And>pre rest hs. parse_loop (pre @ bs @ rest) (length pre + length bs) (length pre) hs =
       Some (0, hs @ concat (map (line_header t) (header_lines [] s)))"
    using build_lines_parsed [OF assms(1,2)] by blast
  from this(1) this(2) [of "[]" _ "[]"] show ?thesis
    by (auto simp: hpack_build_def hpack_parse_def)
qed

text \<open>
  C4: what hpack::build sends, hpack::parse reads. For an ASCII header text, a static table with
  one-octet indices that knows the status field and status codes below 16 digits, build is
  defined, and parsing its output succeeds without reading behind it and gives line by line the
  chosen representation: the index of an entry with the name and the value, else the index of the
  last entry with the name and the value as a string, else the lower-case name and the value.
\<close>

theorem hpack_round_trip:
  assumes "table_ok t" and "has_status t" and "text_ok s"
  shows "\<exists>bs. hpack_build s t = Some bs \<and>
    hpack_parse bs (length bs) = Some (0, concat (map (line_header t) (header_lines [] s)))"
proof -
  obtain bs where "hpack_build s t = Some bs"
    and "\<And>more. hpack_parse (bs @ more) (length bs) = Some (0, concat (map (line_header t) (header_lines [] s)))"
    using build_parse [OF assms] by blast
  from this(1) this(2) [of "[]"] show ?thesis
    by simp
qed

theorem hpack_round_trip_witness:
  "\<exists>bs. hpack_build ''HTTP/1.1 200 OK'' [(8, '':status'', ''200'')] = Some bs \<and>
    hpack_parse bs (length bs) = Some (0, concat (map (line_header [(8, '':status'', ''200'')]) (header_lines [] ''HTTP/1.1 200 OK'')))"
proof (rule hpack_round_trip)
  show "table_ok [(8, '':status'', ''200'')]" and "has_status [(8, '':status'', ''200'')]"
    by (simp_all add: table_ok_def has_status_def)
  show "text_ok ''HTTP/1.1 200 OK''"
    by (simp add: text_ok_def ascii_string_def scan_status_def is_digit_def less_eq_char_def LOCH_def strtrim_def
        is_ws_def Let_def)
qed


subsection \<open>Bounds and defects of the parser\<close>

lemma parse_tag_error: "parse_tag m = Some (Inl r) \<Longrightarrow> r = - 1"
  by (auto simp: parse_tag_def split: bind_splits if_splits)

lemma parse_string_error: "parse_string m = Some (Inl r) \<Longrightarrow> r = - 1"
  by (auto simp: parse_string_def Let_def split: bind_splits if_splits option.split_asm sum.split_asm)

lemma parse_field_error: "parse_field m = Some (Inl r) \<Longrightarrow> r = - 1"
  by (cases "parse_tag m") (auto simp: parse_field_def split: sum.split_asm if_splits bind_splits
      dest!: parse_tag_error parse_string_error)

lemma parse_loop_bound:
  "parse_loop m n p hs = Some (rc, hs') \<Longrightarrow> (rc = 0 \<or> rc = - 1) \<and> length hs' \<le> length hs + (n - p)"
proof (induction m n p hs rule: parse_loop.induct)
  case (1 m n p hs)
  show ?case
  proof (cases "p < n")
    case True
    show ?thesis
    proof (cases "parse_field (drop p m)")
      case None
      then show ?thesis
        using "1.prems" True by (subst (asm) parse_loop.simps) simp
    next
      case (Some r)
      show ?thesis
      proof (cases r)
        case (Inl rc')
        then show ?thesis
          using "1.prems" True Some parse_field_error by (subst (asm) parse_loop.simps) auto
      next
        case (Inr hk)
        obtain h k where hk: "hk = (h, k)"
          by fastforce
        have k: "1 \<le> k"
          using parse_field_advances Some Inr hk by blast
        have "parse_loop m n (p + k) (hs @ [h]) = Some (rc, hs')"
          using "1.prems" True Some Inr hk by (subst (asm) parse_loop.simps) simp
        then show ?thesis
          using "1.IH" [OF True Some Inr hk [symmetric]] k True hk by fastforce
      qed
    qed
  next
    case False
    then show ?thesis
      using "1.prems" by (subst (asm) parse_loop.simps) simp
  qed
qed

text \<open>
  where hpack::parse is defined it returns 0 or -1, and it has pushed at most one header per
  octet of the block, so the length argument bounds the memory a block makes the server use.
\<close>

theorem hpack_parse_bounded:
  assumes "hpack_parse m n = Some (rc, hs)"
  shows "(rc = 0 \<or> rc = - 1) \<and> length hs \<le> n"
  using parse_loop_bound [of m n 0 "[]" rc hs] assms by (simp add: hpack_parse_def)

theorem hpack_parse_bounded_witness:
  "((0 :: int) = 0 \<or> (0 :: int) = - 1) \<and> length [mk_header type_indexed 2 [] []] \<le> 1"
proof (rule hpack_parse_bounded)
  have "set_top1 1 (ucast (2 :: u32)) = 0x82"
    by (simp add: set_top1_def)
  then have "parse_tag [0x82] = Some (Inr (mk_header type_indexed 2 [] [], 1))"
    using parse_indexed [of 2 "[]"] by simp
  then show "hpack_parse [0x82] 1 = Some (0, [mk_header type_indexed 2 [] []])"
    by (simp add: hpack_parse_def parse_loop.simps parse_field_def mk_header_def)
qed

lemma plain_string:
  assumes "length cs < 127"
  shows "rd_n (word_of_nat (length cs) # cs @ rest) 1 (length cs + 1) = None \<Longrightarrow>
      parse_string (word_of_nat (length cs) # cs @ rest) = None"
    and "rest \<noteq> [] \<Longrightarrow> parse_string (word_of_nat (length cs) # cs @ rest) = Some (Inr (cstr (of_bytes cs), Suc (length cs)))"
proof -
  let ?b = "word_of_nat (length cs) :: byte"
  have ub: "unat ?b = length cs"
    using assms by (simp add: unat_of_nat)
  have u: "(ucast ?b :: u32) = word_of_nat (length cs)"
    using assms by (simp add: word_unat_eq_iff unsigned_ucast_eq take_bit_nat_eq_self unat_of_nat)
  have ul: "unat (word_of_nat (length cs) :: u32) = length cs"
    using assms by (simp add: unat_of_nat)
  have "take_bit 7 (word_of_nat (length cs) :: u32) = word_of_nat (length cs)"
    using assms by (simp add: word_unat_eq_iff unsigned_take_bit_eq take_bit_nat_eq_self ul)
  then have m: "(ucast ?b :: u32) AND prefix_max 7 = word_of_nat (length cs)"
    unfolding u prefix_max_mask by (simp flip: take_bit_eq_mask)
  have "(word_of_nat (length cs) :: u32) \<noteq> prefix_max 7"
    using unat_prefix_max [of 7] ul assms by auto
  then have dec: "decode_http2_header_string (?b # x) = Some (1, word_of_nat (length cs), Some 1)" for x
    using m by (simp add: decode_http2_header_string_def decode_integer_def MAX_BYTES_OF_LENGTH_def rd_Cons_0 Let_def)
  have "unat (top1 ?b) = 0"
    using assms ub unfolding top1_def by (simp only: unat_drop_bit) simp
  then have h: "top1 ?b \<noteq> 1"
    by auto
  show "parse_string (?b # cs @ rest) = None" if "rd_n (?b # cs @ rest) 1 (length cs + 1) = None"
    using that dec h ul assms by (simp add: parse_string_def rd_Cons_0)
  show "parse_string (?b # cs @ rest) = Some (Inr (cstr (of_bytes cs), Suc (length cs)))" if "rest \<noteq> []"
    using that dec h ul assms by (cases rest) (simp_all add: parse_string_def rd_Cons_0 rd_n_def)
qed

text \<open>
  a literal value without Huffman coding that ends with the block is copied together with
  the octet behind the block: with an allocation of exactly the block's length this is a read
  outside it, with one octet more the field is parsed as it should be, and that octet is not used.
\<close>

theorem hpack_parse_reads_one_more:
  assumes "unat (w :: u32) < 63" and "0 < w" and "length cs < 127"
  shows "hpack_parse (set_top2 1 (ucast w) # word_of_nat (length cs) # cs) (length cs + 2) = None \<and>
    hpack_parse (set_top2 1 (ucast w) # word_of_nat (length cs) # cs @ [x]) (length cs + 2) =
      Some (0, [mk_header type_with_indexing_indexed_name w [] (cstr (of_bytes cs))])"
proof -
  have "rd_n (word_of_nat (length cs) # cs @ []) 1 (length cs + 1) = None"
    by (simp add: rd_n_def)
  then have out: "parse_string (word_of_nat (length cs) # cs) = None"
    using plain_string(1) [OF assms(3), of "[]"] by simp
  show ?thesis
    using parse_with_indexing [OF assms(1,2)] plain_string(2) [OF assms(3), of "[x]"] out assms(2)
    by (simp add: hpack_parse_def parse_loop.simps parse_field_def mk_header_def)
qed

theorem hpack_parse_reads_one_more_witness:
  "hpack_parse (set_top2 1 (ucast (4 :: u32)) # word_of_nat (length [0x2F :: byte]) # [0x2F]) (length [0x2F :: byte] + 2) = None \<and>
    hpack_parse (set_top2 1 (ucast (4 :: u32)) # word_of_nat (length [0x2F :: byte]) # [0x2F] @ [0]) (length [0x2F :: byte] + 2) =
      Some (0, [mk_header type_with_indexing_indexed_name 4 [] (cstr (of_bytes [0x2F]))])"
  by (rule hpack_parse_reads_one_more) simp_all

text \<open>
  for a literal field without indexing whose name is at index 15 or above, the parser decodes
  the index and then stores the four bits of the tag octet: every such field is taken for the
  name at index 15, while the encoded index decodes to itself.
\<close>

theorem without_indexing_index_lost:
  assumes "\<not> v < prefix_max 4" and "encode_http2_header_index 4 v = (k, bs)"
  shows "decode_http2_header_index (bs @ rest) 4 = Some (k, v) \<and>
    parse_tag (bs @ rest) = Some (Inr (mk_header type_without_indexing_indexed_name 15 [] [], nat k))"
proof -
  have enc: "encode_integer MAX_BYTES_OF_LENGTH v 4 = (k, bs)"
    using assms(2) by (simp add: encode_http2_header_index_def)
  then have c: "k = int (length bs) \<and> 1 \<le> length bs \<and> length bs \<le> 6 \<and> decode_integer 0 (bs @ rest) MAX_BYTES_OF_LENGTH 4 = Some (k, v)"
    by (intro integer_coded) (simp_all add: MAX_BYTES_OF_LENGTH_def)
  have "bs = ucast (prefix_max 4) # groups (v - prefix_max 4)"
    using encode_integer_cases(2) [of MAX_BYTES_OF_LENGTH v 4] assms(1) enc by (simp add: MAX_BYTES_OF_LENGTH_def)
  then have b: "rd (bs @ rest) 0 = Some 15"
    by (simp add: rd_Cons_0 prefix_max_def)
  have "top1 15 = 0" "top2 15 = 0" "top4 15 = 0" "low4 15 = 15"
    by (simp_all add: top1_def top2_def top4_def low4_def)
  then show ?thesis
    using c b by (simp add: parse_tag_def decode_http2_header_index_def)
qed

theorem without_indexing_index_lost_witness:
  "\<exists>k bs. encode_http2_header_index 4 31 = (k, bs) \<and> decode_http2_header_index (bs @ [1, 0x61]) 4 = Some (k, 31) \<and>
    parse_tag (bs @ [1, 0x61]) = Some (Inr (mk_header type_without_indexing_indexed_name 15 [] [], nat k))"
proof -
  obtain k bs where "encode_http2_header_index 4 31 = (k, bs)"
    by fastforce
  moreover have "\<not> (31 :: u32) < prefix_max 4"
    by (simp add: prefix_max_def)
  ultimately show ?thesis
    using without_indexing_index_lost by blast
qed

lemma header_lines_stop: "header_lines tok (a @ [CHR 0x0A, CHR 0x0A] @ b) = header_lines tok (a @ [CHR 0x0A])"
  by (induction tok a rule: header_lines.induct) auto

text \<open>
  an empty line inside the text ends the header list: whatever follows two line feeds in a row
  is not sent.
\<close>

theorem hpack_build_stops:
  "hpack_build (a @ [CHR 0x0A, CHR 0x0A] @ b) t = hpack_build (a @ [CHR 0x0A]) t"
  unfolding hpack_build_def header_lines_stop ..

end
