(* ===== verification/Http2comm.thy ===== *)
theory Http2comm
  imports Prelude
begin

section \<open>Frames on the wire (src/src/http2comm.h, src/src/http2comm.cpp)\<close>

text \<open>
  The packed structures of the frame header and of the payloads. Their bit fields are laid out by
  a little-endian compiler from the least significant bit on: in the 32-bit word at octet 5 of a
  frame header the one-bit field \<open>r\<close> is bit 0 and \<open>identifier\<close> the 31 bits above, and
  the code shifts the byte-swapped identifier by one to fill it.
\<close>

subsection \<open>Byte order\<close>

definition bytes_le32 :: "u32 \<Rightarrow> bytes" where
  "bytes_le32 w = [ucast w, ucast (drop_bit 8 w), ucast (drop_bit 16 w), ucast (drop_bit 24 w)]"

definition le32 :: "byte \<Rightarrow> byte \<Rightarrow> byte \<Rightarrow> byte \<Rightarrow> u32" where
  "le32 b0 b1 b2 b3 = ucast b0 OR push_bit 8 (ucast b1) OR push_bit 16 (ucast b2) OR push_bit 24 (ucast b3)"

definition be32 :: "u32 \<Rightarrow> bytes" where
  "be32 w = [ucast (drop_bit 24 w), ucast (drop_bit 16 w), ucast (drop_bit 8 w), ucast w]"

definition be24 :: "u32 \<Rightarrow> bytes" where
  "be24 w = [ucast (drop_bit 16 w), ucast (drop_bit 8 w), ucast w]"

text \<open>\<open>htonl\<close> and \<open>ntohl\<close>, \<open>htons\<close> and \<open>ntohs\<close> on a little-endian machine.\<close>

definition htonl :: "u32 \<Rightarrow> u32" where
  "htonl w = le32 (ucast (drop_bit 24 w)) (ucast (drop_bit 16 w)) (ucast (drop_bit 8 w)) (ucast w)"

definition htons :: "u16 \<Rightarrow> u16" where
  "htons w = ucast (ucast (drop_bit 8 w) :: byte) OR push_bit 8 (ucast (ucast w :: byte))"

text \<open>The bit fields \<open>r : 1\<close> and \<open>identifier : 31\<close> (or \<open>e\<close> and \<open>dependency\<close>) in one word.\<close>

definition pack_r :: "u32 \<Rightarrow> u32 \<Rightarrow> u32" where
  "pack_r r identifier = (r AND 1) OR push_bit 1 identifier"

definition field_r :: "u32 \<Rightarrow> u32" where
  "field_r w = w AND 1"

definition field_31 :: "u32 \<Rightarrow> u32" where
  "field_31 w = drop_bit 1 w"

subsection \<open>The frame header\<close>

record HTTP2_Frame =
  len24 :: u32
  frm_type :: byte
  flags :: byte
  r_ident :: u32

definition sizeof_HTTP2_Frame :: nat where
  "sizeof_HTTP2_Frame = 9"

definition http2_set_length :: "u32 \<Rightarrow> HTTP2_Frame \<Rightarrow> HTTP2_Frame" where
  "http2_set_length n f = f\<lparr> len24 := take_bit 24 (drop_bit 8 (htonl n)) \<rparr>"

definition http2_set_identifier :: "u32 \<Rightarrow> HTTP2_Frame \<Rightarrow> HTTP2_Frame" where
  "http2_set_identifier i f = f\<lparr> r_ident := pack_r (field_r (r_ident f)) (drop_bit 1 (htonl i)) \<rparr>"

definition http2_get_length :: "HTTP2_Frame \<Rightarrow> u32" where
  "http2_get_length f = htonl (push_bit 8 (len24 f))"

definition http2_get_identifier :: "HTTP2_Frame \<Rightarrow> u32" where
  "http2_get_identifier f = htonl (push_bit 1 (field_31 (r_ident f)))"

text \<open>The frame header a sender fills in: length, type, flags, \<open>r = 0\<close> and the stream.\<close>

definition frame_header :: "u32 \<Rightarrow> byte \<Rightarrow> byte \<Rightarrow> u32 \<Rightarrow> HTTP2_Frame" where
  "frame_header n t fl i =
     http2_set_identifier i (http2_set_length n \<lparr> len24 = 0, frm_type = t, flags = fl, r_ident = 0 \<rparr>)"

definition frame_bytes :: "HTTP2_Frame \<Rightarrow> bytes" where
  "frame_bytes f = take 3 (bytes_le32 (len24 f)) @ [frm_type f, flags f] @ bytes_le32 (r_ident f)"

fun read_frame :: "bytes \<Rightarrow> HTTP2_Frame outcome" where
  "read_frame [a, b, c, t, fl, i0, i1, i2, i3] =
     Some \<lparr> len24 = le32 a b c 0, frm_type = t, flags = fl, r_ident = le32 i0 i1 i2 i3 \<rparr>"
| "read_frame _ = None"

text \<open>How \<open>ProtRecv\<close> reads the two numbers.\<close>

definition recv_payload_len :: "HTTP2_Frame \<Rightarrow> u32" where
  "recv_payload_len f = htonl (push_bit 8 (len24 f)) AND 0x00FFFFFF"

definition recv_31 :: "u32 \<Rightarrow> u32" where
  "recv_31 w = htonl (push_bit 1 (field_31 w)) AND 0x7FFFFFFF"

definition recv_stream_ind :: "HTTP2_Frame \<Rightarrow> u32" where
  "recv_stream_ind f = recv_31 (r_ident f)"

lemma bit_byte_less: "bit (b :: byte) n \<Longrightarrow> n < 8"
  using bit_imp_le_length [of b n] by simp

lemma bit_le32:
  "bit (le32 a b c d) n \<longleftrightarrow>
     (if n < 8 then bit a n else if n < 16 then bit b (n - 8) else if n < 24 then bit c (n - 16) else bit d (n - 24))"
proof (cases "n < 32")
  case True
  then show ?thesis
    using bit_byte_less [of a n] bit_byte_less [of b "n - 8"] bit_byte_less [of c "n - 16"]
    by (auto simp: le32_def bit_simps)
next
  case False
  then show ?thesis
    using bit_byte_less [of d "n - 24"] bit_imp_le_length [of "le32 a b c d" n] by auto
qed

lemma le32_byte:
  "ucast (le32 a b c d) = a" "ucast (drop_bit 8 (le32 a b c d)) = b"
  "ucast (drop_bit 16 (le32 a b c d)) = c" "ucast (drop_bit 24 (le32 a b c d)) = d"
  by (rule bit_word_eqI; simp add: bit_simps bit_le32)+

lemma bytes_le32_le32 [simp]: "bytes_le32 (le32 a b c d) = [a, b, c, d]"
  by (simp add: bytes_le32_def le32_byte)

lemma le32_bytes_le32 [simp]: "le32 (ucast w) (ucast (drop_bit 8 w)) (ucast (drop_bit 16 w)) (ucast (drop_bit 24 w)) = w"
proof (rule bit_word_eqI)
  fix n
  assume "n < LENGTH(32)"
  then consider "n < 8" | "8 \<le> n \<and> n < 16" | "16 \<le> n \<and> n < 24" | "24 \<le> n \<and> n < 32"
    by fastforce
  then show "bit (le32 (ucast w) (ucast (drop_bit 8 w)) (ucast (drop_bit 16 w)) (ucast (drop_bit 24 w))) n = bit w n"
    by cases (auto simp: bit_le32 bit_simps)
qed

lemma length_bytes_le32 [simp]: "length (bytes_le32 w) = 4"
  by (simp add: bytes_le32_def)

lemma length_frame_bytes [simp]: "length (frame_bytes f) = sizeof_HTTP2_Frame"
  by (simp add: frame_bytes_def sizeof_HTTP2_Frame_def)

lemma length_be32 [simp]: "length (be32 w) = 4"
  by (simp add: be32_def)

lemma htons_htons [simp]: "htons (htons w) = w"
  by (rule bit_word_eqI) (auto simp: htons_def bit_simps)

lemma bytes_le32_htonl [simp]: "bytes_le32 (htonl w) = be32 w"
  by (simp add: htonl_def be32_def)

lemma htonl_htonl [simp]: "htonl (htonl w) = w"
  by (simp add: htonl_def [of "htonl w"]) (simp add: htonl_def le32_byte)

text \<open>What the bit-field layout does to an identifier: the bit for \<open>r\<close> is bit 24 of the number.\<close>

lemma bit_htonl:
  "bit (htonl w) n \<longleftrightarrow> (if n < 8 then bit w (n + 24) else if n < 16 then bit w (n + 8)
     else if n < 24 then bit w (n - 8) else n < 32 \<and> bit w (n - 24))"
  by (auto simp: htonl_def bit_le32 bit_simps add.commute)

lemma bit_push_1: "bit (push_bit 1 (w :: u32)) n \<longleftrightarrow> 1 \<le> n \<and> n < 32 \<and> bit w (n - 1)"
  by (simp only: bit_push_bit_iff possible_bit_word) auto

lemma bit_drop_1: "bit (drop_bit 1 (w :: u32)) n \<longleftrightarrow> bit w (Suc n)"
  by (simp only: bit_drop_bit_eq comp_def) simp

lemma bit_one_word: "bit (1 :: u32) n \<longleftrightarrow> n = 0"
  by (simp add: bit_1_iff)

lemma bit_pack_r: "bit (pack_r r x) n \<longleftrightarrow> (n = 0 \<and> bit r 0) \<or> (1 \<le> n \<and> n < 32 \<and> bit x (n - 1))"
  by (auto simp only: pack_r_def bit_or_iff bit_and_iff bit_push_1 bit_one_word)

lemma push_field_31: "push_bit 1 (field_31 w) = w AND NOT 1"
proof (rule bit_word_eqI)
  fix n
  assume "n < LENGTH(32)"
  then have "n < 32"
    by simp
  then show "bit (push_bit 1 (field_31 w)) n = bit (w AND NOT 1) n"
    using \<open>n < LENGTH(32)\<close>
    by (cases n) (auto simp only: field_31_def bit_push_1 bit_drop_1 bit_and_iff bit_not_iff bit_one_word
        possible_bit_word diff_Suc_1)
qed

lemma field_31_pack: "push_bit 1 (field_31 (pack_r r (drop_bit 1 w))) = w AND NOT 1"
proof (rule bit_word_eqI)
  fix n
  assume "n < LENGTH(32)"
  then have "n < 32"
    by simp
  then show "bit (push_bit 1 (field_31 (pack_r r (drop_bit 1 w)))) n = bit (w AND NOT 1) n"
    using \<open>n < LENGTH(32)\<close>
    by (cases n) (auto simp only: field_31_def bit_push_1 bit_drop_1 bit_pack_r bit_and_iff bit_not_iff bit_one_word
        possible_bit_word diff_Suc_1)
qed

lemma bit_2_24 [byte_simps]: "bit (16777216 :: int) n \<longleftrightarrow> n = 24"
  using bit_pow_int [of 24 n] by simp

lemma recv_pack: "recv_31 (pack_r r (drop_bit 1 (htonl i))) = i AND 0x7EFFFFFF"
proof -
  have m: "(0x7EFFFFFF :: u32) = NOT (push_bit 24 1) AND mask 31"
    by (simp add: mask_eq_exp_minus_1)
  have f: "push_bit 1 (field_31 (pack_r r (drop_bit 1 (htonl i)))) = htonl i AND NOT 1"
    by (rule field_31_pack)
  have e: "htonl (htonl i AND NOT 1) = i AND NOT (push_bit 24 1)"
    by (rule bit_word_eqI) (auto simp: bit_simps bit_htonl bit_1_iff byte_simps)
  have k: "(0x7FFFFFFF :: u32) = mask 31"
    by (simp add: mask_eq_exp_minus_1)
  show ?thesis
    unfolding recv_31_def f e m k by (simp add: and.assoc)
qed


text \<open>The word on the wire is the identifier in network order, with bit 24 cleared.\<close>

lemma wire_pack: "bytes_le32 (pack_r 0 (drop_bit 1 (htonl i))) = be32 (i AND NOT (push_bit 24 1))"
proof -
  have "pack_r 0 (drop_bit 1 (htonl i)) = htonl (i AND NOT (push_bit 24 1))"
  proof (rule bit_word_eqI)
    fix n
    assume "n < LENGTH(32)"
    then show "bit (pack_r 0 (drop_bit 1 (htonl i))) n = bit (htonl (i AND NOT (push_bit 24 1))) n"
      by (auto simp: bit_pack_r bit_drop_1 bit_htonl bit_simps byte_simps add.commute)
  qed
  then show ?thesis
    by simp
qed

lemma recv_be32: "recv_31 (le32 (ucast (drop_bit 24 i)) (ucast (drop_bit 16 i)) (ucast (drop_bit 8 i)) (ucast i)) = i AND 0x7EFFFFFF"
proof -
  have "recv_31 (htonl i) = recv_31 (pack_r (htonl i) (drop_bit 1 (htonl i)))"
    unfolding recv_31_def by (simp only: field_31_pack) (simp only: push_field_31)
  then have "recv_31 (htonl i) = i AND 0x7EFFFFFF"
    by (simp only: recv_pack)
  then show ?thesis
    by (simp only: htonl_def)
qed

subsection \<open>The header round trip\<close>

lemma len24_bits: "take_bit 24 (drop_bit 8 (htonl n)) = le32 (ucast (drop_bit 16 n)) (ucast (drop_bit 8 n)) (ucast n) 0"
  by (rule bit_word_eqI) (auto simp: bit_simps bit_htonl bit_le32)

lemma recv_len: "unat n < 2 ^ 24 \<Longrightarrow> htonl (push_bit 8 (take_bit 24 (drop_bit 8 (htonl n)))) AND 0x00FFFFFF = n"
proof -
  assume "unat n < 2 ^ 24"
  then have n: "take_bit 24 n = n"
    by (simp add: word_unat_eq_iff unsigned_take_bit_eq take_bit_nat_eq_self)
  have m: "(0x00FFFFFF :: u32) = mask 24"
    by (simp add: mask_eq_exp_minus_1)
  have "htonl (push_bit 8 (take_bit 24 (drop_bit 8 (htonl n)))) AND mask 24 = take_bit 24 n"
    unfolding m by (rule bit_word_eqI) (auto simp: bit_simps bit_htonl)
  then show ?thesis
    using n m by simp
qed

lemma frame_header_fields [simp]:
  "frm_type (frame_header n t fl i) = t" "flags (frame_header n t fl i) = fl"
  "r_ident (frame_header n t fl i) = pack_r 0 (drop_bit 1 (htonl i))"
  "len24 (frame_header n t fl i) = take_bit 24 (drop_bit 8 (htonl n))"
  by (simp_all add: frame_header_def http2_set_identifier_def http2_set_length_def field_r_def)

lemma frame_bytes_header:
  "frame_bytes (frame_header n t fl i) = be24 n @ [t, fl] @ be32 (i AND NOT (push_bit 24 1))"
  by (simp only: frame_bytes_def frame_header_fields wire_pack len24_bits bytes_le32_le32) (simp add: be24_def)

lemma read_frame_bytes: "unat (len24 f) < 2 ^ 24 \<Longrightarrow> read_frame (frame_bytes f) = Some f"
proof -
  assume "unat (len24 f) < 2 ^ 24"
  then have n: "take_bit 24 (len24 f) = len24 f"
    by (simp add: word_unat_eq_iff unsigned_take_bit_eq take_bit_nat_eq_self)
  have "le32 (ucast (len24 f)) (ucast (drop_bit 8 (len24 f))) (ucast (drop_bit 16 (len24 f))) 0 = take_bit 24 (len24 f)"
    by (rule bit_word_eqI) (auto simp: bit_simps bit_le32)
  then show ?thesis
    by (simp add: frame_bytes_def bytes_le32_def n)
qed

lemma len24_small: "unat (take_bit 24 (w :: u32)) < 2 ^ 24"
  by (metis take_bit_nat_less_exp unsigned_take_bit_eq)

lemma header_received:
  assumes "unat n < 2 ^ 24"
  shows "read_frame (frame_bytes (frame_header n t fl i)) = Some (frame_header n t fl i)"
    and "recv_payload_len (frame_header n t fl i) = n"
    and "recv_stream_ind (frame_header n t fl i) = i AND 0x7EFFFFFF"
proof -
  show "read_frame (frame_bytes (frame_header n t fl i)) = Some (frame_header n t fl i)"
    by (rule read_frame_bytes) (simp only: frame_header_fields len24_small)
  show "recv_payload_len (frame_header n t fl i) = n"
    using recv_len [OF assms] by (simp only: recv_payload_len_def frame_header_fields)
  show "recv_stream_ind (frame_header n t fl i) = i AND 0x7EFFFFFF"
    by (simp only: recv_stream_ind_def frame_header_fields recv_pack)
qed

lemma small_ident:
  fixes i :: u32
  assumes "unat i < 2 ^ 24"
  shows "i AND 0x7EFFFFFF = i" and "i AND NOT (push_bit 24 1) = i"
proof -
  have "take_bit 24 i = i"
    using assms by (simp add: word_unat_eq_iff unsigned_take_bit_eq take_bit_nat_eq_self)
  then have b: "bit i n \<Longrightarrow> n < 24" for n
    by (metis bit_take_bit_iff)
  show e: "i AND NOT (push_bit 24 1) = i"
    by (rule bit_word_eqI) (auto simp: bit_simps byte_simps dest: b)
  have m: "(0x7EFFFFFF :: u32) = NOT (push_bit 24 1) AND mask 31"
    by (simp add: mask_eq_exp_minus_1)
  have "i AND mask 31 = i"
    by (rule bit_word_eqI) (auto simp: bit_simps dest: b)
  then show "i AND 0x7EFFFFFF = i"
    using e unfolding m by (simp add: and.assoc [symmetric])
qed

text \<open>
  the frame header round trip. For a length below 2^24 and a stream identifier below 2^24 the
  nine octets the server sends are the network-order fields of the protocol, and reading them
  back gives the same length, type, flags and stream.
\<close>

theorem frame_header_round_trip:
  assumes "unat n < 2 ^ 24" and "unat i < 2 ^ 24"
  shows "frame_bytes (frame_header n t fl i) = be24 n @ [t, fl] @ be32 i \<and>
    (\<exists>f. read_frame (frame_bytes (frame_header n t fl i)) = Some f \<and> recv_payload_len f = n \<and>
       frm_type f = t \<and> flags f = fl \<and> recv_stream_ind f = i)"
  using frame_bytes_header [of n t fl i] header_received [OF assms(1), of t fl i] small_ident [OF assms(2)]
  by simp

theorem frame_header_round_trip_witness:
  "frame_bytes (frame_header 8 0 9 3) = be24 8 @ [0, 9] @ be32 3 \<and>
    (\<exists>f. read_frame (frame_bytes (frame_header 8 0 9 3)) = Some f \<and> recv_payload_len f = 8 \<and>
       frm_type f = 0 \<and> flags f = 9 \<and> recv_stream_ind f = 3)"
  by (rule frame_header_round_trip) simp_all

lemma received_be32: "read_frame (be24 n @ [t, fl] @ be32 i) = Some f \<Longrightarrow> recv_stream_ind f = i AND 0x7EFFFFFF"
  using recv_be32 [of i] by (auto simp: be24_def be32_def recv_stream_ind_def)

text \<open>
  the layout of the bit fields puts the reserved bit at bit 24 of the identifier instead of
  bit 31. The identifier of a frame in network order is read with that bit cleared, so two streams
  whose identifiers differ only there are one stream to the server, and the 31-bit window increment
  2^31 - 1, which has the same layout, arrives as 0x7EFFFFFF.
\<close>

theorem ident_bit_24_lost:
  assumes "read_frame (be24 n @ [t, fl] @ be32 i) = Some f" and "read_frame (be24 n @ [t, fl] @ be32 (i XOR push_bit 24 1)) = Some g"
  shows "recv_stream_ind f = i AND 0x7EFFFFFF \<and> recv_stream_ind g = recv_stream_ind f \<and>
    recv_31 (pack_r 0 (drop_bit 1 (htonl 0x7FFFFFFF))) = 0x7EFFFFFF"
proof -
  have f: "recv_stream_ind f = i AND 0x7EFFFFFF" and g: "recv_stream_ind g = (i XOR push_bit 24 1) AND 0x7EFFFFFF"
    using received_be32 [OF assms(1)] received_be32 [OF assms(2)] by simp_all
  have m: "(0x7EFFFFFF :: u32) = NOT (push_bit 24 1) AND mask 31"
    by (simp add: mask_eq_exp_minus_1)
  have "(i XOR push_bit 24 1) AND 0x7EFFFFFF = i AND 0x7EFFFFFF"
    unfolding m by (rule bit_word_eqI) (auto simp: bit_simps byte_simps)
  with f g show ?thesis
    by (simp only: recv_pack) simp
qed

theorem ident_bit_24_lost_witness:
  "recv_stream_ind \<lparr> len24 = 0, frm_type = 1, flags = 4, r_ident = 0x03000001 \<rparr> = 0x01000003 AND 0x7EFFFFFF \<and>
   recv_stream_ind \<lparr> len24 = 0, frm_type = 1, flags = 4, r_ident = 0x03000000 \<rparr> =
     recv_stream_ind \<lparr> len24 = 0, frm_type = 1, flags = 4, r_ident = 0x03000001 \<rparr> \<and>
   recv_31 (pack_r 0 (drop_bit 1 (htonl 0x7FFFFFFF))) = 0x7EFFFFFF"
  by (rule ident_bit_24_lost [of 0 1 4]) (simp_all add: be24_def be32_def le32_def)

end
