(* ===== verification/Stdmap.thy ===== *)
theory Stdmap
  imports Prelude
begin

section \<open>Ordered maps (\<open>std::map\<close>)\<close>

text \<open>
  A \<open>std::map\<close> is a list of pairs with strictly increasing keys, so that an iteration of the
  source is a recursion over the list. The interface its clients (the stream list, the header
  tables, the status names) rely on is the locale \<open>std_map\<close>; it is interpreted on the list
  operations at the end.
\<close>

type_synonym ('k, 'v) stdmap = "('k \<times> 'v) list"

definition keys_ok :: "('k::linorder, 'v) stdmap \<Rightarrow> bool" where
  "keys_ok m \<longleftrightarrow> sorted_wrt (<) (map fst m)"

fun mfind :: "('k, 'v) stdmap \<Rightarrow> 'k \<Rightarrow> 'v option" where
  "mfind [] k = None"
| "mfind ((j, v) # m) k = (if j = k then Some v else mfind m k)"

text \<open>\<open>m[k] = v\<close>\<close>

fun mput :: "'k::linorder \<Rightarrow> 'v \<Rightarrow> ('k, 'v) stdmap \<Rightarrow> ('k, 'v) stdmap" where
  "mput k v [] = [(k, v)]"
| "mput k v ((j, w) # m) =
     (if k < j then (k, v) # (j, w) # m else if k = j then (k, v) # m else (j, w) # mput k v m)"

text \<open>\<open>m.insert(value_type(k, v))\<close>: nothing happens when the key is there.\<close>

definition minsert :: "'k::linorder \<Rightarrow> 'v \<Rightarrow> ('k, 'v) stdmap \<Rightarrow> ('k, 'v) stdmap \<times> bool" where
  "minsert k v m = (case mfind m k of Some _ \<Rightarrow> (m, False) | None \<Rightarrow> (mput k v m, True))"

definition merase :: "'k \<Rightarrow> ('k, 'v) stdmap \<Rightarrow> ('k, 'v) stdmap" where
  "merase k m = filter (\<lambda>(j, v). j \<noteq> k) m"

text \<open>Changing the value at a key that is there.\<close>

definition mmap :: "'k \<Rightarrow> ('v \<Rightarrow> 'v) \<Rightarrow> ('k, 'v) stdmap \<Rightarrow> ('k, 'v) stdmap" where
  "mmap k f m = map (\<lambda>(j, v). (j, if j = k then f v else v)) m"

lemma mfind_map_of: "mfind m k = map_of m k"
  by (induction m) auto

lemma mfind_in_set: "mfind m k = Some v \<Longrightarrow> (k, v) \<in> set m"
  by (simp add: mfind_map_of map_of_SomeD)

lemma mfind_None: "mfind m k = None \<longleftrightarrow> k \<notin> fst ` set m"
  by (simp add: mfind_map_of map_of_eq_None_iff)

lemma in_set_mfind: "keys_ok m \<Longrightarrow> (k, v) \<in> set m \<Longrightarrow> mfind m k = Some v"
proof (induction m)
  case (Cons x m)
  then show ?case
    by (cases x) (force simp: keys_ok_def)
qed simp

lemma keys_mput: "fst ` set (mput k v m) = insert k (fst ` set m)"
  by (induction k v m rule: mput.induct) auto

lemma mfind_mput [simp]: "mfind (mput k v m) j = (if j = k then Some v else mfind m j)"
  by (induction k v m rule: mput.induct) auto

lemma keys_ok_mput [simp]: "keys_ok m \<Longrightarrow> keys_ok (mput k v m)"
proof (induction k v m rule: mput.induct)
  case (2 k v j w m)
  have "set (map fst (mput k v m)) = insert k (set (map fst m))"
    using keys_mput [of k v m] by simp
  with 2 show ?case
    by (auto simp only: keys_ok_def mput.simps list.map sorted_wrt.simps fst_conv split: if_splits)
      (auto intro: less_trans)
qed (simp add: keys_ok_def)

lemma mfind_merase [simp]: "mfind (merase k m) j = (if j = k then None else mfind m j)"
  by (induction m) (auto simp: merase_def)

lemma keys_ok_merase [simp]: "keys_ok m \<Longrightarrow> keys_ok (merase k m)"
  by (induction m) (auto simp: keys_ok_def merase_def)

lemma mfind_mmap [simp]: "mfind (mmap k f m) j = (if j = k then map_option f (mfind m j) else mfind m j)"
  by (induction m) (auto simp: mmap_def)

lemma keys_mmap [simp]: "map fst (mmap k f m) = map fst m"
  by (induction m) (auto simp: mmap_def)

lemma keys_ok_mmap [simp]: "keys_ok (mmap k f m) = keys_ok m"
  by (simp add: keys_ok_def)

lemma length_mmap [simp]: "length (mmap k f m) = length m"
  by (simp add: mmap_def)

lemma length_mput: "length (mput k v m) = (if mfind m k = None then Suc (length m) else length m)" if "keys_ok m"
  using that
proof (induction k v m rule: mput.induct)
  case (2 k v j w m)
  have "k < j \<Longrightarrow> mfind m k = None"
    using "2.prems" by (auto simp: mfind_None keys_ok_def)
  with 2 show ?case
    by (auto simp: keys_ok_def)
qed simp

lemma length_merase: "keys_ok m \<Longrightarrow> mfind m k = Some v \<Longrightarrow> Suc (length (merase k m)) = length m"
proof (induction m)
  case (Cons x m)
  obtain j w where x: "x = (j, w)" by fastforce
  have "merase j m = m"
    using Cons.prems(1) by (auto simp: merase_def keys_ok_def x filter_id_conv)
  with Cons show ?case
    by (auto simp: x merase_def keys_ok_def split: if_splits)
qed simp

lemma keys_ok_ext:
  assumes "keys_ok m" and "keys_ok m'" and "\<And>k. mfind m k = mfind m' k"
  shows "m = m'"
proof -
  have "set (map fst m) = set (map fst m')"
    using assms(3) by (metis list.set_map mfind_None subsetI subset_antisym)
  then have k: "map fst m = map fst m'"
    using assms(1,2) unfolding keys_ok_def by (metis sorted_list_of_set_unique strict_sorted_iff
        sorted_list_of_set.idem_if_sorted_distinct)
  have r: "x = map (\<lambda>k. (k, the (mfind x k))) (map fst x)" if "keys_ok x" for x :: "('a \<times> 'b) list"
  proof -
    have "map (\<lambda>p. (fst p, the (mfind x (fst p)))) x = x"
      using in_set_mfind [OF that] by (intro map_idI) (metis option.sel prod.collapse)
    then show ?thesis
      by (simp add: comp_def)
  qed
  have "m = map (\<lambda>k. (k, the (mfind m k))) (map fst m)"
    by (rule r [OF assms(1)])
  also have "\<dots> = map (\<lambda>k. (k, the (mfind m' k))) (map fst m')"
    by (simp only: k assms(3))
  also have "\<dots> = m'"
    by (rule r [OF assms(2), symmetric])
  finally show ?thesis .
qed

lemma merase_mmap: "merase j (mmap j f m) = merase j m"
  by (induction m) (auto simp: merase_def mmap_def)

subsection \<open>The interface\<close>

locale std_map =
  fixes look :: "'m \<Rightarrow> 'k \<Rightarrow> 'v option"
    and put :: "'k \<Rightarrow> 'v \<Rightarrow> 'm \<Rightarrow> 'm"
    and erase :: "'k \<Rightarrow> 'm \<Rightarrow> 'm"
    and ok :: "'m \<Rightarrow> bool"
    and size_of_map :: "'m \<Rightarrow> nat"
  assumes look_put: "look (put k v m) j = (if j = k then Some v else look m j)"
    and look_erase: "look (erase k m) j = (if j = k then None else look m j)"
    and ok_put: "ok m \<Longrightarrow> ok (put k v m)"
    and ok_erase: "ok m \<Longrightarrow> ok (erase k m)"
    and size_put: "ok m \<Longrightarrow> size_of_map (put k v m) = size_of_map m + (if look m k = None then 1 else 0)"
    and size_erase: "ok m \<Longrightarrow> look m k = Some v \<Longrightarrow> size_of_map (erase k m) + 1 = size_of_map m"
begin

text \<open>Making room and inserting keeps the size: what the bound on the open streams rests on.\<close>

lemma replace_size:
  assumes "ok m" and "look m j = Some w" and "look m k = None"
  shows "size_of_map (put k v (erase j m)) = size_of_map m"
proof -
  have "look (erase j m) k = None"
    using assms(3) by (simp add: look_erase)
  then show ?thesis
    using size_put [OF ok_erase [OF assms(1)], of k v j] size_erase [OF assms(1,2)] by simp
qed

lemma look_other: "j \<noteq> k \<Longrightarrow> look (put k v m) j = look m j"
  by (simp add: look_put)

lemma put_twice: "look (put k v (put k w m)) = look (put k v m)"
  by (rule ext) (simp add: look_put)

lemma erase_put: "look (erase k (put k v m)) = look (erase k m)"
  by (rule ext) (simp add: look_put look_erase)

end

interpretation stdmap: std_map mfind mput merase "keys_ok :: ('k::linorder, 'v) stdmap \<Rightarrow> bool" length
proof
  fix m :: "('k, 'v) stdmap" and k v
  show "keys_ok m \<Longrightarrow> length (mput k v m) = length m + (if mfind m k = None then 1 else 0)"
    by (simp add: length_mput)
  show "keys_ok m \<Longrightarrow> mfind m k = Some v \<Longrightarrow> length (merase k m) + 1 = length m"
    by (simp add: length_merase)
qed simp_all

end
