(* ===== verification/Http2conn.thy ===== *)
theory Http2conn
  imports Hpack Http2comm Stdmap
begin

section \<open>The connection and its streams (src/src/http2stream.h, http2stream.cpp, http2.h, http2.cpp)\<close>

text \<open>
  The state of \<open>CHttp2\<close> and of \<open>http2_stream\<close>, the operations on a stream's windows,
  dependency and state, and the frames the server sends. The socket is a list of octets to come
  and the list of buffers sent; \<open>net_up\<close> says whether a send still succeeds. Each stream owns a
  \<open>CHttp\<close> object, the HTTP/1.1 side of the server, which is an argument here: its methods are
  the record \<open>h1_ops\<close>, and a method that answers on the connection says so by the calls it
  makes, the type \<open>h1_call\<close>. The theorems hold for every such record.
\<close>

subsection \<open>Streams\<close>

datatype stream_state_e =
    stream_idle | stream_reserved_local | stream_reserved_remote | stream_open
  | stream_half_closed_remote | stream_half_closed_local | stream_closed

datatype Http_Method = hmOptions | hmGet | hmHead | hmPost | hmPut | hmDelete | hmTrace | hmConnect

datatype h1_call =
    SendHeader string
  | SendContent bytes
  | SendEmptyContent
  | SendPushPromiseResponses
  | CallPushPromise string

record 'h h1_ops =
  op_new :: "u32 \<Rightarrow> 'h"
  op_LineParse :: "'h \<Rightarrow> string \<Rightarrow> ('h \<times> h1_call list) outcome"
  op_PushPostData :: "'h \<Rightarrow> bytes \<Rightarrow> int \<Rightarrow> ('h \<times> bool) outcome"
  op_Response :: "'h \<Rightarrow> 'h \<times> h1_call list"
  op_GetMethod :: "'h \<Rightarrow> Http_Method"
  op_GetRequestField :: "'h \<Rightarrow> string \<Rightarrow> string"
  op_PushPromiseList :: "'h \<Rightarrow> string list"

text \<open>The two window sizes are \<open>int\<close>s: 32-bit words read with \<open>sint\<close>.\<close>

record 'h http2_stream =
  m_path :: string
  m_method :: string
  m_authority :: string
  m_scheme :: string
  m_http1 :: 'h
  m_hpack :: "HTTP2_Header list option"
  m_push_promise_trigger_header :: string
  m_dependency_stream :: u32
  m_priority_weight :: u32
  m_stream_state :: stream_state_e
  m_peer_window_size :: u32
  m_local_window_size :: u32
  m_last_used_time :: nat

subsection \<open>The connection\<close>

datatype Http2_State = http2Prefix | http2Header | http2Payload

text \<open>
  What a read of the socket that does not block gives: octets (none when the peer has closed), \<open>EAGAIN\<close>,
  or another error. The asynchronous build collects them in \<open>m_async_recv_buf\<close>, which is \<open>net_in\<close>
  there; in the synchronous build \<open>net_in\<close> is all the peer sends until it closes.
\<close>

datatype recv_event = Chunk bytes | Would_block | Recv_failed

record 'h CHttp2 =
  m_stream_list :: "(u32, 'h http2_stream option) stdmap"
  m_header_dynamic_table :: "(nat, string \<times> string) stdmap"
  m_header_table_size :: u32
  m_enable_push :: bool
  m_max_concurrent_streams :: u32
  m_initial_local_window_size :: u32
  m_initial_peer_window_size :: u32
  m_local_control_window_size :: u32
  m_peer_control_window_size :: u32
  m_max_frame_size :: u32
  m_max_header_list_size :: u32
  m_pushed_request :: bool
  m_pushed_response :: bool
  m_http2_push_list :: "string list"
  m_http2_state :: Http2_State
  m_frame_hdr :: bytes
  m_frame_hdr_valid_len :: nat
  m_payload :: "bytes option"
  m_payload_valid_len :: nat
  net_events :: "recv_event list"
  net_in :: bytes
  net_out :: "bytes list"
  net_up :: bool
  clock :: nat

definition HTTP2_MAX_WINDOW_SIZE :: u32 where "HTTP2_MAX_WINDOW_SIZE = 0x7FFFFFFF"
definition HTTP2_DEFAULT_WINDOW_SIZE :: u32 where "HTTP2_DEFAULT_WINDOW_SIZE = 65535"
definition HTTP2_DATA_PADDING_LEN :: u32 where "HTTP2_DATA_PADDING_LEN = 8"

definition FRAME_DATA :: byte where "FRAME_DATA = 0x00"
definition FRAME_HEADERS :: byte where "FRAME_HEADERS = 0x01"
definition FRAME_PRIORITY :: byte where "FRAME_PRIORITY = 0x02"
definition FRAME_RST_STREAM :: byte where "FRAME_RST_STREAM = 0x03"
definition FRAME_SETTINGS :: byte where "FRAME_SETTINGS = 0x04"
definition FRAME_PUSH_PROMISE :: byte where "FRAME_PUSH_PROMISE = 0x05"
definition FRAME_PING :: byte where "FRAME_PING = 0x06"
definition FRAME_GOAWAY :: byte where "FRAME_GOAWAY = 0x07"
definition FRAME_WINDOW_UPDATE :: byte where "FRAME_WINDOW_UPDATE = 0x08"
definition FRAME_CONTINUATION :: byte where "FRAME_CONTINUATION = 0x09"

lemmas frame_types = FRAME_DATA_def FRAME_HEADERS_def FRAME_PRIORITY_def FRAME_RST_STREAM_def
  FRAME_SETTINGS_def FRAME_PUSH_PROMISE_def FRAME_PING_def FRAME_GOAWAY_def FRAME_WINDOW_UPDATE_def
  FRAME_CONTINUATION_def

definition NO_ERROR :: u32 where "NO_ERROR = 0x00"
definition PROTOCOL_ERROR :: u32 where "PROTOCOL_ERROR = 0x01"
definition STREAM_CLOSED :: u32 where "STREAM_CLOSED = 0x05"
definition COMPRESSION_ERROR :: u32 where "COMPRESSION_ERROR = 0x09"

definition FLAG_UNSET :: byte where "FLAG_UNSET = 0x00"
definition FLAG_END_STREAM :: byte where "FLAG_END_STREAM = 0x01"
definition FLAG_ACK :: byte where "FLAG_ACK = 0x01"
definition FLAG_END_HEADERS :: byte where "FLAG_END_HEADERS = 0x04"
definition FLAG_PADDED :: byte where "FLAG_PADDED = 0x08"
definition FLAG_PRIORITY :: byte where "FLAG_PRIORITY = 0x20"

definition has_flag :: "byte \<Rightarrow> byte \<Rightarrow> bool" where
  "has_flag fl m \<longleftrightarrow> fl AND m = m"

text \<open>\<open>HttpSend\<close> of the synchronous build, and \<open>HttpRecv\<close> of a number of octets: what arrives
  before the peer closes is all there is.\<close>

definition HttpSend :: "bytes \<Rightarrow> 'h CHttp2 \<Rightarrow> int \<times> 'h CHttp2" where
  "HttpSend buf c = (if net_up c then (0, c\<lparr> net_out := net_out c @ [buf] \<rparr>) else (- 1, c))"

definition send_buf :: "bytes \<Rightarrow> 'h CHttp2 \<Rightarrow> 'h CHttp2" where
  "send_buf buf c = snd (HttpSend buf c)"

definition HttpRecv :: "nat \<Rightarrow> 'h CHttp2 \<Rightarrow> bytes \<times> 'h CHttp2" where
  "HttpRecv n c = (take n (net_in c), c\<lparr> net_in := drop n (net_in c) \<rparr>)"

subsection \<open>Finding and changing a stream\<close>

definition get_stream_instance :: "u32 \<Rightarrow> 'h CHttp2 \<Rightarrow> 'h http2_stream option" where
  "get_stream_instance stream_ind c =
     (if stream_ind > 0 then
        (case mfind (m_stream_list c) stream_ind of None \<Rightarrow> None | Some it \<Rightarrow> it)
      else None)"

definition on_stream :: "u32 \<Rightarrow> ('h http2_stream \<Rightarrow> 'h http2_stream) \<Rightarrow> 'h CHttp2 \<Rightarrow> 'h CHttp2" where
  "on_stream stream_ind f c = c\<lparr> m_stream_list := mmap stream_ind (map_option f) (m_stream_list c) \<rparr>"

definition new_stream :: "'h h1_ops \<Rightarrow> u32 \<Rightarrow> 'h CHttp2 \<Rightarrow> 'h http2_stream" where
  "new_stream ops stream_ind c =
     \<lparr> m_path = [], m_method = [], m_authority = [], m_scheme = [], m_http1 = op_new ops stream_ind, m_hpack = None,
       m_push_promise_trigger_header = [], m_dependency_stream = 0, m_priority_weight = 16,
       m_stream_state = stream_idle, m_peer_window_size = m_initial_peer_window_size c,
       m_local_window_size = m_initial_local_window_size c, m_last_used_time = clock c \<rparr>"

definition create_stream_instance :: "'h h1_ops \<Rightarrow> u32 \<Rightarrow> 'h CHttp2 \<Rightarrow> 'h http2_stream option" where
  "create_stream_instance ops stream_ind c = (if stream_ind > 0 then Some (new_stream ops stream_ind c) else None)"

definition SetStreamState :: "u32 \<Rightarrow> stream_state_e \<Rightarrow> 'h CHttp2 \<Rightarrow> 'h CHttp2" where
  "SetStreamState i st c = on_stream i (\<lambda>s. s\<lparr> m_stream_state := st \<rparr>) c"

definition RefreshLastUsedTime :: "u32 \<Rightarrow> 'h CHttp2 \<Rightarrow> 'h CHttp2" where
  "RefreshLastUsedTime i c = on_stream i (\<lambda>s. s\<lparr> m_last_used_time := clock c \<rparr>) c"

definition SetPriorityWeight :: "u32 \<Rightarrow> u32 \<Rightarrow> 'h CHttp2 \<Rightarrow> 'h CHttp2" where
  "SetPriorityWeight i w c = on_stream i (\<lambda>s. s\<lparr> m_priority_weight := w \<rparr>) c"

definition dependency_of :: "u32 \<Rightarrow> 'h CHttp2 \<Rightarrow> u32" where
  "dependency_of dep c =
     (if dep = 0 then dep else case get_stream_instance dep c of Some _ \<Rightarrow> dep | None \<Rightarrow> 0)"

definition SetDependencyStream :: "u32 \<Rightarrow> u32 \<Rightarrow> 'h CHttp2 \<Rightarrow> 'h CHttp2" where
  "SetDependencyStream i dep c = on_stream i (\<lambda>s. s\<lparr> m_dependency_stream := dependency_of dep c \<rparr>) c"

definition IncreasePeerWindowSize :: "u32 \<Rightarrow> u32 \<Rightarrow> 'h CHttp2 \<Rightarrow> 'h CHttp2" where
  "IncreasePeerWindowSize i n c = on_stream i (\<lambda>s. s\<lparr> m_peer_window_size := m_peer_window_size s + n \<rparr>) c"

definition DecreasePeerWindowSize :: "u32 \<Rightarrow> u32 \<Rightarrow> 'h CHttp2 \<Rightarrow> 'h CHttp2" where
  "DecreasePeerWindowSize i n c = on_stream i (\<lambda>s. s\<lparr> m_peer_window_size := m_peer_window_size s - n \<rparr>) c"

definition IncreaseLocalWindowSize :: "u32 \<Rightarrow> u32 \<Rightarrow> 'h CHttp2 \<Rightarrow> 'h CHttp2" where
  "IncreaseLocalWindowSize i n c = on_stream i (\<lambda>s. s\<lparr> m_local_window_size := m_local_window_size s + n \<rparr>) c"

subsection \<open>Sending frames\<close>

definition send_setting_ack :: "u32 \<Rightarrow> 'h CHttp2 \<Rightarrow> 'h CHttp2" where
  "send_setting_ack stream_ind c =
     send_buf (frame_bytes (frame_header 0 FRAME_SETTINGS FLAG_ACK stream_ind)) c"

text \<open>The stream's pointer is used after the frame is sent, without a test.\<close>

definition send_rst_stream :: "u32 \<Rightarrow> 'h CHttp2 \<Rightarrow> 'h CHttp2 outcome" where
  "send_rst_stream stream_ind c =
     (let inst = get_stream_instance stream_ind c;
          c = send_buf (frame_bytes (frame_header 4 FRAME_RST_STREAM FLAG_UNSET stream_ind) @ bytes_le32 NO_ERROR) c
      in case inst of None \<Rightarrow> None | Some _ \<Rightarrow> Some (SetStreamState stream_ind stream_closed c))"

definition send_window_update :: "u32 \<Rightarrow> u32 \<Rightarrow> 'h CHttp2 \<Rightarrow> 'h CHttp2" where
  "send_window_update stream_ind n c =
     (let inst = get_stream_instance stream_ind c
      in if (case inst of None \<Rightarrow> False
             | Some s \<Rightarrow> m_stream_state s = stream_half_closed_local \<or> m_stream_state s = stream_closed) then c
         else
           let c = send_buf (frame_bytes (frame_header 4 FRAME_WINDOW_UPDATE FLAG_UNSET stream_ind) @
                 bytes_le32 (pack_r 0 (drop_bit 1 (htonl n)))) c
           in case inst of Some _ \<Rightarrow> IncreaseLocalWindowSize stream_ind n c
              | None \<Rightarrow> c\<lparr> m_local_control_window_size := m_local_control_window_size c + n \<rparr>)"

definition bytes_le16 :: "u16 \<Rightarrow> bytes" where
  "bytes_le16 w = [ucast w, ucast (drop_bit 8 w)]"

definition setting_bytes :: "u16 \<Rightarrow> u32 \<Rightarrow> bytes" where
  "setting_bytes identifier v = bytes_le16 (htons identifier) @ bytes_le32 (htonl v)"

definition send_initial_window_size :: "u32 \<Rightarrow> 'h CHttp2 \<Rightarrow> 'h CHttp2" where
  "send_initial_window_size window_size c =
     (send_buf (frame_bytes (frame_header 6 FRAME_SETTINGS FLAG_UNSET 0) @ setting_bytes 4 window_size) c)
       \<lparr> m_initial_local_window_size := window_size \<rparr>"

definition send_goaway :: "u32 \<Rightarrow> u32 \<Rightarrow> 'h CHttp2 \<Rightarrow> 'h CHttp2" where
  "send_goaway last_stream_ind error_code c =
     send_buf (frame_bytes (frame_header 8 FRAME_GOAWAY FLAG_UNSET 0) @
       bytes_le32 (pack_r 0 (drop_bit 1 (htonl last_stream_ind))) @ bytes_le32 (htonl error_code)) c"

text \<open>\<open>DecreaseLocalWindowSize\<close> asks for more as soon as nothing is left.\<close>

definition DecreaseLocalWindowSize :: "u32 \<Rightarrow> u32 \<Rightarrow> 'h CHttp2 \<Rightarrow> 'h CHttp2" where
  "DecreaseLocalWindowSize i n c =
     (let c = on_stream i (\<lambda>s. s\<lparr> m_local_window_size := m_local_window_size s - n \<rparr>) c
      in case get_stream_instance i c of None \<Rightarrow> c
         | Some s \<Rightarrow> if sint (m_local_window_size s) \<le> 0
             then send_window_update i (m_initial_local_window_size c) c else c)"

subsection \<open>The connection preface\<close>

definition client_preface_str :: bytes where
  "client_preface_str = [0x50, 0x52, 0x49, 0x20, 0x2a, 0x20, 0x48, 0x54, 0x54, 0x50, 0x2f, 0x32, 0x2e, 0x30,
     0x0d, 0x0a, 0x0d, 0x0a, 0x53, 0x4d, 0x0d, 0x0a, 0x0d, 0x0a]"

text \<open>The fields the constructor sets before it talks to the peer. The frame header is left
  uninitialised by the code; it is never read before it has been overwritten.\<close>

definition init_conn :: "bool \<Rightarrow> string list \<Rightarrow> bytes \<Rightarrow> bool \<Rightarrow> nat \<Rightarrow> 'h CHttp2" where
  "init_conn push_promise push_list inp up t =
     \<lparr> m_stream_list = [], m_header_dynamic_table = [], m_header_table_size = 4096, m_enable_push = push_promise,
       m_max_concurrent_streams = 101, m_initial_local_window_size = HTTP2_MAX_WINDOW_SIZE,
       m_initial_peer_window_size = HTTP2_DEFAULT_WINDOW_SIZE, m_local_control_window_size = HTTP2_DEFAULT_WINDOW_SIZE,
       m_peer_control_window_size = HTTP2_DEFAULT_WINDOW_SIZE, m_max_frame_size = 16384,
       m_max_header_list_size = 0xFFFFFFFF, m_pushed_request = False, m_pushed_response = False,
       m_http2_push_list = push_list, m_http2_state = http2Prefix, m_frame_hdr = replicate 9 0,
       m_frame_hdr_valid_len = 0, m_payload = None, m_payload_valid_len = 0, net_events = [], net_in = inp, net_out = [], net_up = up, clock = t \<rparr>"

datatype exn = No_client_preface | Wrong_client_preface | Wrong_server_preface

text \<open>The constructor of the synchronous build; an exception is \<open>Inl\<close>. The preface is compared as
  a C string, up to its first NUL.\<close>

definition new_CHttp2 :: "'h CHttp2 \<Rightarrow> exn \<times> 'h CHttp2 + 'h CHttp2" where
  "new_CHttp2 c =
     (let (preface, c) = HttpRecv 24 c
      in if length preface \<noteq> 24 then Inl (No_client_preface, c)
         else if takeWhile (\<lambda>b. b \<noteq> 0) preface \<noteq> client_preface_str
         then Inl (Wrong_client_preface, send_goaway 0 PROTOCOL_ERROR c)
         else
           let (ret, c) = HttpSend (frame_bytes (frame_header 6 FRAME_SETTINGS FLAG_UNSET 0) @
                 setting_bytes 3 (m_max_concurrent_streams c)) c
           in if ret \<noteq> 0 then Inl (Wrong_server_preface, c)
              else Inr (send_initial_window_size (m_initial_local_window_size c)
                     (send_window_update 0 HTTP2_MAX_WINDOW_SIZE c)))"

subsection \<open>Looking a stream up after a change\<close>

lemma get_upd [simp]:
  "get_stream_instance i (c\<lparr> net_out := a \<rparr>) = get_stream_instance i c"
  "get_stream_instance i (c\<lparr> net_in := b \<rparr>) = get_stream_instance i c"
  "get_stream_instance i (c\<lparr> m_peer_control_window_size := w \<rparr>) = get_stream_instance i c"
  "get_stream_instance i (c\<lparr> m_local_control_window_size := w \<rparr>) = get_stream_instance i c"
  "get_stream_instance i (c\<lparr> m_header_dynamic_table := t \<rparr>) = get_stream_instance i c"
  "get_stream_instance i (c\<lparr> m_initial_local_window_size := w \<rparr>) = get_stream_instance i c"
  "get_stream_instance i (c\<lparr> m_max_frame_size := w \<rparr>) = get_stream_instance i c"
  "get_stream_instance i (c\<lparr> m_pushed_request := x \<rparr>) = get_stream_instance i c"
  "get_stream_instance i (c\<lparr> m_pushed_response := x \<rparr>) = get_stream_instance i c"
  by (simp_all add: get_stream_instance_def)

lemma get_on_stream [simp]:
  "get_stream_instance j (on_stream i f c) =
     (if j = i then map_option f (get_stream_instance j c) else get_stream_instance j c)"
  by (auto simp: get_stream_instance_def on_stream_def split: option.splits)

lemma get_0 [simp]: "get_stream_instance 0 c = None"
  by (simp add: get_stream_instance_def)

lemma on_stream_fields [simp]:
  "net_out (on_stream i f c) = net_out c" "net_in (on_stream i f c) = net_in c" "net_up (on_stream i f c) = net_up c"
  "m_max_frame_size (on_stream i f c) = m_max_frame_size c"
  "m_peer_control_window_size (on_stream i f c) = m_peer_control_window_size c"
  "m_local_control_window_size (on_stream i f c) = m_local_control_window_size c"
  "m_initial_local_window_size (on_stream i f c) = m_initial_local_window_size c"
  "m_max_concurrent_streams (on_stream i f c) = m_max_concurrent_streams c"
  "m_header_dynamic_table (on_stream i f c) = m_header_dynamic_table c"
  "clock (on_stream i f c) = clock c"
  by (simp_all add: on_stream_def)

lemma send_up [simp]:
  "net_up c \<Longrightarrow> HttpSend buf c = (0, c\<lparr> net_out := net_out c @ [buf] \<rparr>)"
  by (simp add: HttpSend_def)

subsection \<open>A small connection\<close>

text \<open>For the instances of the theorems: an HTTP/1.1 side that does nothing, and a connection with one stream.\<close>

definition quiet_h1 :: "unit h1_ops" where
  "quiet_h1 = \<lparr> op_new = (\<lambda>_. ()), op_LineParse = (\<lambda>h txt. Some (h, [])), op_PushPostData = (\<lambda>h buf n. Some (h, True)),
     op_Response = (\<lambda>h. (h, [])), op_GetMethod = (\<lambda>h. hmGet), op_GetRequestField = (\<lambda>h f. []),
     op_PushPromiseList = (\<lambda>h. []) \<rparr>"

definition small_stream :: "stream_state_e \<Rightarrow> unit http2_stream" where
  "small_stream st =
     \<lparr> m_path = [], m_method = [], m_authority = ''localhost'', m_scheme = [], m_http1 = (), m_hpack = None,
       m_push_promise_trigger_header = [], m_dependency_stream = 0, m_priority_weight = 16, m_stream_state = st,
       m_peer_window_size = HTTP2_DEFAULT_WINDOW_SIZE, m_local_window_size = HTTP2_MAX_WINDOW_SIZE, m_last_used_time = 0 \<rparr>"

definition small_conn :: "stream_state_e \<Rightarrow> bytes \<Rightarrow> unit CHttp2" where
  "small_conn st inp = (init_conn True [] inp True 0)\<lparr> m_stream_list := [(1, Some (small_stream st))] \<rparr>"

lemma small_conn_simps [simp]:
  "get_stream_instance 1 (small_conn st inp) = Some (small_stream st)"
  "net_up (small_conn st inp)" "m_max_frame_size (small_conn st inp) = 16384" "net_out (small_conn st inp) = []"
  "m_enable_push (small_conn st inp)" "m_stream_list (small_conn st inp) = [(1, Some (small_stream st))]"
  "net_in (small_conn st inp) = inp"
  by (simp_all add: small_conn_def get_stream_instance_def init_conn_def)

lemma small_stream_simps [simp]:
  "m_peer_window_size (small_stream st) = 65535" "m_stream_state (small_stream st) = st" "m_http1 (small_stream st) = ()"
  "m_authority (small_stream st) = ''localhost''"
  by (simp_all add: small_stream_def HTTP2_DEFAULT_WINDOW_SIZE_def)

end
