(* ===== verification/Http2send.thy ===== *)
theory Http2send
  imports Http2conn
begin

section \<open>Sending responses and promises (src/src/http2.cpp)\<close>

text \<open>
  The static header table, the translation of an HTTP/1.1 header into a HEADERS or PUSH_PROMISE
  frame, the loop that cuts a body into DATA frames under the peer's window, the empty last frame
  and the promises. A function that may wait for a frame of the peer, or that hands control to the
  HTTP/1.1 side, does so through its argument \<open>k\<close>, the rest of the server one level of calls
  deeper; the knot is tied in the theory of the receiver.
\<close>

subsection \<open>The static table\<close>

definition m_header_static_table :: static_table where
  "m_header_static_table = [
     (1, '':authority'', ''''), (2, '':method'', ''GET''), (3, '':method'', ''POST''), (4, '':path'', ''/''),
     (5, '':path'', ''/index.html''), (6, '':scheme'', ''http''), (7, '':scheme'', ''https''),
     (8, '':status'', ''200''), (9, '':status'', ''204''), (10, '':status'', ''206''), (11, '':status'', ''304''),
     (12, '':status'', ''400''), (13, '':status'', ''404''), (14, '':status'', ''500''),
     (15, ''accept-charset'', ''''), (16, ''accept-encoding'', ''gzip, deflate''), (17, ''accept-language'', ''''),
     (18, ''accept-ranges'', ''''), (19, ''accept'', ''''), (20, ''access-control-allow-origin'', ''''),
     (21, ''age'', ''''), (22, ''allow'', ''''), (23, ''authorization'', ''''), (24, ''cache-control'', ''''),
     (25, ''content-disposition'', ''''), (26, ''content-encoding'', ''''), (27, ''content-language'', ''''),
     (28, ''content-length'', ''''), (29, ''content-location'', ''''), (30, ''content-range'', ''''),
     (31, ''content-type'', ''''), (32, ''cookie'', ''''), (33, ''date'', ''''), (34, ''etag'', ''''),
     (35, ''expect'', ''''), (36, ''expires'', ''''), (37, ''from'', ''''), (38, ''host'', ''''),
     (39, ''if-match'', ''''), (40, ''if-modified-since'', ''''), (41, ''if-none-match'', ''''),
     (42, ''if-range'', ''''), (43, ''if-unmodified-since'', ''''), (44, ''last-modified'', ''''),
     (45, ''link'', ''''), (46, ''location'', ''''), (47, ''max-forwards'', ''''), (48, ''proxy-authenticate'', ''''),
     (49, ''proxy-authorization'', ''''), (50, ''range'', ''''), (51, ''referer'', ''''), (52, ''refresh'', ''''),
     (53, ''retry-after'', ''''), (54, ''server'', ''''), (55, ''set-cookie'', ''''),
     (56, ''strict-transport-security'', ''''), (57, ''transfer-encoding'', ''''), (58, ''user-agent'', ''''),
     (59, ''vary'', ''''), (60, ''via'', ''''), (61, ''www-authenticate'', '''')]"

subsection \<open>Control passed on\<close>

text \<open>
  What a level of calls can be asked to do: wait for one frame (\<open>ProtRecv\<close>), or carry out the
  calls of a stream's HTTP/1.1 side.
\<close>

datatype task = Recv | Calls u32 "h1_call list"

type_synonym 'h knot = "task \<Rightarrow> 'h CHttp2 \<Rightarrow> (int \<times> 'h CHttp2) outcome"

text \<open>\<open>http2_stream::http1_parse\<close> and \<open>Response\<close>: the pointer to the stream must be good.\<close>

definition http1_parse :: "'h h1_ops \<Rightarrow> 'h knot \<Rightarrow> u32 \<Rightarrow> string \<Rightarrow> 'h CHttp2 \<Rightarrow> 'h CHttp2 outcome" where
  "http1_parse ops k i txt c = do {
     s \<leftarrow> get_stream_instance i c;
     (h, calls) \<leftarrow> op_LineParse ops (m_http1 s) txt;
     (_, c) \<leftarrow> k (Calls i calls) (on_stream i (\<lambda>s. s\<lparr> m_http1 := h \<rparr>) c);
     Some c
   }"

definition Response :: "'h h1_ops \<Rightarrow> 'h knot \<Rightarrow> u32 \<Rightarrow> 'h CHttp2 \<Rightarrow> 'h CHttp2 outcome" where
  "Response ops k i c = do {
     s \<leftarrow> get_stream_instance i c;
     let (h, calls) = op_Response ops (m_http1 s);
     (_, c) \<leftarrow> k (Calls i calls) (on_stream i (\<lambda>s. s\<lparr> m_http1 := h \<rparr>) c);
     Some c
   }"

subsection \<open>HEADERS and PUSH_PROMISE\<close>

definition TransHttp1SendHttp2Header ::
    "'h h1_ops \<Rightarrow> u32 \<Rightarrow> string \<Rightarrow> byte \<Rightarrow> u32 \<Rightarrow> 'h CHttp2 \<Rightarrow> (int \<times> 'h CHttp2) outcome" where
  "TransHttp1SendHttp2Header ops stream_ind buf frame_type promised_stream_ind c =
     (if stream_ind = 0 \<or> (frame_type \<noteq> FRAME_PUSH_PROMISE \<and> frame_type \<noteq> FRAME_HEADERS \<and> frame_type \<noteq> FRAME_CONTINUATION)
      then Some (- 1, c)
      else case get_stream_instance stream_ind c of None \<Rightarrow> Some (- 1, c)
      | Some s \<Rightarrow> do {
          field \<leftarrow> hpack_build buf m_header_static_table;
          let promise = (if frame_type = FRAME_PUSH_PROMISE
                then bytes_le32 (pack_r 0 (drop_bit 1 (htonl promised_stream_ind))) else []);
          let frame_len = word_of_nat (length promise + length field);
          let head = (if op_GetMethod ops (m_http1 s) = hmHead
                then frame_bytes (frame_header 0 FRAME_DATA FLAG_UNSET stream_ind) else []);
          let (ret, c) = HttpSend (frame_bytes (frame_header frame_len frame_type FLAG_END_HEADERS stream_ind) @
                promise @ field @ head) c;
          Some (ret, SetStreamState stream_ind stream_open c)
        })"

subsection \<open>DATA\<close>

datatype 'h content_result = Stop int "'h CHttp2" | Again nat "'h CHttp2"

text \<open>
  How much of the rest goes into the next frame. The window is an \<open>int\<close> compared with an
  unsigned number, so the comparison is unsigned.
\<close>

definition pre_send_len :: "u32 \<Rightarrow> u32 \<Rightarrow> u32 \<Rightarrow> u32" where
  "pre_send_len left max_frame_size peer_window =
     (let pre = (if max_frame_size > HTTP2_DATA_PADDING_LEN + 1
            then (if left > max_frame_size - HTTP2_DATA_PADDING_LEN - 1
                  then max_frame_size - HTTP2_DATA_PADDING_LEN - 1 else left)
            else (if left > max_frame_size then max_frame_size else left))
      in if peer_window > pre then pre else peer_window)"

definition data_frame :: "u32 \<Rightarrow> u32 \<Rightarrow> bytes \<Rightarrow> bytes" where
  "data_frame max_frame_size stream_ind chunk =
     (if max_frame_size > HTTP2_DATA_PADDING_LEN + 1 then
        let pad = 8 - length chunk mod 8
        in frame_bytes (frame_header (word_of_nat (1 + length chunk + pad)) FRAME_DATA FLAG_PADDED stream_ind) @
           word_of_nat pad # chunk @ replicate pad 0
      else frame_bytes (frame_header (word_of_nat (length chunk)) FRAME_DATA FLAG_UNSET stream_ind) @ chunk)"

text \<open>One round of the loop of \<open>TransHttp1SendHttp2Content\<close>.\<close>

definition content_step :: "'h knot \<Rightarrow> u32 \<Rightarrow> bytes \<Rightarrow> nat \<Rightarrow> 'h CHttp2 \<Rightarrow> 'h content_result outcome" where
  "content_step k stream_ind buf sent_len c = do {
     s \<leftarrow> get_stream_instance stream_ind c;
     let pre = pre_send_len (word_of_nat (length buf - sent_len)) (m_max_frame_size c) (m_peer_window_size s);
     let (ret, c) = HttpSend (data_frame (m_max_frame_size c) stream_ind (take (unat pre) (drop sent_len buf))) c;
     if ret = - 1 then Some (Stop ret c)
     else do {
       let sent_len = sent_len + unat pre;
       let c = DecreasePeerWindowSize stream_ind pre c;
       let c = c\<lparr> m_peer_control_window_size := m_peer_control_window_size c - pre \<rparr>;
       if sent_len = length buf then Some (Stop ret c)
       else do {
         s \<leftarrow> get_stream_instance stream_ind c;
         if m_peer_window_size s = 0 then do {
           (_, c) \<leftarrow> k Recv c;
           Some (Again sent_len c)
         } else Some (Again sent_len c)
       }
     }
   }"

fun content_loop :: "nat \<Rightarrow> 'h knot \<Rightarrow> u32 \<Rightarrow> bytes \<Rightarrow> nat \<Rightarrow> 'h CHttp2 \<Rightarrow> (int \<times> 'h CHttp2) outcome" where
  "content_loop 0 k stream_ind buf sent_len c = None"
| "content_loop (Suc n) k stream_ind buf sent_len c =
     (case content_step k stream_ind buf sent_len c of
        None \<Rightarrow> None
      | Some (Stop ret c) \<Rightarrow> Some (ret, c)
      | Some (Again sent_len c) \<Rightarrow> content_loop n k stream_ind buf sent_len c)"

definition TransHttp1SendHttp2Content :: "nat \<Rightarrow> 'h knot \<Rightarrow> u32 \<Rightarrow> bytes \<Rightarrow> 'h CHttp2 \<Rightarrow> (int \<times> 'h CHttp2) outcome" where
  "TransHttp1SendHttp2Content n k stream_ind buf c =
     (case get_stream_instance stream_ind c of None \<Rightarrow> Some (- 1, c)
      | Some _ \<Rightarrow> content_loop n k stream_ind buf 0 c)"

text \<open>
  \<open>SendHttp2EmptyContent\<close> with its default flags. With a frame size of 0 the padding length is
  -1 as an \<open>int\<close>, and the octet for it is written behind the buffer.
\<close>

definition SendHttp2EmptyContent :: "u32 \<Rightarrow> 'h CHttp2 \<Rightarrow> (int \<times> 'h CHttp2) outcome" where
  "SendHttp2EmptyContent stream_ind c =
     (case get_stream_instance stream_ind c of None \<Rightarrow> Some (- 1, c)
      | Some s \<Rightarrow>
          let curr_padding_len = (if HTTP2_DATA_PADDING_LEN + 1 > m_max_frame_size c then m_max_frame_size c - 1
                else HTTP2_DATA_PADDING_LEN)
          in if sint curr_padding_len < 0 then None
             else
               let (ret, c) = HttpSend (frame_bytes (frame_header (1 + curr_padding_len) FRAME_DATA
                     (FLAG_END_STREAM OR FLAG_PADDED) stream_ind) @
                     ucast curr_padding_len # replicate (unat curr_padding_len) 0) c
               in Some (ret, SetStreamState stream_ind
                     (if m_stream_state s \<noteq> stream_half_closed_remote then stream_half_closed_local else stream_closed) c))"

subsection \<open>Promises\<close>

definition CRLF :: string where
  "CRLF = [CHR 0x0D, CHR 0x0A]"

definition field_line :: "string \<Rightarrow> string \<Rightarrow> string" where
  "field_line label v = (if v \<noteq> [] then label @ '': '' @ v @ CRLF else [])"

definition BuildPushPromiseResponse :: "'h h1_ops \<Rightarrow> 'h http2_stream \<Rightarrow> string \<Rightarrow> 'h http2_stream \<Rightarrow> 'h http2_stream" where
  "BuildPushPromiseResponse ops host path s =
     (let get = op_GetRequestField ops (m_http1 host)
      in s\<lparr> m_push_promise_trigger_header :=
           ''GET '' @ path @ '' HTTP/1.1'' @ CRLF @ field_line ''Accept'' (get ''Accept'') @
           field_line ''Accept-Encoding'' (get ''Accept-Encoding'') @
           field_line ''Accept-Language'' (get ''Accept-Language'') @
           field_line ''User-Agent'' (get ''User-Agent'') @ CRLF \<rparr>)"

text \<open>The search for the next even identifier without a stream.\<close>

function free_even :: "(u32, 'h http2_stream option) stdmap \<Rightarrow> u32 \<Rightarrow> u32" where
  "free_even m i =
     (if i < 0x7FFFFFFF then
        (case mfind m i of Some (Some _) \<Rightarrow> free_even m (i + 2) | _ \<Rightarrow> i)
      else 0)"
  by pat_completeness auto
termination
  by (relation "measure (\<lambda>(m, i). 2 ^ 32 - unat i)")
    (auto simp: word_less_nat_alt unat_word_ariths intro!: diff_less_mono2)

declare free_even.simps [simp del]

definition promise_text :: "'h h1_ops \<Rightarrow> 'h http2_stream \<Rightarrow> string \<Rightarrow> string" where
  "promise_text ops s path =
     (let get = op_GetRequestField ops (m_http1 s)
      in '':authority: '' @ m_authority s @ CRLF @ '':method: GET'' @ CRLF @ '':path: '' @ path @ CRLF @
         '':scheme: https'' @ CRLF @ field_line ''accept'' (get ''Accept'') @
         field_line ''accept-encoding'' (get ''Accept-Encoding'') @
         field_line ''accept-language'' (get ''Accept-Language'') @ field_line ''user-agent'' (get ''User-Agent''))"

definition PushPromise :: "'h h1_ops \<Rightarrow> u32 \<Rightarrow> string \<Rightarrow> 'h CHttp2 \<Rightarrow> 'h CHttp2 outcome" where
  "PushPromise ops stream_ind path c =
     (if \<not> m_enable_push c then Some c
      else case get_stream_instance stream_ind c of None \<Rightarrow> Some c
      | Some s \<Rightarrow>
          let promised = free_even (m_stream_list c) (stream_ind div 2 * 2 + 2);
              inst = create_stream_instance ops promised c;
              (m, inserted) = minsert promised inst (m_stream_list c);
              c = c\<lparr> m_stream_list := m \<rparr>
          in if \<not> inserted \<or> inst = None then Some (send_goaway stream_ind PROTOCOL_ERROR c)
             else do {
               let c = SetStreamState promised stream_reserved_local c;
               (_, c) \<leftarrow> TransHttp1SendHttp2Header ops stream_ind (promise_text ops s path) FRAME_PUSH_PROMISE promised c;
               Some (on_stream promised (BuildPushPromiseResponse ops s path) c)
             })"

fun push_all :: "'h h1_ops \<Rightarrow> u32 \<Rightarrow> string list \<Rightarrow> 'h CHttp2 \<Rightarrow> 'h CHttp2 outcome" where
  "push_all ops stream_ind [] c = Some c"
| "push_all ops stream_ind (p # ps) c = do {
     c \<leftarrow> PushPromise ops stream_ind p c;
     push_all ops stream_ind ps c
   }"

definition send_push_promise_request :: "'h h1_ops \<Rightarrow> u32 \<Rightarrow> 'h CHttp2 \<Rightarrow> 'h CHttp2 outcome" where
  "send_push_promise_request ops stream_ind c = do {
     c \<leftarrow> (if stream_ind > 0 then push_all ops stream_ind (m_http2_push_list c) c else Some c);
     (case mfind (m_stream_list c) stream_ind of
        Some (Some s) \<Rightarrow> push_all ops stream_ind (op_PushPromiseList ops (m_http1 s)) c
      | _ \<Rightarrow> Some c)
   }"

text \<open>\<open>http2_stream::SendPushPromiseResponse\<close>\<close>

definition SendPushPromiseResponse :: "'h h1_ops \<Rightarrow> 'h knot \<Rightarrow> u32 \<Rightarrow> 'h CHttp2 \<Rightarrow> 'h CHttp2 outcome" where
  "SendPushPromiseResponse ops k i c = do {
     s \<leftarrow> get_stream_instance i c;
     c \<leftarrow> (if m_push_promise_trigger_header s \<noteq> [] then http1_parse ops k i (m_push_promise_trigger_header s) c else Some c);
     Some (on_stream i (\<lambda>s. s\<lparr> m_push_promise_trigger_header := [] \<rparr>) c)
   }"

text \<open>The iterator over the stream list: the next key from \<open>i\<close> on.\<close>

fun next_key :: "(u32, 'v) stdmap \<Rightarrow> u32 \<Rightarrow> u32 option" where
  "next_key [] i = None"
| "next_key ((j, _) # m) i = (if i \<le> j then Some j else next_key m i)"

lemma next_key_ge: "next_key m i = Some j \<Longrightarrow> i \<le> j"
  by (induction m i rule: next_key.induct) (auto split: if_splits)

function push_loop :: "'h h1_ops \<Rightarrow> 'h knot \<Rightarrow> u32 \<Rightarrow> 'h CHttp2 \<Rightarrow> 'h CHttp2 outcome" where
  "push_loop ops k i c =
     (case next_key (m_stream_list c) i of
        None \<Rightarrow> Some c
      | Some j \<Rightarrow>
          (case (if even (unat j) then SendPushPromiseResponse ops k j c else Some c) of
             None \<Rightarrow> None
           | Some c \<Rightarrow> if j = - 1 then Some c else push_loop ops k (j + 1) c))"
  by pat_completeness auto
termination
proof (relation "measure (\<lambda>(ops, k, i, c). 2 ^ 32 - unat i)", goal_cases)
  case (2 ops k i c j c')
  then have "unat i \<le> unat j"
    using next_key_ge by (auto simp: word_le_nat_alt)
  moreover have "j + 1 \<noteq> 0"
    using 2(3) by (metis add.inverse_unique add.commute)
  then have "unat (j + 1) = unat j + 1"
    by (metis Suc_eq_plus1 unatSuc add.commute)
  moreover have "unat (j + 1) < 2 ^ 32"
    using unsigned_less [of "j + 1", where 'a = nat] by simp
  ultimately show ?case
    by simp
qed simp

declare push_loop.simps [simp del]

definition SendHttp2PushPromiseResponse :: "'h h1_ops \<Rightarrow> 'h knot \<Rightarrow> 'h CHttp2 \<Rightarrow> 'h CHttp2 outcome" where
  "SendHttp2PushPromiseResponse ops k c =
     (if m_enable_push c \<and> m_pushed_request c \<and> \<not> m_pushed_response c
      then push_loop ops k 0 (c\<lparr> m_pushed_response := True \<rparr>) else Some c)"

subsection \<open>The calls of the HTTP/1.1 side\<close>

definition call :: "'h h1_ops \<Rightarrow> nat \<Rightarrow> 'h knot \<Rightarrow> u32 \<Rightarrow> h1_call \<Rightarrow> 'h CHttp2 \<Rightarrow> 'h CHttp2 outcome" where
  "call ops n k i a c = (case a of
     SendHeader txt \<Rightarrow> map_option snd (TransHttp1SendHttp2Header ops i txt FRAME_HEADERS 0 c)
   | SendContent buf \<Rightarrow> map_option snd (TransHttp1SendHttp2Content n k i buf c)
   | SendEmptyContent \<Rightarrow> map_option snd (SendHttp2EmptyContent i c)
   | SendPushPromiseResponses \<Rightarrow> SendHttp2PushPromiseResponse ops k c
   | CallPushPromise path \<Rightarrow> PushPromise ops i path c)"

fun perform :: "'h h1_ops \<Rightarrow> nat \<Rightarrow> 'h knot \<Rightarrow> u32 \<Rightarrow> h1_call list \<Rightarrow> 'h CHttp2 \<Rightarrow> 'h CHttp2 outcome" where
  "perform ops n k i [] c = Some c"
| "perform ops n k i (a # as) c = do {
     c \<leftarrow> call ops n k i a c;
     perform ops n k i as c
   }"

subsection \<open>What the peer reads of a DATA frame\<close>

text \<open>
  The peer's reading of one padded DATA frame: the header, whose length must be the rest, the pad
  length and the data in front of the padding.
\<close>

definition peer_data :: "bytes \<Rightarrow> (u32 \<times> bytes) option" where
  "peer_data frame = do {
     h \<leftarrow> read_frame (take 9 frame);
     let body = drop 9 frame;
     if frm_type h = FRAME_DATA \<and> has_flag (flags h) FLAG_PADDED \<and> unat (recv_payload_len h) = length body \<and>
        body \<noteq> [] \<and> unat (hd body) < length body
     then Some (recv_stream_ind h, take (length body - 1 - unat (hd body)) (tl body)) else None
   }"


subsection \<open>The loop that sends a body\<close>

text \<open>The connection after a frame with so many octets of data.\<close>

definition sent_frame :: "u32 \<Rightarrow> nat \<Rightarrow> bytes \<Rightarrow> 'h CHttp2 \<Rightarrow> 'h CHttp2" where
  "sent_frame i n frame c =
     (let c = DecreasePeerWindowSize i (word_of_nat n) (c\<lparr> net_out := net_out c @ [frame] \<rparr>)
      in c\<lparr> m_peer_control_window_size := m_peer_control_window_size c - word_of_nat n \<rparr>)"

lemma sent_frame_simps [simp]:
  "net_out (sent_frame i n f c) = net_out c @ [f]" "net_up (sent_frame i n f c) = net_up c"
  "m_max_frame_size (sent_frame i n f c) = m_max_frame_size c"
  "m_peer_control_window_size (sent_frame i n f c) = m_peer_control_window_size c - word_of_nat n"
  "get_stream_instance i (sent_frame i n f c) =
     map_option (\<lambda>s. s\<lparr> m_peer_window_size := m_peer_window_size s - word_of_nat n \<rparr>) (get_stream_instance i c)"
  by (simp_all add: sent_frame_def DecreasePeerWindowSize_def Let_def)






text \<open>
  a client that announces a frame size of 0 stops the server in the loop: the size is taken
  without a check, every frame then carries 0 octets, and for a non-empty body and a window above
  0 no number of rounds is enough.
\<close>

theorem content_never_sent:
  assumes "get_stream_instance i c = Some s" and "net_up c" and "m_max_frame_size c = 0"
    and "m_peer_window_size s \<noteq> 0" and "buf \<noteq> []"
  shows "TransHttp1SendHttp2Content n k i buf c = None"
proof -
  have "content_loop n k i buf 0 c = None"
    using assms(1-4)
  proof (induction n arbitrary: c s)
    case (Suc n)
    define c1 where "c1 = sent_frame i 0 (data_frame 0 i []) c"
    have "pre_send_len (word_of_nat (length buf)) 0 (m_peer_window_size s) = 0"
      using word_gt_0 [of "m_peer_window_size s"] Suc.prems(4)
      by (simp add: pre_send_len_def HTTP2_DATA_PADDING_LEN_def word_gt_0)
    then have step: "content_step k i buf 0 c = Some (Again 0 c1)"
      using Suc.prems assms(5) by (simp add: content_step_def c1_def sent_frame_def DecreasePeerWindowSize_def Let_def)
    have "get_stream_instance i c1 = Some s"
      using Suc.prems(1) by (simp add: c1_def)
    then have "content_loop n k i buf 0 c1 = None"
      using Suc.IH [of c1 s] Suc.prems(2-4) by (simp add: c1_def)
    then show ?case
      by (simp add: step)
  qed simp
  then show ?thesis
    using assms(1) by (simp add: TransHttp1SendHttp2Content_def)
qed

theorem content_never_sent_witness:
  "TransHttp1SendHttp2Content 100 (\<lambda>t c. None) 1 [0x68] ((small_conn stream_open [])\<lparr> m_max_frame_size := 0 \<rparr>) = None"
  by (rule content_never_sent [where s = "small_stream stream_open"]) simp_all

subsection \<open>The last frame\<close>

text \<open>
  the empty frame that ends a response. With a frame size above 0 it is one padded DATA frame
  of the stream without data, within the peer's frame size, with END_STREAM, and the stream moves
  to half-closed (local), or to closed when the client had ended its side. With a frame size of 0,
  which a client can set, the octet for the pad length is written behind the buffer.
\<close>

theorem empty_content_sent:
  assumes "get_stream_instance i c = Some s" and "net_up c" and "unat i < 2 ^ 24"
  shows "(SendHttp2EmptyContent i c = None \<longleftrightarrow> m_max_frame_size c = 0) \<and>
    (m_max_frame_size c \<noteq> 0 \<longrightarrow>
      (\<exists>frame c'. SendHttp2EmptyContent i c = Some (0, c') \<and> net_out c' = net_out c @ [frame] \<and>
        peer_data frame = Some (i, []) \<and> length frame \<le> 9 + unat (m_max_frame_size c) \<and>
        has_flag (frame ! 4) FLAG_END_STREAM \<and>
        get_stream_instance i c' = Some (s\<lparr> m_stream_state :=
          if m_stream_state s = stream_half_closed_remote then stream_closed else stream_half_closed_local \<rparr>)))"
proof (cases "m_max_frame_size c = 0")
  case True
  then show ?thesis
    using assms(1) by (simp add: SendHttp2EmptyContent_def HTTP2_DATA_PADDING_LEN_def)
next
  case False
  let ?m = "m_max_frame_size c"
  define pad :: u32 where "pad = (if HTTP2_DATA_PADDING_LEN + 1 > ?m then ?m - 1 else HTTP2_DATA_PADDING_LEN)"
  have "unat (?m - 1) = unat ?m - 1"
    using False by (metis unat_minus_one)
  moreover have "0 < unat ?m"
    using False by (simp add: unat_gt_0)
  ultimately have upad: "unat pad \<le> 8" "unat pad < unat ?m"
    using False by (auto simp: pad_def HTTP2_DATA_PADDING_LEN_def word_less_nat_alt unat_eq_0)
  have "sint pad = int (unat pad)"
    using upad(1) by (intro sint_small) simp
  then have s0: "\<not> sint pad < 0"
    by simp
  have "unat (1 + pad) = unat (of_nat (1 + unat pad) :: u32)"
    by simp
  then have len: "unat (1 + pad) = 1 + unat pad"
    using upad(1) by (subst (asm) unat_u32) simp_all
  have ub: "unat (ucast pad :: byte) = unat pad"
    using upad(1) by (simp add: unsigned_ucast_eq take_bit_nat_eq_self)
  let ?h = "frame_header (1 + pad) FRAME_DATA (FLAG_END_STREAM OR FLAG_PADDED) i"
  let ?f = "frame_bytes ?h @ ucast pad # replicate (unat pad) 0"
  have t: "take 9 ?f = frame_bytes ?h" "drop 9 ?f = ucast pad # replicate (unat pad) 0"
    using length_frame_bytes [of ?h] by (simp_all add: sizeof_HTTP2_Frame_def)
  have ulen: "unat (1 + pad) < 2 ^ 24"
    using len upad(1) by simp
  have "recv_stream_ind ?h = i"
    using header_received(3) [OF ulen] small_ident [OF assms(3)] by simp
  then have p: "peer_data ?f = Some (i, [])"
    unfolding peer_data_def t header_received(1) [OF ulen] using header_received(2) [OF ulen] len ub
    by (simp add: has_flag_def FLAG_END_STREAM_def FLAG_PADDED_def)
  have fl: "?f ! 4 = FLAG_END_STREAM OR FLAG_PADDED"
    by (simp add: frame_bytes_def bytes_le32_def)
  define c' where "c' = SetStreamState i (if m_stream_state s \<noteq> stream_half_closed_remote
      then stream_half_closed_local else stream_closed) (c\<lparr> net_out := net_out c @ [?f] \<rparr>)"
  have "SendHttp2EmptyContent i c = Some (0, c')"
    using assms(1,2) s0 by (simp add: SendHttp2EmptyContent_def pad_def c'_def Let_def)
  moreover have "length ?f \<le> 9 + unat ?m"
    using upad(2) by (simp add: sizeof_HTTP2_Frame_def)
  moreover have "net_out c' = net_out c @ [?f]" and "get_stream_instance i c' = Some (s\<lparr> m_stream_state :=
      if m_stream_state s = stream_half_closed_remote then stream_closed else stream_half_closed_local \<rparr>)"
    using assms(1) by (simp_all add: c'_def SetStreamState_def)
  moreover have "has_flag (?f ! 4) FLAG_END_STREAM"
    unfolding fl by (simp add: has_flag_def FLAG_END_STREAM_def FLAG_PADDED_def)
  ultimately show ?thesis
    using False p by (metis option.distinct(1))
qed

theorem empty_content_sent_witness:
  "\<exists>frame c'. SendHttp2EmptyContent 1 (small_conn stream_half_closed_remote []) = Some (0, c') \<and>
    net_out c' = [frame] \<and> peer_data frame = Some (1, []) \<and>
    get_stream_instance 1 c' = Some (small_stream stream_closed)"
proof -
  have "(small_stream stream_half_closed_remote)\<lparr> m_stream_state := stream_closed \<rparr> = small_stream stream_closed"
    by (simp add: small_stream_def)
  then show ?thesis
    using empty_content_sent [of 1 "small_conn stream_half_closed_remote []"] by auto
qed

subsection \<open>Header frames\<close>

lemma static_table_ok: "table_ok m_header_static_table" and static_table_status: "has_status m_header_static_table"
  by (simp_all add: table_ok_def has_status_def m_header_static_table_def)

lemma length_static_table [simp]: "length m_header_static_table = 61"
  by (simp add: m_header_static_table_def)

text \<open>What a header frame is made of, for both frame types.\<close>

lemma header_frame_sent:
  assumes "get_stream_instance i c = Some s" and "net_up c" and "text_ok buf" and "0 < i"
    and "op_GetMethod ops (m_http1 s) \<noteq> hmHead" and "ty = FRAME_HEADERS \<or> ty = FRAME_PUSH_PROMISE"
    and promise: "promise = (if ty = FRAME_PUSH_PROMISE then bytes_le32 (pack_r 0 (drop_bit 1 (htonl p))) else [])"
  shows "\<exists>field. hpack_build buf m_header_static_table = Some field \<and>
    (\<forall>more. hpack_parse (field @ more) (length field) =
      Some (0, concat (map (line_header m_header_static_table) (header_lines [] buf)))) \<and>
    TransHttp1SendHttp2Header ops i buf ty p c = Some (0, SetStreamState i stream_open (c\<lparr> net_out := net_out c @
      [frame_bytes (frame_header (word_of_nat (length promise + length field)) ty FLAG_END_HEADERS i) @ promise @ field] \<rparr>))"
proof -
  obtain field where "hpack_build buf m_header_static_table = Some field"
    and "\<And>more. hpack_parse (field @ more) (length field) =
      Some (0, concat (map (line_header m_header_static_table) (header_lines [] buf)))"
    using build_parse [OF static_table_ok static_table_status assms(3)] by blast
  then show ?thesis
    using assms(1,2,4-6) unfolding promise
    by (intro exI [of _ field]) (auto simp: TransHttp1SendHttp2Header_def frame_types Let_def)
qed

text \<open>
  C5: the header of a response arrives. For an ASCII header text on a stream below 2^24,
  TransHttp1SendHttp2Header appends one frame; where its length fits the 24 bits the peer reads
  from it a HEADERS frame with END_HEADERS for that stream whose payload hpack::parse decodes to
  the lines of the text, and the stream is then open, whatever its state was.
\<close>

theorem headers_sent:
  assumes "get_stream_instance i c = Some s" and "net_up c" and "text_ok buf" and "0 < i" and "unat i < 2 ^ 24"
    and "op_GetMethod ops (m_http1 s) \<noteq> hmHead"
  shows "\<exists>field c'. TransHttp1SendHttp2Header ops i buf FRAME_HEADERS 0 c = Some (0, c') \<and>
    (\<exists>h. net_out c' = net_out c @ [frame_bytes h @ field] \<and>
      (length field < 2 ^ 24 \<longrightarrow> read_frame (frame_bytes h) = Some h \<and> unat (recv_payload_len h) = length field \<and>
         recv_stream_ind h = i \<and> frm_type h = FRAME_HEADERS \<and> flags h = FLAG_END_HEADERS)) \<and>
    hpack_parse (field @ [0]) (length field) =
      Some (0, concat (map (line_header m_header_static_table) (header_lines [] buf))) \<and>
    get_stream_instance i c' = Some (s\<lparr> m_stream_state := stream_open \<rparr>)"
proof -
  obtain field where f: "hpack_parse (field @ [0]) (length field) =
      Some (0, concat (map (line_header m_header_static_table) (header_lines [] buf)))"
    and sent: "TransHttp1SendHttp2Header ops i buf FRAME_HEADERS 0 c = Some (0, SetStreamState i stream_open
      (c\<lparr> net_out := net_out c @ [frame_bytes (frame_header (word_of_nat (length field)) FRAME_HEADERS FLAG_END_HEADERS i) @ field] \<rparr>))"
    using header_frame_sent [OF assms(1-4,6), of FRAME_HEADERS "[]" 0] by (auto simp: frame_types)
  let ?h = "frame_header (word_of_nat (length field)) FRAME_HEADERS FLAG_END_HEADERS i"
  have "read_frame (frame_bytes ?h) = Some ?h \<and> unat (recv_payload_len ?h) = length field \<and>
      recv_stream_ind ?h = i \<and> frm_type ?h = FRAME_HEADERS \<and> flags ?h = FLAG_END_HEADERS" if "length field < 2 ^ 24"
  proof -
    have "unat (word_of_nat (length field) :: u32) = length field"
      using that by (intro unat_u32) simp
    then show ?thesis
      using header_received [of "word_of_nat (length field)" FRAME_HEADERS FLAG_END_HEADERS i] small_ident [OF assms(5)] that
      by simp
  qed
  moreover define c' where "c' = SetStreamState i stream_open (c\<lparr> net_out := net_out c @ [frame_bytes ?h @ field] \<rparr>)"
  have "net_out c' = net_out c @ [frame_bytes ?h @ field]"
    and "get_stream_instance i c' = Some (s\<lparr> m_stream_state := stream_open \<rparr>)"
    using assms(1) by (simp_all add: c'_def SetStreamState_def)
  ultimately show ?thesis
    using f sent [folded c'_def] by blast
qed

theorem headers_sent_witness:
  "\<exists>field c'. TransHttp1SendHttp2Header quiet_h1 1 ''HTTP/1.1 200 OK'' FRAME_HEADERS 0 (small_conn stream_half_closed_remote []) = Some (0, c') \<and>
    (\<exists>h. net_out c' = net_out (small_conn stream_half_closed_remote []) @ [frame_bytes h @ field] \<and>
      (length field < 2 ^ 24 \<longrightarrow> read_frame (frame_bytes h) = Some h \<and> unat (recv_payload_len h) = length field \<and>
         recv_stream_ind h = 1 \<and> frm_type h = FRAME_HEADERS \<and> flags h = FLAG_END_HEADERS)) \<and>
    hpack_parse (field @ [0]) (length field) =
      Some (0, concat (map (line_header m_header_static_table) (header_lines [] ''HTTP/1.1 200 OK''))) \<and>
    get_stream_instance 1 c' = Some ((small_stream stream_half_closed_remote)\<lparr> m_stream_state := stream_open \<rparr>)"
proof (rule headers_sent)
  show "text_ok ''HTTP/1.1 200 OK''"
    by (simp add: text_ok_def ascii_string_def scan_status_def is_digit_def less_eq_char_def LOCH_def strtrim_def
        is_ws_def Let_def)
qed (simp_all add: quiet_h1_def)

subsection \<open>Promises\<close>









end
