(* ===== verification/Http2parse.thy ===== *)
theory Http2parse
  imports Http2send
begin

section \<open>Receiving frames (src/src/http2.cpp)\<close>

text \<open>
  \<open>ProtParse\<close> is one function of the source, cut here at the branches of its frame type: the
  admission of the frame's stream and the check of its state, then one handler per type. A
  handler returns the length of the payload, or -1 to end the session. The payload is a pointer:
  null when the frame is empty, else the received octets and the zero octet the receiver allocates
  behind them; a read through the null pointer or behind that octet has no defined meaning. Using
  the pointer to a stream that a nested call erased has none either.
\<close>

subsection \<open>Translating a header block\<close>

definition lookup_header :: "u32 \<Rightarrow> 'h CHttp2 \<Rightarrow> (string \<times> string) option" where
  "lookup_header i c =
     (if i > 0 then
        (if unat i > length m_header_static_table then mfind (m_header_dynamic_table c) (unat i)
         else mfind m_header_static_table (unat i))
      else None)"

definition resolve_header :: "HTTP2_Header \<Rightarrow> 'h CHttp2 \<Rightarrow> HTTP2_Header" where
  "resolve_header x c =
     (case lookup_header (index x) c of None \<Rightarrow> x
      | Some (n, v) \<Rightarrow>
          if index_type x = type_indexed then x\<lparr> name := cstr n, val_of := cstr v \<rparr> else x\<lparr> name := cstr n \<rparr>)"

text \<open>
  The value a table entry with index or a literal with an indexed name stands for; other literals
  leave the field as it was.
\<close>

definition picked_value :: "HTTP2_Header \<Rightarrow> string \<Rightarrow> string \<Rightarrow> string" where
  "picked_value x table_value old =
     (if index_type x = type_indexed then cstr table_value
      else if index_type x = type_with_indexing_indexed_name \<or> index_type x = type_without_indexing_indexed_name \<or>
              index_type x = type_never_indexed_indexed_name then cstr (val_of x)
      else old)"

definition request_line :: "'h h1_ops \<Rightarrow> 'h knot \<Rightarrow> u32 \<Rightarrow> 'h CHttp2 \<Rightarrow> 'h CHttp2 outcome" where
  "request_line ops k i c = do {
     s \<leftarrow> get_stream_instance i c;
     if m_method s \<noteq> [] \<and> m_path s \<noteq> []
     then http1_parse ops k i (cstr (m_method s @ '' '' @ m_path s @ '' HTTP/1.1'' @ CRLF)) c
     else Some c
   }"

text \<open>A header whose index was found in a table: \<open>(n, v)\<close> is the entry.\<close>

definition found_header :: "'h h1_ops \<Rightarrow> 'h knot \<Rightarrow> u32 \<Rightarrow> HTTP2_Header \<Rightarrow> string \<times> string \<Rightarrow> 'h CHttp2 \<Rightarrow> 'h CHttp2 outcome" where
  "found_header ops k i x e c = (case e of (n, v) \<Rightarrow>
     if strcaseeq n '':method'' then
       request_line ops k i (on_stream i (\<lambda>s. s\<lparr> m_method := picked_value x v (m_method s) \<rparr>) c)
     else if strcaseeq n '':scheme'' then Some (on_stream i (\<lambda>s. s\<lparr> m_scheme := cstr (val_of x) \<rparr>) c)
     else if strcaseeq n '':path'' then
       request_line ops k i (on_stream i (\<lambda>s. s\<lparr> m_path := picked_value x v (m_path s) \<rparr>) c)
     else if strcaseeq n '':authority'' then
       Some (on_stream i (\<lambda>s. s\<lparr> m_authority := picked_value x v (m_authority s) \<rparr>) c)
     else http1_parse ops k i (cstr n @ '': '' @ picked_value x v [] @ CRLF) c)"

definition other_header :: "'h h1_ops \<Rightarrow> 'h knot \<Rightarrow> u32 \<Rightarrow> HTTP2_Header \<Rightarrow> 'h CHttp2 \<Rightarrow> 'h CHttp2 outcome" where
  "other_header ops k i x c =
     (if strcaseeq (name x) '':method'' then
        request_line ops k i (on_stream i (\<lambda>s. s\<lparr> m_method := cstr (val_of x) \<rparr>) c)
      else if strcaseeq (name x) '':scheme'' then Some (on_stream i (\<lambda>s. s\<lparr> m_scheme := cstr (val_of x) \<rparr>) c)
      else if strcaseeq (name x) '':path'' then
        request_line ops k i (on_stream i (\<lambda>s. s\<lparr> m_path := cstr (val_of x) \<rparr>) c)
      else if strcaseeq (name x) '':authority'' then
        Some (on_stream i (\<lambda>s. s\<lparr> m_authority := cstr (val_of x) \<rparr>) c)
      else if cstr (name x) \<noteq> [] \<and> cstr (val_of x) \<noteq> [] then
        http1_parse ops k i (cstr (name x) @ '': '' @ cstr (val_of x) @ CRLF) c
      else Some c)"

text \<open>The insertion into the dynamic table: entries move up one by one from the highest.\<close>

fun shift_up :: "nat \<Rightarrow> nat \<Rightarrow> (nat, string \<times> string) stdmap \<Rightarrow> (nat, string \<times> string) stdmap" where
  "shift_up base 0 t = t"
| "shift_up base (Suc y) t =
     shift_up base y
       (case mfind t (base + Suc y) of Some e \<Rightarrow> mput (base + Suc y + 1) e t | None \<Rightarrow> t)"

definition insert_dynamic :: "string \<times> string \<Rightarrow> (nat, string \<times> string) stdmap \<Rightarrow> (nat, string \<times> string) stdmap" where
  "insert_dynamic e t =
     (let stable_size = length m_header_static_table; dtable_size = length t
      in mput (stable_size + 1) e (shift_up stable_size (if dtable_size > 4095 then 4095 else dtable_size) t))"

definition index_header :: "HTTP2_Header \<Rightarrow> 'h CHttp2 \<Rightarrow> 'h CHttp2" where
  "index_header x c =
     (if (index_type x = type_with_indexing_indexed_name \<or> index_type x = type_with_indexing_new_name) \<and> cstr (name x) \<noteq> []
      then c\<lparr> m_header_dynamic_table := insert_dynamic (name x, val_of x) (m_header_dynamic_table c) \<rparr> else c)"

fun trans_headers :: "'h h1_ops \<Rightarrow> 'h knot \<Rightarrow> u32 \<Rightarrow> HTTP2_Header list \<Rightarrow> 'h CHttp2 \<Rightarrow> 'h CHttp2 outcome" where
  "trans_headers ops k i [] c = Some c"
| "trans_headers ops k i (x # xs) c = do {
     let e = lookup_header (index x) c;
     let x = resolve_header x c;
     c \<leftarrow> (case e of Some nv \<Rightarrow> found_header ops k i x nv c | None \<Rightarrow> other_header ops k i x c);
     trans_headers ops k i xs (index_header x c)
   }"

definition TransHttp2ParseHttp1Header :: "'h h1_ops \<Rightarrow> 'h knot \<Rightarrow> u32 \<Rightarrow> HTTP2_Header list \<Rightarrow> 'h CHttp2 \<Rightarrow> 'h CHttp2 outcome" where
  "TransHttp2ParseHttp1Header ops k i hs c =
     (case get_stream_instance i c of None \<Rightarrow> Some c
      | Some _ \<Rightarrow> do {
          c \<leftarrow> trans_headers ops k i hs c;
          c \<leftarrow> (if m_enable_push c \<and> \<not> m_pushed_request c then do {
                 c \<leftarrow> send_push_promise_request ops i (c\<lparr> m_pushed_request := True \<rparr>);
                 Some (c\<lparr> m_pushed_response := False \<rparr>)
               } else Some c);
          s \<leftarrow> get_stream_instance i c;
          if op_GetMethod ops (m_http1 s) \<noteq> hmPost then Response ops k i c else Some c
        })"

subsection \<open>Admission and state check\<close>

text \<open>The stream to make room for: the choice of the loop over the list.\<close>

fun oldest_loop :: "u32 \<times> 'h http2_stream option \<Rightarrow> (u32, 'h http2_stream option) stdmap \<Rightarrow> (u32 \<times> 'h http2_stream option) outcome" where
  "oldest_loop old [] = Some old"
| "oldest_loop old ((j, p) # rest) =
     (case p of
        Some s \<Rightarrow>
          if m_stream_state s = stream_closed then oldest_loop (j, p) rest
          else (case snd old of None \<Rightarrow> None
            | Some old_s \<Rightarrow> if m_last_used_time old_s > m_last_used_time s then oldest_loop (j, p) rest else oldest_loop old rest)
      | None \<Rightarrow> Some (j, p))"

definition make_room :: "'h CHttp2 \<Rightarrow> 'h CHttp2 outcome" where
  "make_room c =
     (if length (m_stream_list c) > 0 \<and> length (m_stream_list c) \<ge> unat (m_max_concurrent_streams c) then do {
        (j, p) \<leftarrow> oldest_loop (hd (m_stream_list c)) (m_stream_list c);
        c \<leftarrow> send_rst_stream j c;
        Some (c\<lparr> m_stream_list := merase j (m_stream_list c) \<rparr>)
      } else Some c)"

definition admit_stream :: "'h h1_ops \<Rightarrow> u32 \<Rightarrow> 'h CHttp2 \<Rightarrow> (int \<times> 'h CHttp2 + 'h CHttp2) outcome" where
  "admit_stream ops i c =
     (if (case mfind (m_stream_list c) i of Some (Some _) \<Rightarrow> True | _ \<Rightarrow> False) then Some (Inr c)
      else do {
        c \<leftarrow> make_room c;
        let inst = create_stream_instance ops i c;
        let (m, inserted) = minsert i inst (m_stream_list c);
        let c = c\<lparr> m_stream_list := m \<rparr>;
        if \<not> inserted \<or> inst = None then Some (Inl (- 1, send_goaway i PROTOCOL_ERROR c)) else Some (Inr c)
      })"

text \<open>The error a frame of a type is answered with in a state.\<close>

definition state_error :: "stream_state_e \<Rightarrow> byte \<Rightarrow> u32 option" where
  "state_error state ty =
     (if state = stream_idle \<and> ty \<noteq> FRAME_HEADERS \<and> ty \<noteq> FRAME_PRIORITY then Some PROTOCOL_ERROR
      else if state = stream_reserved_local \<and> ty \<noteq> FRAME_RST_STREAM \<and> ty \<noteq> FRAME_PRIORITY \<and> ty \<noteq> FRAME_WINDOW_UPDATE
      then Some STREAM_CLOSED
      else if state = stream_half_closed_remote \<and> ty \<noteq> FRAME_RST_STREAM \<and> ty \<noteq> FRAME_PRIORITY \<and> ty \<noteq> FRAME_WINDOW_UPDATE
      then Some STREAM_CLOSED
      else if state = stream_closed \<and> ty \<noteq> FRAME_PRIORITY \<and> ty \<noteq> FRAME_WINDOW_UPDATE \<and> ty \<noteq> FRAME_RST_STREAM
      then Some STREAM_CLOSED
      else None)"

definition gate :: "'h h1_ops \<Rightarrow> byte \<Rightarrow> u32 \<Rightarrow> 'h CHttp2 \<Rightarrow> (int \<times> 'h CHttp2 + 'h CHttp2) outcome" where
  "gate ops ty i c =
     (if i > 0 then do {
        r \<leftarrow> admit_stream ops i c;
        case r of Inl x \<Rightarrow> Some (Inl x)
        | Inr c \<Rightarrow> do {
            _ \<leftarrow> get_stream_instance i c;
            let c = RefreshLastUsedTime i c;
            s \<leftarrow> get_stream_instance i c;
            (case state_error (m_stream_state s) ty of
               Some e \<Rightarrow> Some (Inl (- 1, send_goaway i e c))
             | None \<Rightarrow> Some (Inr c))
          }
      } else Some (Inr c))"

subsection \<open>The payload\<close>

type_synonym payload = "bytes option"

definition pl_byte :: "payload \<Rightarrow> nat \<Rightarrow> byte outcome" where
  "pl_byte p i = do { m \<leftarrow> p; rd m i }"

definition pl_word :: "payload \<Rightarrow> nat \<Rightarrow> u32 outcome" where
  "pl_word p i = do {
     b0 \<leftarrow> pl_byte p i; b1 \<leftarrow> pl_byte p (i + 1); b2 \<leftarrow> pl_byte p (i + 2); b3 \<leftarrow> pl_byte p (i + 3);
     Some (le32 b0 b1 b2 b3)
   }"

definition pl_half :: "payload \<Rightarrow> nat \<Rightarrow> u16 outcome" where
  "pl_half p i = do {
     b0 \<leftarrow> pl_byte p i; b1 \<leftarrow> pl_byte p (i + 1);
     Some (ucast b0 OR push_bit 8 (ucast b1))
   }"

text \<open>The memory from an offset on; a null pointer with an offset is never read.\<close>

definition pl_from :: "payload \<Rightarrow> nat \<Rightarrow> bytes" where
  "pl_from p i = (case p of None \<Rightarrow> [] | Some m \<Rightarrow> drop i m)"

subsection \<open>Handlers\<close>

definition handle_goaway :: "payload \<Rightarrow> 'h CHttp2 \<Rightarrow> (int \<times> 'h CHttp2) outcome" where
  "handle_goaway payload c = do {
     last_stream_id \<leftarrow> pl_word payload 0;
     error_code \<leftarrow> pl_word payload 4;
     Some (- 1, c)
   }"

text \<open>The loop that moves the dependants of \<open>dep\<close> to the stream, over the whole list.\<close>

definition adopt_dependants :: "u32 \<Rightarrow> u32 \<Rightarrow> 'h CHttp2 \<Rightarrow> 'h CHttp2" where
  "adopt_dependants dep i c =
     c\<lparr> m_stream_list := map (\<lambda>(j, p). (j, map_option
          (\<lambda>s. if m_dependency_stream s = dep then s\<lparr> m_dependency_stream := dependency_of i c \<rparr> else s) p))
          (m_stream_list c) \<rparr>"

definition handle_priority :: "u32 \<Rightarrow> payload \<Rightarrow> nat \<Rightarrow> 'h CHttp2 \<Rightarrow> (int \<times> 'h CHttp2) outcome" where
  "handle_priority i payload payload_len c =
     (if i = 0 then Some (- 1, send_goaway i PROTOCOL_ERROR c)
      else case get_stream_instance i c of None \<Rightarrow> Some (- 1, c)
      | Some _ \<Rightarrow> do {
          w \<leftarrow> pl_word payload 0;
          let dep_ind = recv_31 w;
          let c = SetDependencyStream i dep_ind c;
          weight \<leftarrow> pl_byte payload 4;
          let c = SetPriorityWeight i (ucast weight) c;
          let c = (if field_r w = 1 \<and> dep_ind \<noteq> 0 then adopt_dependants dep_ind i c else c);
          Some (int payload_len, c)
        })"

text \<open>The priority fields of a HEADERS frame; the loop of this copy uses every pointer of the list.\<close>

definition headers_priority :: "u32 \<Rightarrow> payload \<Rightarrow> nat \<Rightarrow> 'h CHttp2 \<Rightarrow> 'h CHttp2 outcome" where
  "headers_priority i payload offset c = do {
     w \<leftarrow> pl_word payload offset;
     weight \<leftarrow> pl_byte payload (offset + 4);
     let dep_ind = recv_31 w;
     if i > 0 \<and> get_stream_instance i c \<noteq> None then do {
       let c = SetPriorityWeight i (ucast weight) (SetDependencyStream i dep_ind c);
       if field_r w = 1 \<and> dep_ind \<noteq> 0 then
         (if \<exists>(j, p) \<in> set (m_stream_list c). p = None then None else Some (adopt_dependants dep_ind i c))
       else Some c
     } else Some c
   }"

definition recreate_closed :: "'h h1_ops \<Rightarrow> u32 \<Rightarrow> 'h CHttp2 \<Rightarrow> (int \<times> 'h CHttp2 + 'h CHttp2)" where
  "recreate_closed ops i c =
     (let it = mfind (m_stream_list c) i
      in if (case it of Some (Some s) \<Rightarrow> m_stream_state s = stream_closed | _ \<Rightarrow> True) then
           let c = (case it of Some (Some _) \<Rightarrow> c\<lparr> m_stream_list := merase i (m_stream_list c) \<rparr> | _ \<Rightarrow> c);
               inst = create_stream_instance ops i c;
               (m, inserted) = minsert i inst (m_stream_list c);
               c = c\<lparr> m_stream_list := m \<rparr>
           in if \<not> inserted \<or> inst = None then Inl (- 1, send_goaway i PROTOCOL_ERROR c) else Inr c
         else Inr c)"

text \<open>\<open>http2_stream::hpack_parse\<close>: the fragments of a header block are parsed one by one into the
  same list. A negative length parses nothing.\<close>

definition stream_hpack_parse :: "u32 \<Rightarrow> bytes \<Rightarrow> u32 \<Rightarrow> 'h CHttp2 \<Rightarrow> (int \<times> 'h CHttp2) outcome" where
  "stream_hpack_parse i field len c = do {
     s \<leftarrow> get_stream_instance i c;
     (rc, hs) \<leftarrow> hpack_parse field (if sint len < 0 then 0 else unat len);
     let old = (case m_hpack s of None \<Rightarrow> [] | Some hs \<Rightarrow> hs);
     Some (rc, on_stream i (\<lambda>s. s\<lparr> m_hpack := Some (old @ hs) \<rparr>) c)
   }"

text \<open>The end of the header block: translate it and forget it.\<close>

definition end_headers :: "'h h1_ops \<Rightarrow> 'h knot \<Rightarrow> byte \<Rightarrow> u32 \<Rightarrow> 'h CHttp2 \<Rightarrow> 'h CHttp2 outcome" where
  "end_headers ops k fl i c =
     (if has_flag fl FLAG_END_HEADERS then do {
        s \<leftarrow> get_stream_instance i c;
        c \<leftarrow> TransHttp2ParseHttp1Header ops k i (case m_hpack s of None \<Rightarrow> [] | Some hs \<Rightarrow> hs) c;
        _ \<leftarrow> get_stream_instance i c;
        Some (on_stream i (\<lambda>s. s\<lparr> m_hpack := None \<rparr>) c)
      } else Some c)"

definition end_stream :: "byte \<Rightarrow> u32 \<Rightarrow> 'h CHttp2 \<Rightarrow> 'h CHttp2 outcome" where
  "end_stream fl i c =
     (if has_flag fl FLAG_END_STREAM then do {
        s \<leftarrow> get_stream_instance i c;
        Some (SetStreamState i (if m_stream_state s \<noteq> stream_half_closed_local then stream_half_closed_remote else stream_closed) c)
      } else Some c)"

definition handle_headers :: "'h h1_ops \<Rightarrow> 'h knot \<Rightarrow> byte \<Rightarrow> u32 \<Rightarrow> payload \<Rightarrow> nat \<Rightarrow> 'h CHttp2 \<Rightarrow> (int \<times> 'h CHttp2) outcome" where
  "handle_headers ops k fl i payload payload_len c =
     (case (if i > 0 then recreate_closed ops i c else Inr c) of
        Inl x \<Rightarrow> Some x
      | Inr c \<Rightarrow> do {
          (padding_len, offset) \<leftarrow> (if has_flag fl FLAG_PADDED then do {
              b \<leftarrow> pl_byte payload 0;
              Some (unat b, 1)
            } else Some (0, 0));
          (c, offset) \<leftarrow> (if has_flag fl FLAG_PRIORITY then do {
              c \<leftarrow> headers_priority i payload offset c;
              Some (c, offset + 5)
            } else Some (c, offset));
          let fragment_len = (word_of_int (int payload_len - int offset - int padding_len) :: u32);
          if i > 0 \<and> get_stream_instance i c \<noteq> None then do {
            let c = SetStreamState i stream_open c;
            (rc, c) \<leftarrow> stream_hpack_parse i (pl_from payload offset) fragment_len c;
            if rc < 0 then Some (- 1, send_goaway i COMPRESSION_ERROR c)
            else do {
              c \<leftarrow> end_headers ops k fl i c;
              c \<leftarrow> end_stream fl i c;
              Some (int payload_len, c)
            }
          } else Some (int payload_len, c)
        })"

definition handle_continuation :: "'h h1_ops \<Rightarrow> 'h knot \<Rightarrow> byte \<Rightarrow> u32 \<Rightarrow> payload \<Rightarrow> nat \<Rightarrow> 'h CHttp2 \<Rightarrow> (int \<times> 'h CHttp2) outcome" where
  "handle_continuation ops k fl i payload payload_len c =
     (case get_stream_instance i c of None \<Rightarrow> Some (- 1, send_goaway i PROTOCOL_ERROR c)
      | Some _ \<Rightarrow> do {
          (rc, c) \<leftarrow> stream_hpack_parse i (pl_from payload 0) (word_of_nat payload_len) c;
          if rc < 0 then Some (- 1, send_goaway i COMPRESSION_ERROR c)
          else do {
            c \<leftarrow> end_headers ops k fl i c;
            Some (int payload_len, c)
          }
        })"

definition handle_push_promise :: "u32 \<Rightarrow> 'h CHttp2 \<Rightarrow> (int \<times> 'h CHttp2) outcome" where
  "handle_push_promise i c = Some (- 1, send_goaway i PROTOCOL_ERROR c)"

definition apply_setting :: "u16 \<Rightarrow> u32 \<Rightarrow> 'h CHttp2 \<Rightarrow> 'h CHttp2" where
  "apply_setting identifier v c =
     (if identifier = 1 then c\<lparr> m_header_table_size := v \<rparr>
      else if identifier = 2 then c\<lparr> m_enable_push := (v \<noteq> 0) \<rparr>
      else if identifier = 3 then c\<lparr> m_max_concurrent_streams := v \<rparr>
      else if identifier = 4 then c\<lparr> m_initial_peer_window_size := v \<rparr>
      else if identifier = 5 then c\<lparr> m_max_frame_size := v \<rparr>
      else if identifier = 6 then c\<lparr> m_max_header_list_size := v \<rparr>
      else c)"

text \<open>One setting is read, whatever the length of the payload.\<close>

definition handle_settings :: "HTTP2_Frame \<Rightarrow> payload \<Rightarrow> nat \<Rightarrow> 'h CHttp2 \<Rightarrow> (int \<times> 'h CHttp2) outcome" where
  "handle_settings frame_hdr payload payload_len c =
     (if \<not> has_flag (flags frame_hdr) FLAG_ACK then do {
        identifier \<leftarrow> pl_half payload 0;
        v \<leftarrow> pl_word payload 2;
        let c = apply_setting (htons identifier) (htonl v) c;
        Some (int payload_len, send_setting_ack (recv_stream_ind frame_hdr) c)
      } else Some (int payload_len, c))"

definition push_data :: "'h h1_ops \<Rightarrow> 'h knot \<Rightarrow> u32 \<Rightarrow> bytes \<Rightarrow> u32 \<Rightarrow> 'h CHttp2 \<Rightarrow> 'h CHttp2 outcome" where
  "push_data ops k i buf len c = do {
     s \<leftarrow> get_stream_instance i c;
     (h, more) \<leftarrow> op_PushPostData ops (m_http1 s) buf (sint len);
     let c = on_stream i (\<lambda>s. s\<lparr> m_http1 := h \<rparr>) c;
     if \<not> more then Response ops k i c else Some c
   }"

definition handle_data :: "'h h1_ops \<Rightarrow> 'h knot \<Rightarrow> byte \<Rightarrow> u32 \<Rightarrow> payload \<Rightarrow> nat \<Rightarrow> 'h CHttp2 \<Rightarrow> (int \<times> 'h CHttp2) outcome" where
  "handle_data ops k fl i payload payload_len c = do {
     let inst = get_stream_instance i c;
     let n = (word_of_nat payload_len :: u32);
     let c = c\<lparr> m_local_control_window_size := m_local_control_window_size c - n \<rparr>;
     let c = (case inst of None \<Rightarrow> c | Some _ \<Rightarrow> DecreaseLocalWindowSize i n c);
     let c = send_window_update i n c;
     case get_stream_instance i c of
       None \<Rightarrow> if i = 0 then Some (- 1, send_goaway i STREAM_CLOSED c) else Some (int payload_len, c)
     | Some s \<Rightarrow>
         if i = 0 \<or> m_stream_state s \<noteq> stream_open then Some (- 1, send_goaway i STREAM_CLOSED c)
         else do {
           c \<leftarrow> (if has_flag fl FLAG_PADDED then do {
                  pad \<leftarrow> pl_byte payload 0;
                  push_data ops k i (pl_from payload 1) (n - ucast pad) c
                } else push_data ops k i (pl_from payload 0) n c);
           c \<leftarrow> end_stream fl i c;
           Some (int payload_len, c)
         }
   }"

definition handle_window_update :: "u32 \<Rightarrow> payload \<Rightarrow> nat \<Rightarrow> 'h CHttp2 \<Rightarrow> (int \<times> 'h CHttp2) outcome" where
  "handle_window_update i payload payload_len c = do {
     w \<leftarrow> pl_word payload 0;
     let win_size = recv_31 w;
     if win_size = 0 then Some (int payload_len, send_goaway i PROTOCOL_ERROR c)
     else if i = 0 then
       Some (int payload_len, c\<lparr> m_peer_control_window_size := m_peer_control_window_size c + win_size \<rparr>)
     else Some (int payload_len, IncreasePeerWindowSize i win_size c)
   }"

definition handle_rst_stream :: "u32 \<Rightarrow> payload \<Rightarrow> nat \<Rightarrow> 'h CHttp2 \<Rightarrow> (int \<times> 'h CHttp2) outcome" where
  "handle_rst_stream i payload payload_len c =
     (case (if i > 0 then get_stream_instance i c else None) of
        None \<Rightarrow> Some (int payload_len, send_goaway i PROTOCOL_ERROR c)
      | Some s \<Rightarrow>
          if m_stream_state s = stream_idle then Some (int payload_len, send_goaway i PROTOCOL_ERROR c)
          else do {
            let c = c\<lparr> m_stream_list := merase i (m_stream_list c) \<rparr>;
            error_code \<leftarrow> pl_word payload 0;
            Some (int payload_len, if error_code > NO_ERROR then send_goaway i (htonl error_code) c else c)
          })"

definition handle_ping :: "HTTP2_Frame \<Rightarrow> payload \<Rightarrow> nat \<Rightarrow> 'h CHttp2 \<Rightarrow> (int \<times> 'h CHttp2) outcome" where
  "handle_ping frame_hdr payload payload_len c =
     (if \<not> has_flag (flags frame_hdr) FLAG_ACK then do {
        m \<leftarrow> payload;
        data \<leftarrow> rd_n m 0 8;
        Some (int payload_len, send_buf (frame_bytes ((frame_header 8 FRAME_PING FLAG_ACK 0)
            \<lparr> r_ident := pack_r 0 (field_31 (r_ident frame_hdr)) \<rparr>) @ data) c)
      } else Some (int payload_len, c))"

subsection \<open>\<open>ProtParse\<close> and \<open>ProtRecv\<close>\<close>

definition ProtParse :: "'h h1_ops \<Rightarrow> 'h knot \<Rightarrow> HTTP2_Frame \<Rightarrow> payload \<Rightarrow> nat \<Rightarrow> u32 \<Rightarrow> 'h CHttp2 \<Rightarrow> (int \<times> 'h CHttp2) outcome" where
  "ProtParse ops k frame_hdr payload payload_len i c = do {
     r \<leftarrow> gate ops (frm_type frame_hdr) i c;
     case r of Inl x \<Rightarrow> Some x
     | Inr c \<Rightarrow>
         let ty = frm_type frame_hdr; fl = flags frame_hdr
         in if ty = FRAME_GOAWAY then handle_goaway payload c
            else if ty = FRAME_PRIORITY then handle_priority i payload payload_len c
            else if ty = FRAME_HEADERS then handle_headers ops k fl i payload payload_len c
            else if ty = FRAME_CONTINUATION then handle_continuation ops k fl i payload payload_len c
            else if ty = FRAME_PUSH_PROMISE then handle_push_promise i c
            else if ty = FRAME_SETTINGS then handle_settings frame_hdr payload payload_len c
            else if ty = FRAME_DATA then handle_data ops k fl i payload payload_len c
            else if ty = FRAME_WINDOW_UPDATE then handle_window_update i payload payload_len c
            else if ty = FRAME_RST_STREAM then handle_rst_stream i payload payload_len c
            else if ty = FRAME_PING then handle_ping frame_hdr payload payload_len c
            else Some (int payload_len, c)
   }"

definition ProtRecv :: "'h h1_ops \<Rightarrow> 'h knot \<Rightarrow> 'h CHttp2 \<Rightarrow> (int \<times> 'h CHttp2) outcome" where
  "ProtRecv ops k c =
     (let (hdr, c) = HttpRecv sizeof_HTTP2_Frame c
      in case read_frame hdr of
           None \<Rightarrow> Some (- 1, c)
         | Some frame_hdr \<Rightarrow>
             let payload_len = unat (recv_payload_len frame_hdr); stream_ind = recv_stream_ind frame_hdr
             in if payload_len > 0 then
                  let (payload, c) = HttpRecv payload_len c
                  in if length payload \<noteq> payload_len then Some (- 1, c)
                     else ProtParse ops k frame_hdr (Some (payload @ [0])) payload_len stream_ind c
                else ProtParse ops k frame_hdr None payload_len stream_ind c)"

text \<open>
  The knot: each level of nested calls has one unit of fuel less, and without fuel nothing is
  defined. The loops that wait for the peer get the same number.
\<close>

fun run :: "'h h1_ops \<Rightarrow> nat \<Rightarrow> 'h knot" where
  "run ops 0 t c = None"
| "run ops (Suc n) t c =
     (case t of
        Recv \<Rightarrow> ProtRecv ops (run ops n) c
      | Calls i calls \<Rightarrow> map_option (\<lambda>c. (0, c)) (perform ops n (run ops n) i calls c))"

datatype Http_Connection = httpContinue | httpKeepAlive | httpClose | httpWebSocket

text \<open>\<open>Processing\<close>: frames until one of them returns 0 or less; the fuel bounds their number too.\<close>

fun Processing :: "'h h1_ops \<Rightarrow> nat \<Rightarrow> 'h CHttp2 \<Rightarrow> (Http_Connection \<times> 'h CHttp2) outcome" where
  "Processing ops 0 c = None"
| "Processing ops (Suc n) c = do {
     (r, c) \<leftarrow> run ops (Suc n) Recv c;
     if r \<le> 0 then Some (httpClose, c) else Processing ops n c
   }"

end
