(* ===== verification/Http2recv.thy ===== *)
theory Http2recv
  imports Http2parse
begin

section \<open>What the receiver does\<close>

text \<open>
  The dynamic table as a list, the admission of a stream and its bound, the check of the stream's
  state, and the effect of SETTINGS, PING, PRIORITY and DATA frames, with the places where the
  code departs from the protocol or reads through a null pointer.
\<close>

subsection \<open>The dynamic table\<close>

definition dyn_table :: "(string \<times> string) list \<Rightarrow> (nat, string \<times> string) stdmap" where
  "dyn_table es = zip [62 ..< 62 + length es] es"

lemma keys_dyn_table: "keys_ok (dyn_table es)"
  by (simp add: keys_ok_def dyn_table_def)

lemma length_dyn_table [simp]: "length (dyn_table es) = length es"
  by (simp add: dyn_table_def)

lemma mfind_zip: "mfind (zip [b ..< b + length es] es) k = (if b \<le> k \<and> k < b + length es then Some (es ! (k - b)) else None)"
proof (induction es arbitrary: b)
  case (Cons e es)
  have "[b ..< b + length (e # es)] = b # [Suc b ..< Suc b + length es]"
    by (simp add: upt_rec)
  then show ?case
    using Cons [of "Suc b"] by (auto simp: nth_Cons' Suc_diff_Suc)
qed simp

lemma mfind_dyn_table:
  "mfind (dyn_table es) k = (if 62 \<le> k \<and> k < 62 + length es then Some (es ! (k - 62)) else None)"
  by (simp add: dyn_table_def mfind_zip)

lemma mfind_shift_up:
  "mfind (shift_up b y t) k =
     (if b + 1 < k \<and> k \<le> b + y + 1 \<and> mfind t (k - 1) \<noteq> None then mfind t (k - 1) else mfind t k)"
proof (induction y arbitrary: t)
  case (Suc y)
  show ?case
  proof (cases "mfind t (b + Suc y)")
    case None
    then have "shift_up b (Suc y) t = shift_up b y t"
      by simp
    moreover have "k = b + Suc y + 1 \<Longrightarrow> mfind t (k - 1) = None"
      using None by simp
    ultimately show ?thesis
      using Suc [of t] by (metis add_Suc_right add_Suc_shift le_Suc_eq plus_1_eq_Suc add.commute)
  next
    case (Some e)
    then have "shift_up b (Suc y) t = shift_up b y (mput (b + Suc y + 1) e t)"
      by simp
    then show ?thesis
      using Suc [of "mput (b + Suc y + 1) e t"] Some by (cases e) auto
  qed
qed auto

lemma keys_ok_shift_up [simp]: "keys_ok t \<Longrightarrow> keys_ok (shift_up b y t)"
  by (induction y arbitrary: t) (auto split: option.splits)

lemma insert_dynamic_table:
  assumes "length es \<le> 4096"
  shows "insert_dynamic e (dyn_table es) = dyn_table (take 4096 (e # es))"
proof -
  have "mfind (insert_dynamic e (dyn_table es)) j = mfind (dyn_table (take 4096 (e # es))) j" for j
  proof -
    consider "j < 62" | "j = 62" | i where "j = 63 + i"
      by (metis add.commute add_diff_inverse_nat eval_nat_numeral(3) less_antisym semiring_norm(28) not_less_eq linorder_neqE_nat)
    then show ?thesis
    proof cases
      case 3
      obtain a b where "es ! i = (a, b)"
        by fastforce
      with 3 show ?thesis
        using assms by (auto simp: insert_dynamic_def Let_def mfind_shift_up mfind_dyn_table min_def)
    qed (simp_all add: insert_dynamic_def Let_def mfind_shift_up mfind_dyn_table)
  qed
  moreover have "keys_ok (insert_dynamic e (dyn_table es))"
    by (simp add: insert_dynamic_def Let_def keys_dyn_table)
  ultimately show ?thesis
    by (intro keys_ok_ext keys_dyn_table)
qed

text \<open>
  C8: the dynamic table is a list with the newest entry first. For a table of at most 4096
  entries, the insertion loop puts the new entry in front, moves every other one up by one and
  drops the 4097th; the k-th entry of the list is found at index 61 + k. (The bound counts
  entries, where RFC 7541 counts octets, and the table size a client sets is not looked at.)
\<close>

theorem insert_dynamic_refines:
  assumes "length es \<le> 4096"
  shows "insert_dynamic e (dyn_table es) = dyn_table (take 4096 (e # es)) \<and>
    mfind (insert_dynamic e (dyn_table es)) 62 = Some e \<and>
    mfind (insert_dynamic e (dyn_table es)) (63 + k) = (if k < 4095 \<and> k < length es then Some (es ! k) else None)"
  unfolding insert_dynamic_table [OF assms] by (auto simp: mfind_dyn_table nth_Cons')

theorem insert_dynamic_refines_witness:
  "insert_dynamic (''b'', ''2'') (dyn_table [(''a'', ''1'')]) = dyn_table (take 4096 [(''b'', ''2''), (''a'', ''1'')]) \<and>
    mfind (insert_dynamic (''b'', ''2'') (dyn_table [(''a'', ''1'')])) 62 = Some (''b'', ''2'') \<and>
    mfind (insert_dynamic (''b'', ''2'') (dyn_table [(''a'', ''1'')])) (63 + 0) = Some (''a'', ''1'')"
  using insert_dynamic_refines [of "[(''a'', ''1'')]" "(''b'', ''2'')" 0] by (simp add: mfind_dyn_table)

subsection \<open>Admission\<close>

text \<open>A stream list without null pointers, in the order of \<open>std::map\<close>.\<close>

definition streams_ok :: "(u32, 'h http2_stream option) stdmap \<Rightarrow> bool" where
  "streams_ok m \<longleftrightarrow> keys_ok m \<and> (\<forall>(j, p)\<in>set m. j \<noteq> 0 \<and> p \<noteq> None)"

lemma streams_ok_iff: "streams_ok m \<longleftrightarrow> keys_ok m \<and> (\<forall>j p. mfind m j = Some p \<longrightarrow> j \<noteq> 0 \<and> p \<noteq> None)"
proof (cases "keys_ok m")
  case True
  have "(j, p) \<in> set m \<longleftrightarrow> mfind m j = Some p" for j p
    using in_set_mfind [OF True] mfind_in_set by metis
  then show ?thesis
    by (simp add: streams_ok_def Ball_def split_paired_All)
qed (simp add: streams_ok_def)





lemma streams_ok_mmap: "streams_ok m \<Longrightarrow> streams_ok (mmap j (map_option f) m)"
  by (auto simp: streams_ok_iff)






subsection \<open>The state check\<close>

definition goaway_frame :: "u32 \<Rightarrow> u32 \<Rightarrow> bytes" where
  "goaway_frame i e = frame_bytes (frame_header 8 FRAME_GOAWAY FLAG_UNSET 0) @
     bytes_le32 (pack_r 0 (drop_bit 1 (htonl i))) @ bytes_le32 (htonl e)"

lemma send_goaway_simps [simp]:
  "net_out (send_goaway i e c) = (if net_up c then net_out c @ [goaway_frame i e] else net_out c)"
  "m_stream_list (send_goaway i e c) = m_stream_list c"
  by (simp_all add: send_goaway_def goaway_frame_def send_buf_def HttpSend_def)




subsection \<open>Settings\<close>

lemma recv_frame:
  assumes "unat n < 2 ^ 24" and "unat i < 2 ^ 24" and "net_in c = frame_bytes (frame_header n ty fl i) @ rest"
  shows "ProtRecv ops k c = (let c = c\<lparr> net_in := rest \<rparr> in
     if n = 0 then ProtParse ops k (frame_header n ty fl i) None 0 i c
     else let (payload, c) = HttpRecv (unat n) c
       in if length payload \<noteq> unat n then Some (- 1, c)
          else ProtParse ops k (frame_header n ty fl i) (Some (payload @ [0])) (unat n) i c)"
proof -
  let ?h = "frame_header n ty fl i"
  have t: "take 9 (frame_bytes ?h @ r) = frame_bytes ?h" "drop 9 (frame_bytes ?h @ r) = r" for r
    using length_frame_bytes [of ?h] by (simp_all add: sizeof_HTTP2_Frame_def)
  have r: "HttpRecv sizeof_HTTP2_Frame c = (frame_bytes ?h, c\<lparr> net_in := rest \<rparr>)"
    unfolding HttpRecv_def assms(3) sizeof_HTTP2_Frame_def t ..
  show ?thesis
    unfolding ProtRecv_def r using header_received [OF assms(1), of ty fl i] small_ident [OF assms(2)]
    by (simp add: Let_def unat_eq_0 split: prod.split)
qed

text \<open>
  acknowledging the server's settings closes the connection. The acknowledgement the protocol
  demands of a client has an empty payload, so the receiver returns 0, and Processing, the loop of
  the synchronous build, takes 0 for the end: it closes with the rest of the input unread.
\<close>

theorem settings_ack_closes:
  assumes "net_in c = frame_bytes (frame_header 0 FRAME_SETTINGS FLAG_ACK 0) @ rest"
  shows "Processing ops (Suc n) c = Some (httpClose, c\<lparr> net_in := rest \<rparr>)"
proof -
  have "ProtRecv ops (run ops n) c = Some (0, c\<lparr> net_in := rest \<rparr>)"
    using recv_frame [of 0 0 c FRAME_SETTINGS FLAG_ACK rest ops "run ops n"] assms
    by (simp add: ProtParse_def gate_def handle_settings_def has_flag_def frame_types)
  then show ?thesis
    by simp
qed

theorem settings_ack_closes_witness:
  "\<exists>c'. Processing quiet_h1 1 (small_conn stream_open
      (frame_bytes (frame_header 0 FRAME_SETTINGS FLAG_ACK 0) @ frame_bytes (frame_header 5 FRAME_HEADERS FLAG_END_HEADERS 3))) =
    Some (httpClose, c') \<and> net_in c' = frame_bytes (frame_header 5 FRAME_HEADERS FLAG_END_HEADERS 3)"
  using settings_ack_closes [of "small_conn stream_open
      (frame_bytes (frame_header 0 FRAME_SETTINGS FLAG_ACK 0) @ frame_bytes (frame_header 5 FRAME_HEADERS FLAG_END_HEADERS 3))"
      "frame_bytes (frame_header 5 FRAME_HEADERS FLAG_END_HEADERS 3)" quiet_h1 0]
  by simp

text \<open>
  an empty frame can crash the server. A SETTINGS frame that is not an acknowledgement, a PING
  that is none, a GOAWAY and a WINDOW_UPDATE for the connection are handled with a null payload
  pointer when their length is 0, and each handler reads through it.
\<close>

theorem empty_frame_undefined:
  assumes "net_in c = frame_bytes (frame_header 0 ty fl 0) @ rest"
    and "ty \<in> {FRAME_GOAWAY, FRAME_WINDOW_UPDATE} \<or> ty \<in> {FRAME_SETTINGS, FRAME_PING} \<and> \<not> has_flag fl FLAG_ACK"
  shows "ProtRecv ops k c = None"
  using recv_frame [of 0 0 c ty fl rest ops k] assms
  by (auto simp: ProtParse_def gate_def handle_goaway_def handle_window_update_def handle_settings_def handle_ping_def
      pl_word_def pl_half_def pl_byte_def frame_types)

theorem empty_frame_undefined_witness:
  "ProtRecv quiet_h1 (\<lambda>t c. None) (small_conn stream_open (frame_bytes (frame_header 0 FRAME_SETTINGS FLAG_UNSET 0))) = None"
  by (rule empty_frame_undefined [where rest = "[]"]) (auto simp: has_flag_def FLAG_UNSET_def FLAG_ACK_def)

lemma send_setting_ack_fields [simp]:
  "net_in (send_setting_ack i c) = net_in c"
  by (simp add: send_setting_ack_def send_buf_def HttpSend_def)

lemma pl_half_bytes: "pl_half (Some (bytes_le16 w @ r)) 0 = Some w"
proof -
  have "(ucast (ucast w :: byte) :: u16) OR push_bit 8 (ucast (ucast (drop_bit 8 w) :: byte)) = w"
    by (rule bit_word_eqI) (auto simp: bit_simps)
  then show ?thesis
    by (simp add: pl_half_def pl_byte_def bytes_le16_def rd_def)
qed

lemma pl_word_bytes: "pl_word (Some (pre @ bytes_le32 w @ r)) (length pre) = Some w"
  by (simp add: pl_word_def pl_byte_def bytes_le32_def rd_def nth_append)

text \<open>
  of a SETTINGS frame only the first parameter counts. For a frame of 1 + m parameters the
  first is applied, all others are skipped, and the whole frame is acknowledged; the input moves
  on behind it.
\<close>

theorem settings_first_only:
  assumes "net_in c = frame_bytes (frame_header (word_of_nat (6 + length others)) FRAME_SETTINGS FLAG_UNSET 0) @
      setting_bytes ident v @ others @ rest" and "length others < 1000"
  shows "ProtRecv ops k c = Some (int (6 + length others), send_setting_ack 0 (apply_setting ident v (c\<lparr> net_in := rest \<rparr>)))"
proof -
  define n :: u32 where "n = word_of_nat (6 + length others)"
  let ?p = "setting_bytes ident v @ others"
  have u: "unat n = 6 + length others"
    unfolding n_def using assms(2) by (intro unat_u32) simp
  have n0: "n \<noteq> 0"
    using u by (metis add_is_0 unat_0 zero_neq_numeral)
  have len: "length ?p = 6 + length others"
    by (simp add: setting_bytes_def bytes_le16_def)
  have "take (6 + length others) (?p @ rest) = ?p" "drop (6 + length others) (?p @ rest) = rest"
    by (simp_all only: len [symmetric] append_eq_conv_conj [THEN iffD1, OF refl] drop_append) simp_all
  then have recv: "HttpRecv (6 + length others) (c\<lparr> net_in := setting_bytes ident v @ others @ rest \<rparr>) = (?p, c\<lparr> net_in := rest \<rparr>)"
    by (simp add: HttpRecv_def)
  have half: "pl_half (Some (?p @ [0])) 0 = Some (htons ident)"
    using pl_half_bytes [of "htons ident" "bytes_le32 (htonl v) @ others @ [0]"] by (simp add: setting_bytes_def)
  have word: "pl_word (Some (?p @ [0])) 2 = Some (htonl v)"
    using pl_word_bytes [of "bytes_le16 (htons ident)" "htonl v" "others @ [0]"]
    by (simp add: setting_bytes_def bytes_le16_def numeral_2_eq_2)
  have parse: "ProtParse ops k (frame_header n FRAME_SETTINGS FLAG_UNSET 0) (Some (?p @ [0])) (6 + length others) 0 d =
      Some (int (6 + length others), send_setting_ack 0 (apply_setting ident v d))" for d
  proof -
    have "recv_stream_ind (frame_header n FRAME_SETTINGS FLAG_UNSET 0) = 0"
      using header_received(3) [of n FRAME_SETTINGS FLAG_UNSET 0] u assms(2) by simp
    moreover have "\<not> has_flag FLAG_UNSET FLAG_ACK"
      by (simp add: has_flag_def FLAG_UNSET_def FLAG_ACK_def)
    ultimately show ?thesis
      unfolding ProtParse_def handle_settings_def half word by (simp add: gate_def half word frame_types)
  qed
  have "ProtRecv ops k c = (let c = c\<lparr> net_in := setting_bytes ident v @ others @ rest \<rparr> in
     if n = 0 then ProtParse ops k (frame_header n FRAME_SETTINGS FLAG_UNSET 0) None 0 0 c
     else let (payload, c) = HttpRecv (unat n) c
       in if length payload \<noteq> unat n then Some (- 1, c)
          else ProtParse ops k (frame_header n FRAME_SETTINGS FLAG_UNSET 0) (Some (payload @ [0])) (unat n) 0 c)"
    using assms u by (intro recv_frame) (simp_all add: n_def)
  then show ?thesis
    using n0 len parse by (simp add: u recv Let_def)
qed

theorem settings_first_only_witness:
  "ProtRecv quiet_h1 (\<lambda>t c. None) (small_conn stream_open
      (frame_bytes (frame_header 12 FRAME_SETTINGS FLAG_UNSET 0) @ setting_bytes 3 100 @ setting_bytes 4 1000)) =
    Some (12, send_setting_ack 0 (apply_setting 3 100 (small_conn stream_open [])))"
proof -
  have l: "length (setting_bytes 4 1000) = 6"
    by (simp add: setting_bytes_def bytes_le16_def)
  have "(small_conn stream_open inp)\<lparr> net_in := [] \<rparr> = small_conn stream_open []" for inp
    by (simp add: small_conn_def init_conn_def)
  then show ?thesis
    using settings_first_only [of "small_conn stream_open (frame_bytes (frame_header 12 FRAME_SETTINGS FLAG_UNSET 0) @
        setting_bytes 3 100 @ setting_bytes 4 1000)" "setting_bytes 4 1000" 3 100 "[]" quiet_h1 "\<lambda>t c. None"]
    by (simp add: l)
qed

lemma ProtParse_ping:
  assumes "rd_n m 0 8 = Some data" and "net_up c"
  shows "ProtParse ops k (frame_header 8 FRAME_PING FLAG_UNSET 0) (Some m) 8 0 c =
      Some (8, c\<lparr> net_out := net_out c @ [frame_bytes (frame_header 8 FRAME_PING FLAG_ACK 0) @ data] \<rparr>)"
proof -
  have "(frame_header 8 FRAME_PING FLAG_ACK 0)\<lparr> r_ident := pack_r 0 (field_31 (pack_r 0 (drop_bit 1 (htonl 0)))) \<rparr> =
      frame_header 8 FRAME_PING FLAG_ACK 0"
    by (simp add: frame_header_def http2_set_identifier_def http2_set_length_def htonl_def field_31_def pack_r_def field_r_def le32_def)
  moreover have "\<not> has_flag FLAG_UNSET FLAG_ACK"
    by (simp add: has_flag_def FLAG_UNSET_def FLAG_ACK_def)
  ultimately show ?thesis
    using assms by (simp add: ProtParse_def gate_def handle_ping_def send_buf_def frame_types)
qed

text \<open>
  a PING is answered by the same eight octets. The answer is one acknowledgement frame on the
  connection, nothing else changes, and exactly the frame is taken from the input.
\<close>

theorem ping_echoed:
  assumes "net_in c = frame_bytes (frame_header 8 FRAME_PING FLAG_UNSET 0) @ data @ rest" and "length data = 8" and "net_up c"
  shows "ProtRecv ops k c = Some (8, c\<lparr> net_in := rest,
      net_out := net_out c @ [frame_bytes (frame_header 8 FRAME_PING FLAG_ACK 0) @ data] \<rparr>)"
proof -
  have "rd_n (data @ [0]) 0 8 = Some data"
    using assms(2) by (simp add: rd_n_def)
  then have "ProtParse ops k (frame_header 8 FRAME_PING FLAG_UNSET 0) (Some (data @ [0])) 8 0 d =
      Some (8, d\<lparr> net_out := net_out d @ [frame_bytes (frame_header 8 FRAME_PING FLAG_ACK 0) @ data] \<rparr>)" if "net_up d" for d
    using that by (rule ProtParse_ping)
  then show ?thesis
    using recv_frame [of 8 0 c FRAME_PING FLAG_UNSET "data @ rest" ops k] assms
    by (simp add: HttpRecv_def Let_def)
qed

theorem ping_echoed_witness:
  "ProtRecv quiet_h1 (\<lambda>t c. None) (small_conn stream_open (frame_bytes (frame_header 8 FRAME_PING FLAG_UNSET 0) @ [1, 2, 3, 4, 5, 6, 7, 8] @ [])) =
    Some (8, (small_conn stream_open (frame_bytes (frame_header 8 FRAME_PING FLAG_UNSET 0) @ [1, 2, 3, 4, 5, 6, 7, 8] @ []))
      \<lparr> net_in := [], net_out := net_out (small_conn stream_open (frame_bytes (frame_header 8 FRAME_PING FLAG_UNSET 0) @ [1, 2, 3, 4, 5, 6, 7, 8] @ [])) @
        [frame_bytes (frame_header 8 FRAME_PING FLAG_ACK 0) @ [1, 2, 3, 4, 5, 6, 7, 8]] \<rparr>)"
  by (rule ping_echoed) simp_all

subsection \<open>Priority\<close>

lemma mfind_map_snd: "mfind (map (\<lambda>(j, p). (j, f p)) m) k = map_option f (mfind m k)"
  by (induction m) auto

lemma get_adopt: "get_stream_instance j (adopt_dependants dep i c) = map_option
    (\<lambda>s. if m_dependency_stream s = dep then s\<lparr> m_dependency_stream := dependency_of i c \<rparr> else s) (get_stream_instance j c)"
  by (simp add: get_stream_instance_def adopt_dependants_def mfind_map_snd split: option.splits)

text \<open>
  an exclusive priority makes the stream depend on itself. When a PRIORITY frame for stream i
  names an existing stream dep with the exclusive bit, the stream first gets dep as its parent, and
  the loop that hands the streams depending on dep to i then hands over i too.
\<close>

theorem exclusive_priority_cycle:
  assumes "get_stream_instance i c = Some s" and "get_stream_instance dep c = Some d"
    and "field_r w = 1" and "recv_31 w = dep"
  shows "\<exists>c' s'. handle_priority i (Some (bytes_le32 w @ weight # others)) n c = Some (int n, c') \<and>
    get_stream_instance i c' = Some s' \<and> m_dependency_stream s' = i \<and> m_priority_weight s' = ucast weight"
proof -
  have i: "i \<noteq> 0" and dep: "dep \<noteq> 0"
    using assms(1,2) by auto
  have w: "pl_word (Some (bytes_le32 w @ weight # others)) 0 = Some w"
    using pl_word_bytes [of "[]" w "weight # others"] by simp
  have b: "pl_byte (Some (bytes_le32 w @ weight # others)) 4 = Some weight"
    by (simp add: pl_byte_def bytes_le32_def rd_def)
  define c1 where "c1 = SetPriorityWeight i (ucast weight) (SetDependencyStream i dep c)"
  have g: "get_stream_instance i c1 = Some (s\<lparr> m_dependency_stream := dep, m_priority_weight := ucast weight \<rparr>)"
    using assms(1,2) dep by (simp add: c1_def SetPriorityWeight_def SetDependencyStream_def dependency_of_def)
  have "handle_priority i (Some (bytes_le32 w @ weight # others)) n c = Some (int n, adopt_dependants dep i c1)"
    using assms i dep w b by (simp add: handle_priority_def c1_def Let_def)
  moreover have "get_stream_instance i (adopt_dependants dep i c1) =
      Some (s\<lparr> m_dependency_stream := i, m_priority_weight := ucast weight \<rparr>)"
    using g i by (simp add: get_adopt dependency_of_def)
  ultimately show ?thesis
    by auto
qed

theorem exclusive_priority_cycle_witness:
  "\<exists>c' s'. handle_priority 3 (Some (bytes_le32 0x01000001 @ 200 # [0])) 5
      ((small_conn stream_open [])\<lparr> m_stream_list := [(1, Some (small_stream stream_open)), (3, Some (small_stream stream_open))] \<rparr>) = Some (int 5, c') \<and>
    get_stream_instance 3 c' = Some s' \<and> m_dependency_stream s' = 3 \<and> m_priority_weight s' = ucast (200 :: byte)"
  by (rule exclusive_priority_cycle [where dep = 1]) (simp_all add: get_stream_instance_def field_r_def recv_31_def
      field_31_def htonl_def le32_def)

subsection \<open>Data\<close>

definition window_frame :: "u32 \<Rightarrow> u32 \<Rightarrow> bytes" where
  "window_frame i n = frame_bytes (frame_header 4 FRAME_WINDOW_UPDATE FLAG_UNSET i) @
     bytes_le32 (pack_r 0 (drop_bit 1 (htonl n)))"

text \<open>The window bookkeeping in front of the data.\<close>

lemma data_windows:
  assumes "get_stream_instance i c = Some s" and "net_up c" and "m_stream_state s = stream_open"
    and "0 < sint (m_local_window_size s - n)"
    and c': "c' = send_window_update i n (DecreaseLocalWindowSize i n (c\<lparr> m_local_control_window_size := m_local_control_window_size c - n \<rparr>))"
  shows "net_out c' = net_out c @ [window_frame i n]" and "get_stream_instance i c' = Some s"
    and "m_local_control_window_size c' = m_local_control_window_size c - n" and "net_up c'"
  using assms(1-4) unfolding c'
  by (simp_all add: send_window_update_def DecreaseLocalWindowSize_def IncreaseLocalWindowSize_def window_frame_def
      send_buf_def HttpSend_def Let_def)

lemma handle_data_open:
  assumes "get_stream_instance i c = Some s" and "m_stream_state s = stream_open" and "get_stream_instance i c1 = Some s"
    and c1: "c1 = send_window_update i (word_of_nat len)
      (DecreaseLocalWindowSize i (word_of_nat len) (c\<lparr> m_local_control_window_size := m_local_control_window_size c - word_of_nat len \<rparr>))"
  shows "handle_data ops k fl i payload len c = do {
      c \<leftarrow> (if has_flag fl FLAG_PADDED then do {
             pad \<leftarrow> pl_byte payload 0;
             push_data ops k i (pl_from payload 1) (word_of_nat len - ucast pad) c1
           } else push_data ops k i (pl_from payload 0) (word_of_nat len) c1);
      c \<leftarrow> end_stream fl i c;
      Some (int len, c)
    }"
proof -
  have "i \<noteq> 0"
    using assms(1) by auto
  then show ?thesis
    using assms(1-3) by (simp add: handle_data_def Let_def flip: c1)
qed

lemma push_data_open:
  assumes "get_stream_instance i c = Some s" and "op_PushPostData ops (m_http1 s) buf (sint len) = Some (h, True)"
  shows "push_data ops k i buf len c = Some (on_stream i (\<lambda>s. s\<lparr> m_http1 := h \<rparr>) c)"
  using assms by (simp add: push_data_def)


text \<open>
  padding is counted wrong. Of a padded DATA frame the HTTP/1.1 side is given the payload
  length less the padding, which still counts the pad length octet: one octet more than the data,
  the first octet of the padding, or with a pad length of 0 the octet behind the payload.
\<close>

theorem padded_data_one_more:
  assumes "get_stream_instance i c = Some s" and "net_up c" and "m_stream_state s = stream_open"
    and "0 < sint (m_local_window_size s - word_of_nat (1 + length data + pad))" and "length data < 2 ^ 24" and "pad < 256"
    and "has_flag fl FLAG_PADDED" and "\<not> has_flag fl FLAG_END_STREAM"
    and "\<And>h buf n. op_PushPostData ops h buf n = Some (h @ take (nat n) buf, True)"
  shows "\<exists>c'. handle_data ops k fl i (Some (word_of_nat pad # data @ replicate pad p @ [0])) (1 + length data + pad) c =
      Some (int (1 + length data + pad), c') \<and>
    get_stream_instance i c' = Some (s\<lparr> m_http1 := m_http1 s @ data @ [if pad = 0 then 0 else p] \<rparr>)"
proof -
  let ?n = "word_of_nat (1 + length data + pad) :: u32" and ?buf = "data @ replicate pad p @ [0]"
  have up: "unat (ucast (word_of_nat pad :: byte) :: u32) = pad"
    using assms(6) by (simp add: unsigned_ucast_eq unat_of_nat take_bit_nat_eq_self)
  have "unat (word_of_nat pad :: u32) = pad"
    using assms(6) by (intro unat_u32) simp
  then have "(ucast (word_of_nat pad :: byte) :: u32) = word_of_nat pad"
    using up by (simp only: word_unat_eq_iff)
  then have "?n - ucast (word_of_nat pad :: byte) = word_of_nat (1 + length data)"
    by simp
  moreover have "sint (word_of_nat (1 + length data) :: u32) = int (1 + length data)"
  proof -
    have "unat (word_of_nat (1 + length data) :: u32) = 1 + length data"
      using assms(5) by (intro unat_u32) simp
    then show ?thesis
      using assms(5) by (subst sint_small) simp_all
  qed
  ultimately have len: "sint (?n - ucast (word_of_nat pad :: byte)) = int (1 + length data)"
    by simp
  define c1 where "c1 = send_window_update i ?n
    (DecreaseLocalWindowSize i ?n (c\<lparr> m_local_control_window_size := m_local_control_window_size c - ?n \<rparr>))"
  note c1 = data_windows [OF assms(1-4) c1_def]
  have "take (1 + length data) ?buf = data @ [if pad = 0 then 0 else p]"
    by (cases pad) simp_all
  then have "op_PushPostData ops (m_http1 s) ?buf (sint (?n - ucast (word_of_nat pad :: byte))) =
      Some (m_http1 s @ data @ [if pad = 0 then 0 else p], True)"
    unfolding len assms(9) nat_int by simp
  then have "push_data ops k i ?buf (?n - ucast (word_of_nat pad :: byte)) c1 =
      Some (on_stream i (\<lambda>q. q\<lparr> m_http1 := m_http1 s @ data @ [if pad = 0 then 0 else p] \<rparr>) c1)"
    using push_data_open [OF c1(2)] by blast
  then have "handle_data ops k fl i (Some (word_of_nat pad # ?buf)) (1 + length data + pad) c =
      Some (int (1 + length data + pad), on_stream i (\<lambda>q. q\<lparr> m_http1 := m_http1 s @ data @ [if pad = 0 then 0 else p] \<rparr>) c1)"
    unfolding handle_data_open [OF assms(1,3) c1(2) c1_def] using assms(7,8)
    by (simp add: end_stream_def pl_from_def pl_byte_def rd_def)
  then show ?thesis
    using c1 by simp
qed

text \<open>For the instances: an HTTP/1.1 side that collects the body.\<close>

definition collecting_h1 :: "bytes h1_ops" where
  "collecting_h1 = \<lparr> op_new = (\<lambda>_. []), op_LineParse = (\<lambda>h txt. Some (h, [])),
     op_PushPostData = (\<lambda>h buf n. Some (h @ take (nat n) buf, True)), op_Response = (\<lambda>h. (h, [])),
     op_GetMethod = (\<lambda>h. hmPost), op_GetRequestField = (\<lambda>h f. []), op_PushPromiseList = (\<lambda>h. []) \<rparr>"

definition post_stream :: "bytes \<Rightarrow> bytes http2_stream" where
  "post_stream body =
     \<lparr> m_path = [], m_method = [], m_authority = [], m_scheme = [], m_http1 = body, m_hpack = None,
       m_push_promise_trigger_header = [], m_dependency_stream = 0, m_priority_weight = 16, m_stream_state = stream_open,
       m_peer_window_size = HTTP2_DEFAULT_WINDOW_SIZE, m_local_window_size = HTTP2_MAX_WINDOW_SIZE, m_last_used_time = 0 \<rparr>"

definition post_conn :: "bytes CHttp2" where
  "post_conn = (init_conn True [] [] True 0)\<lparr> m_stream_list := [(1, Some (post_stream []))] \<rparr>"

lemma post_conn_simps [simp]:
  "get_stream_instance 1 post_conn = Some (post_stream [])" "net_up post_conn" "net_out post_conn = []"
  "m_local_control_window_size post_conn = 65535"
  "m_stream_state (post_stream b) = stream_open" "m_http1 (post_stream b) = b"
  "m_local_window_size (post_stream b) = 0x7FFFFFFF" "(post_stream a)\<lparr> m_http1 := b \<rparr> = post_stream b"
  by (simp_all add: post_conn_def post_stream_def get_stream_instance_def init_conn_def
      HTTP2_MAX_WINDOW_SIZE_def HTTP2_DEFAULT_WINDOW_SIZE_def)


theorem padded_data_one_more_witness:
  "\<exists>c'. handle_data collecting_h1 (\<lambda>t c. None) FLAG_PADDED 1 (Some (word_of_nat 2 # [0x68, 0x69] @ replicate 2 0xAA @ [0]))
      (1 + length [0x68 :: byte, 0x69] + 2) post_conn = Some (int (1 + length [0x68 :: byte, 0x69] + 2), c') \<and>
    get_stream_instance 1 c' = Some (post_stream [0x68, 0x69, 0xAA])"
proof -
  have e: "(post_stream [])\<lparr> m_http1 := m_http1 (post_stream []) @ [0x68, 0x69] @ [if (2 :: nat) = 0 then 0 else 0xAA] \<rparr> =
      post_stream [0x68, 0x69, 0xAA]"
    by simp
  have "\<exists>c'. handle_data collecting_h1 (\<lambda>t c. None) FLAG_PADDED 1 (Some (word_of_nat 2 # [0x68, 0x69] @ replicate 2 0xAA @ [0]))
      (1 + length [0x68 :: byte, 0x69] + 2) post_conn = Some (int (1 + length [0x68 :: byte, 0x69] + 2), c') \<and>
    get_stream_instance 1 c' = Some ((post_stream [])\<lparr> m_http1 := m_http1 (post_stream []) @ [0x68, 0x69] @ [if (2 :: nat) = 0 then 0 else 0xAA] \<rparr>)"
    by (rule padded_data_one_more) (simp_all add: collecting_h1_def has_flag_def FLAG_PADDED_def FLAG_END_STREAM_def)
  then show ?thesis
    unfolding e .
qed

end
