(* ===== verification/Http2inv.thy ===== *)
theory Http2inv
  imports Http2recv
begin

text \<open>
  The invariant of a connection (http2.h, http2.cpp): the list of streams is a map with strictly
  increasing keys and a null pointer at key 0 only, the dynamic table holds the consecutive indexes from 62 on and
  at most 4096 entries, what was sent is never taken back and what was read never comes again. A
  pair of states between which all of this holds is a step; every operation of the connection takes
  one, by one short lemma each, and so do the nested calls and the loop of \<open>Processing\<close>.
\<close>

subsection \<open>The invariant of the connection\<close>

definition nulls_ok :: "(u32, 'h http2_stream option) stdmap \<Rightarrow> bool" where
  "nulls_ok m \<longleftrightarrow> keys_ok m \<and> list_all (\<lambda>(j, p). p = None \<longrightarrow> j = 0) m"

definition dyn_ok :: "(nat, string \<times> string) stdmap \<Rightarrow> bool" where
  "dyn_ok t \<longleftrightarrow> map fst t = [62 ..< 62 + length t] \<and> length t \<le> 4096"

definition conn_inv :: "'h CHttp2 \<Rightarrow> bool" where
  "conn_inv c \<longleftrightarrow> nulls_ok (m_stream_list c) \<and> dyn_ok (m_header_dynamic_table c)"

definition async_part :: "'h CHttp2 \<Rightarrow> Http2_State \<times> bytes \<times> nat \<times> bytes option \<times> nat \<times> recv_event list" where
  "async_part c = (m_http2_state c, m_frame_hdr c, m_frame_hdr_valid_len c, m_payload c, m_payload_valid_len c, net_events c)"

definition conn_step :: "'h CHttp2 \<Rightarrow> 'h CHttp2 \<Rightarrow> bool" where
  "conn_step c c' \<longleftrightarrow> (conn_inv c \<longrightarrow> conn_inv c') \<and> prefix (net_out c) (net_out c') \<and> suffix (net_in c') (net_in c) \<and>
     async_part c' = async_part c"

interpretation conn: step_relation conn_step
  by unfold_locales (auto simp: conn_step_def intro: prefix_order.trans suffix_order.trans)

named_theorems steps \<open>what takes the connection a step on from where it has come to, by a call\<close>
named_theorems updates \<open>and by an update\<close>

lemma conn_step_start [updates]: "conn_step c c"
  by (rule conn.step_refl)

lemma nulls_ok_iff: "nulls_ok m \<longleftrightarrow> keys_ok m \<and> (\<forall>j. mfind m j = Some None \<longrightarrow> j = 0)"
proof (cases "keys_ok m")
  case True
  have "(j, p) \<in> set m \<longleftrightarrow> mfind m j = Some p" for j p
    using in_set_mfind [OF True] mfind_in_set by metis
  then show ?thesis
    by (simp add: nulls_ok_def list_all_iff Ball_def split_paired_All)
qed (simp add: nulls_ok_def)

lemma dyn_ok_table: "dyn_ok t \<longleftrightarrow> (\<exists>es. t = dyn_table es \<and> length es \<le> 4096)"
proof
  assume "dyn_ok t"
  then have "t = dyn_table (map snd t)"
    by (metis dyn_ok_def dyn_table_def length_map zip_map_fst_snd)
  with \<open>dyn_ok t\<close> show "\<exists>es. t = dyn_table es \<and> length es \<le> 4096"
    by (metis dyn_ok_def length_map)
qed (auto simp: dyn_ok_def dyn_table_def)

text \<open>The parts of the invariant under the operations on the lists.\<close>

lemma nulls_ok_mput: "nulls_ok m \<Longrightarrow> p = None \<longrightarrow> j = 0 \<Longrightarrow> nulls_ok (mput j p m)"
  by (auto simp: nulls_ok_iff)

lemma nulls_ok_minsert: "nulls_ok m \<Longrightarrow> nulls_ok (fst (minsert j (create_stream_instance ops j c) m))"
  by (auto simp: minsert_def create_stream_instance_def word_gt_0 split: option.splits intro!: nulls_ok_mput)

lemma nulls_ok_merase [simp]: "nulls_ok m \<Longrightarrow> nulls_ok (merase j m)"
  by (simp add: nulls_ok_iff)

lemma nulls_ok_mmap [simp]: "nulls_ok m \<Longrightarrow> nulls_ok (mmap j (map_option f) m)"
  by (auto simp: nulls_ok_iff)

lemma nulls_ok_map [simp]: "nulls_ok m \<Longrightarrow> nulls_ok (map (\<lambda>(j, p). (j, map_option f p)) m)"
proof -
  assume "nulls_ok m"
  moreover have "map fst (map (\<lambda>(j, p). (j, map_option f p)) m) = map fst m"
    by (induction m) auto
  ultimately show ?thesis
    by (auto simp: nulls_ok_def keys_ok_def list_all_iff simp del: map_map)
qed

lemma dyn_ok_insert: "dyn_ok t \<Longrightarrow> dyn_ok (insert_dynamic e t)"
  unfolding dyn_ok_table using insert_dynamic_table by (metis length_take min.cobounded1 min.commute)

subsection \<open>Steps of the operations\<close>

text \<open>Each operation takes a step from where the connection has come to.\<close>

lemma step_upd [simp]:
  "conn_step c (c\<lparr> m_peer_control_window_size := w \<rparr>)" "conn_step c (c\<lparr> m_local_control_window_size := w \<rparr>)"
  "conn_step c (c\<lparr> m_initial_local_window_size := w \<rparr>)" "conn_step c (c\<lparr> m_pushed_request := b \<rparr>)"
  "conn_step c (c\<lparr> m_pushed_response := b \<rparr>)" "conn_step c (on_stream i f c)"
  "conn_step c (adopt_dependants dep i c)" "conn_step c (apply_setting ident w c)"
  "conn_step c (index_header x c)" "conn_step c (snd (HttpRecv n c))" "conn_step c (send_buf buf c)"
  "conn_step c (snd (HttpSend buf c))" "conn_step c (c\<lparr> m_stream_list := merase i (m_stream_list c) \<rparr>)"
  "conn_step c (c\<lparr> m_stream_list := fst (minsert i (create_stream_instance ops i d) (m_stream_list c)) \<rparr>)"
  by (auto simp: conn_step_def conn_inv_def async_part_def on_stream_def adopt_dependants_def apply_setting_def index_header_def
      HttpRecv_def send_buf_def HttpSend_def dyn_ok_insert nulls_ok_minsert suffix_drop)

lemma step_then: "conn_step a b \<Longrightarrow> conn_step b c \<Longrightarrow> conn_step a c"
  by (rule conn.step_trans)

lemma step_stream_ops [simp]:
  "conn_step c (SetStreamState i st c)" "conn_step c (RefreshLastUsedTime i c)" "conn_step c (SetPriorityWeight i n c)"
  "conn_step c (SetDependencyStream i dep c)" "conn_step c (IncreasePeerWindowSize i n c)"
  "conn_step c (DecreasePeerWindowSize i n c)" "conn_step c (IncreaseLocalWindowSize i n c)"
  by (simp_all add: SetStreamState_def RefreshLastUsedTime_def SetPriorityWeight_def SetDependencyStream_def
      IncreasePeerWindowSize_def DecreasePeerWindowSize_def IncreaseLocalWindowSize_def)

lemma step_send_ops [simp]:
  "conn_step c (send_setting_ack i c)" "conn_step c (send_goaway i e c)"
  "conn_step c (send_initial_window_size w c)"
  by (simp_all add: send_setting_ack_def send_goaway_def send_initial_window_size_def step_then [OF step_upd(11) step_upd(3)]
      step_then [OF step_upd(11) step_upd(2)])

lemma step_window [simp]: "conn_step c (send_window_update i n c)"
  by (auto simp: send_window_update_def Let_def conn.step_refl split: option.splits
      intro: step_then [OF step_upd(11) step_upd(2)] step_then [OF step_upd(11) step_stream_ops(7)])

lemma step_decrease [simp]: "conn_step c (DecreaseLocalWindowSize i n c)"
  by (auto simp: DecreaseLocalWindowSize_def Let_def split: option.splits intro: step_then [OF step_upd(6) step_window])

lemmas step_on [updates] = step_then [OF _ step_upd(1)] step_then [OF _ step_upd(2)] step_then [OF _ step_upd(3)]
  step_then [OF _ step_upd(4)] step_then [OF _ step_upd(5)] step_then [OF _ step_upd(6)] step_then [OF _ step_upd(7)]
  step_then [OF _ step_upd(8)] step_then [OF _ step_upd(9)] step_then [OF _ step_upd(11)]
  step_then [OF _ step_upd(13)] step_then [OF _ step_stream_ops(1)] step_then [OF _ step_stream_ops(2)]
  step_then [OF _ step_stream_ops(3)] step_then [OF _ step_stream_ops(4)] step_then [OF _ step_stream_ops(5)]
  step_then [OF _ step_stream_ops(6)] step_then [OF _ step_stream_ops(7)] step_then [OF _ step_send_ops(1)]
  step_then [OF _ step_send_ops(2)] step_then [OF _ step_send_ops(3)] step_then [OF _ step_window]
  step_then [OF _ step_decrease]

lemma HttpSend_send_buf: "HttpSend buf c = (if net_up c then 0 else - 1, send_buf buf c)"
  by (simp add: send_buf_def HttpSend_def)

lemma HttpRecv_step [updates]: "conn_step a b \<Longrightarrow> conn_step a (b\<lparr> net_in := drop n (net_in b) \<rparr>)"
  using step_upd(10) [of b n] by (auto simp: HttpRecv_def intro: conn.step_trans)

lemma all_read [updates]: "conn_step a b \<Longrightarrow> conn_step a (b\<lparr> net_in := [] \<rparr>)"
  by (simp add: conn_step_def conn_inv_def async_part_def)

lemmas stepping = Let_def HttpSend_send_buf HttpRecv_def
lemmas stepping_splits = bind_split_asm if_split_asm option.split_asm prod.split_asm sum.split_asm

lemma minsert_step [steps]:
  "minsert i (create_stream_instance ops i d) m = (m', ins) \<Longrightarrow> conn_step a (b\<lparr> m_stream_list := m \<rparr>) \<Longrightarrow>
     conn_step a (b\<lparr> m_stream_list := m' \<rparr>)"
  using step_upd(14) [of "b\<lparr> m_stream_list := m \<rparr>" i ops d] step_then by fastforce

lemma same_streams [updates]: "conn_step a b \<Longrightarrow> conn_step a (b\<lparr> m_stream_list := m_stream_list b \<rparr>)"
  by simp

lemma minsert_some_step [steps]:
  "minsert i (Some s) m = (m', ins) \<Longrightarrow> conn_step a (b\<lparr> m_stream_list := m \<rparr>) \<Longrightarrow> conn_step a (b\<lparr> m_stream_list := m' \<rparr>)"
  by (rule conn.step_trans, assumption)
    (auto simp: conn_step_def conn_inv_def async_part_def minsert_def nulls_ok_mput split: option.split_asm)

lemma minsert_none_step [steps]:
  "minsert i None m = (m', ins) \<Longrightarrow> create_stream_instance ops i d = None \<Longrightarrow>
     conn_step a (b\<lparr> m_stream_list := m \<rparr>) \<Longrightarrow> conn_step a (b\<lparr> m_stream_list := m' \<rparr>)"
  using minsert_step [of i _ _ m m' ins a b] by (metis option.distinct(1) create_stream_instance_def)

lemma send_rst_stream_step [steps]: "send_rst_stream i b = Some c \<Longrightarrow> conn_step a b \<Longrightarrow> conn_step a c"
  by (auto simp: send_rst_stream_def Let_def split: option.split_asm intro: steps updates)

lemma TransHttp1SendHttp2Header_step [steps]:
  "TransHttp1SendHttp2Header ops i txt ty p b = Some (r, c) \<Longrightarrow> conn_step a b \<Longrightarrow> conn_step a c"
  by (auto simp: TransHttp1SendHttp2Header_def stepping split: stepping_splits; (erule steps | rule updates | assumption)+)

lemma SendHttp2EmptyContent_step [steps]:
  "SendHttp2EmptyContent i b = Some (r, c) \<Longrightarrow> conn_step a b \<Longrightarrow> conn_step a c"
  by (auto simp: SendHttp2EmptyContent_def stepping split: stepping_splits; (erule steps | rule updates | assumption)+)

lemma PushPromise_step [steps]: "PushPromise ops i path b = Some c \<Longrightarrow> conn_step a b \<Longrightarrow> conn_step a c"
  by (auto simp: PushPromise_def stepping split: stepping_splits; (erule steps | rule updates | assumption)+)

lemma push_all_step [steps]: "push_all ops i paths b = Some c \<Longrightarrow> conn_step a b \<Longrightarrow> conn_step a c"
  by (rule conn.step_trans)
    (assumption, rule conn.each [where f = "PushPromise ops i" and g = "push_all ops i"],
      auto intro: steps updates)

lemma send_push_promise_request_step [steps]:
  "send_push_promise_request ops i b = Some c \<Longrightarrow> conn_step a b \<Longrightarrow> conn_step a c"
  by (auto simp: send_push_promise_request_def stepping split: stepping_splits; (erule steps | rule updates | assumption)+)

lemma make_room_step [steps]: "make_room b = Some c \<Longrightarrow> conn_step a b \<Longrightarrow> conn_step a c"
  by (auto simp: make_room_def stepping split: stepping_splits; (erule steps | rule updates | assumption)+)

lemma admit_stream_step [steps]:
  "admit_stream ops i b = Some (Inl (r, c)) \<Longrightarrow> conn_step a b \<Longrightarrow> conn_step a c"
  "admit_stream ops i b = Some (Inr c) \<Longrightarrow> conn_step a b \<Longrightarrow> conn_step a c"
  by (auto simp: admit_stream_def stepping split: stepping_splits; (erule steps | rule updates | assumption)+)+

lemma gate_step [steps]:
  "gate ops ty i b = Some (Inl (r, c)) \<Longrightarrow> conn_step a b \<Longrightarrow> conn_step a c"
  "gate ops ty i b = Some (Inr c) \<Longrightarrow> conn_step a b \<Longrightarrow> conn_step a c"
  by (auto simp: gate_def stepping split: stepping_splits; (erule steps | rule updates | assumption)+)+

lemma handle_goaway_step [steps]: "handle_goaway p b = Some (r, c) \<Longrightarrow> conn_step a b \<Longrightarrow> conn_step a c"
  by (auto simp: handle_goaway_def split: stepping_splits)

lemma handle_priority_step [steps]: "handle_priority i p n b = Some (r, c) \<Longrightarrow> conn_step a b \<Longrightarrow> conn_step a c"
  by (auto simp: handle_priority_def stepping split: stepping_splits; (erule steps | rule updates | assumption)+)

lemma headers_priority_step [steps]: "headers_priority i p n b = Some c \<Longrightarrow> conn_step a b \<Longrightarrow> conn_step a c"
  by (auto simp: headers_priority_def stepping split: stepping_splits; (erule steps | rule updates | assumption)+)

lemma recreate_closed_step [steps]:
  "recreate_closed ops i b = Inl (r, c) \<Longrightarrow> conn_step a b \<Longrightarrow> conn_step a c"
  "recreate_closed ops i b = Inr c \<Longrightarrow> conn_step a b \<Longrightarrow> conn_step a c"
  by (auto simp: recreate_closed_def stepping split: stepping_splits; (erule steps | rule updates | assumption)+)+

lemma stream_hpack_parse_step [steps]: "stream_hpack_parse i m n b = Some (r, c) \<Longrightarrow> conn_step a b \<Longrightarrow> conn_step a c"
  by (auto simp: stream_hpack_parse_def stepping split: stepping_splits; (erule steps | rule updates | assumption)+)

lemma end_stream_step [steps]: "end_stream fl i b = Some c \<Longrightarrow> conn_step a b \<Longrightarrow> conn_step a c"
  by (auto simp: end_stream_def stepping split: stepping_splits; (erule steps | rule updates | assumption)+)

lemma handle_push_promise_step [steps]: "handle_push_promise i b = Some (r, c) \<Longrightarrow> conn_step a b \<Longrightarrow> conn_step a c"
  by (auto simp: handle_push_promise_def intro: updates)

lemma handle_settings_step [steps]: "handle_settings hdr p n b = Some (r, c) \<Longrightarrow> conn_step a b \<Longrightarrow> conn_step a c"
  by (auto simp: handle_settings_def stepping split: stepping_splits; (erule steps | rule updates | assumption)+)

lemma handle_window_update_step [steps]:
  "handle_window_update i p n b = Some (r, c) \<Longrightarrow> conn_step a b \<Longrightarrow> conn_step a c"
  by (auto simp: handle_window_update_def stepping split: stepping_splits; (erule steps | rule updates | assumption)+)

lemma handle_rst_stream_step [steps]: "handle_rst_stream i p n b = Some (r, c) \<Longrightarrow> conn_step a b \<Longrightarrow> conn_step a c"
  by (auto simp: handle_rst_stream_def stepping split: stepping_splits; (erule steps | rule updates | assumption)+)

lemma handle_ping_step [steps]: "handle_ping hdr p n b = Some (r, c) \<Longrightarrow> conn_step a b \<Longrightarrow> conn_step a c"
  by (auto simp: handle_ping_def stepping split: stepping_splits; (erule steps | rule updates | assumption)+)

text \<open>The nested calls: whatever \<open>k\<close> runs takes a step.\<close>

locale nested_calls =
  fixes k :: "'h knot"
  assumes k_step: "k t b = Some (r, c) \<Longrightarrow> conn_step b c"
begin

lemma k_steps [steps]: "k t b = Some (r, c) \<Longrightarrow> conn_step a b \<Longrightarrow> conn_step a c"
  using k_step conn.step_trans by blast

lemma http1_parse_step [steps]: "http1_parse ops k i txt b = Some c \<Longrightarrow> conn_step a b \<Longrightarrow> conn_step a c"
  by (auto simp: http1_parse_def stepping split: stepping_splits; (erule steps | rule updates | assumption)+)

lemma Response_step [steps]: "Response ops k i b = Some c \<Longrightarrow> conn_step a b \<Longrightarrow> conn_step a c"
  by (auto simp: Response_def stepping split: stepping_splits; (erule steps | rule updates | assumption)+)

lemma content_step_step [steps]:
  "content_step k i buf n b = Some (Stop r c) \<Longrightarrow> conn_step a b \<Longrightarrow> conn_step a c"
  "content_step k i buf n b = Some (Again m c) \<Longrightarrow> conn_step a b \<Longrightarrow> conn_step a c"
  by (auto simp: content_step_def stepping split: stepping_splits; (erule steps | rule updates | assumption)+)+

lemma content_loop_step [steps]: "content_loop f k i buf n b = Some (r, c) \<Longrightarrow> conn_step a b \<Longrightarrow> conn_step a c"
proof (induction f arbitrary: n b)
  case (Suc f)
  then show ?case
    by (auto split: option.split_asm content_result.split_asm dest: content_step_step)
qed simp

lemma TransHttp1SendHttp2Content_step [steps]:
  "TransHttp1SendHttp2Content f k i buf b = Some (r, c) \<Longrightarrow> conn_step a b \<Longrightarrow> conn_step a c"
  by (auto simp: TransHttp1SendHttp2Content_def split: option.split_asm intro: steps)

lemma SendPushPromiseResponse_step [steps]:
  "SendPushPromiseResponse ops k i b = Some c \<Longrightarrow> conn_step a b \<Longrightarrow> conn_step a c"
  by (auto simp: SendPushPromiseResponse_def stepping split: stepping_splits; (erule steps | rule updates | assumption)+)

lemma push_loop_step [steps]:
  assumes "push_loop ops k i b = Some c" and "conn_step a b"
  shows "conn_step a c"
proof -
  have "push_loop ops k' i b = Some c \<Longrightarrow> k' = k \<Longrightarrow> conn_step a b \<Longrightarrow> conn_step a c" for k'
  proof (induction ops k' i b rule: push_loop.induct)
    case (1 ops k' i b)
    show ?case
    proof (cases "next_key (m_stream_list b) i")
      case None
      then show ?thesis
        using 1 push_loop.simps [of ops k' i b] by simp
    next
      case (Some j)
      then obtain d where d: "(if even (unat j) then SendPushPromiseResponse ops k' j b else Some b) = Some d"
        and rest: "(if j = - 1 then Some d else push_loop ops k' (j + 1) d) = Some c"
        using 1(2) push_loop.simps [of ops k' i b] by (auto split: option.split_asm)
      have "conn_step a d"
        using d 1(3,4) by (auto split: if_split_asm intro: steps)
      then show ?thesis
        using rest 1(1) [OF Some d] 1(3) by (auto split: if_split_asm)
    qed
  qed
  then show ?thesis
    using assms by blast
qed

lemma SendHttp2PushPromiseResponse_step [steps]:
  "SendHttp2PushPromiseResponse ops k b = Some c \<Longrightarrow> conn_step a b \<Longrightarrow> conn_step a c"
  by (auto simp: SendHttp2PushPromiseResponse_def stepping split: stepping_splits; (erule steps | rule updates | assumption)+)

lemma call_step [steps]: "call ops n k i x b = Some c \<Longrightarrow> conn_step a b \<Longrightarrow> conn_step a c"
  by (auto simp: call_def split: h1_call.split_asm; (erule steps | rule updates | assumption)+)

lemma perform_step [steps]: "perform ops n k i xs b = Some c \<Longrightarrow> conn_step a b \<Longrightarrow> conn_step a c"
  by (rule conn.step_trans)
    (assumption, rule conn.each [where f = "call ops n k i" and g = "perform ops n k i"], auto intro: steps updates)

lemma request_line_step [steps]:
  "request_line ops k i b = Some c \<Longrightarrow> conn_step a b \<Longrightarrow> conn_step a c"
  by (auto simp: request_line_def stepping split: stepping_splits; (erule steps | rule updates | assumption)+)

lemma found_header_step [steps]:
  "found_header ops k i x e b = Some c \<Longrightarrow> conn_step a b \<Longrightarrow> conn_step a c"
  by (auto simp: found_header_def stepping split: stepping_splits; (erule steps | rule updates | assumption)+)

lemma other_header_step [steps]:
  "other_header ops k i x b = Some c \<Longrightarrow> conn_step a b \<Longrightarrow> conn_step a c"
  by (auto simp: other_header_def stepping split: stepping_splits; (erule steps | rule updates | assumption)+)

lemma trans_headers_step [steps]: "trans_headers ops k i xs b = Some c \<Longrightarrow> conn_step a b \<Longrightarrow> conn_step a c"
proof (induction xs arbitrary: b)
  case (Cons x xs)
  then obtain d where "(case lookup_header (index x) b of Some e \<Rightarrow> found_header ops k i (resolve_header x b) e b
      | None \<Rightarrow> other_header ops k i (resolve_header x b) b) = Some d"
    and "trans_headers ops k i xs (index_header (resolve_header x b) d) = Some c"
    by (auto simp: Let_def split: bind_split_asm)
  moreover from this(1) have "conn_step a d"
    using Cons.prems(2) by (auto split: option.split_asm intro: steps)
  ultimately show ?case
    using Cons.IH by (auto intro: updates)
qed simp

lemma TransHttp2ParseHttp1Header_step [steps]:
  "TransHttp2ParseHttp1Header ops k i hs b = Some c \<Longrightarrow> conn_step a b \<Longrightarrow> conn_step a c"
  by (auto simp: TransHttp2ParseHttp1Header_def stepping split: stepping_splits; (erule steps | rule updates | assumption)+)

lemma end_headers_step [steps]:
  "end_headers ops k fl i b = Some c \<Longrightarrow> conn_step a b \<Longrightarrow> conn_step a c"
  by (auto simp: end_headers_def stepping split: stepping_splits; (erule steps | rule updates | assumption)+)

lemma handle_headers_step [steps]:
  "handle_headers ops k fl i p n b = Some (r, c) \<Longrightarrow> conn_step a b \<Longrightarrow> conn_step a c"
  by (auto simp: handle_headers_def stepping split: stepping_splits; (erule steps | rule updates | assumption)+)

lemma handle_continuation_step [steps]:
  "handle_continuation ops k fl i p n b = Some (r, c) \<Longrightarrow> conn_step a b \<Longrightarrow> conn_step a c"
  by (auto simp: handle_continuation_def stepping split: stepping_splits; (erule steps | rule updates | assumption)+)

lemma push_data_step [steps]:
  "push_data ops k i buf n b = Some c \<Longrightarrow> conn_step a b \<Longrightarrow> conn_step a c"
  by (auto simp: push_data_def stepping split: stepping_splits; (erule steps | rule updates | assumption)+)

lemma handle_data_step [steps]:
  "handle_data ops k fl i p n b = Some (r, c) \<Longrightarrow> conn_step a b \<Longrightarrow> conn_step a c"
  by (auto simp: handle_data_def stepping split: stepping_splits; (erule steps | rule updates | assumption)+)

lemma ProtParse_step [steps]:
  "ProtParse ops k hdr p n i b = Some (r, c) \<Longrightarrow> conn_step a b \<Longrightarrow> conn_step a c"
  by (auto simp: ProtParse_def stepping split: stepping_splits; (erule steps | rule updates | assumption)+)

lemma ProtRecv_step [steps]:
  "ProtRecv ops k b = Some (r, c) \<Longrightarrow> conn_step a b \<Longrightarrow> conn_step a c"
  by (auto simp: ProtRecv_def stepping split: stepping_splits; (erule steps | rule updates | assumption)+)

end

lemma run_step: "run ops n t b = Some (r, c) \<Longrightarrow> conn_step b c"
proof (induction n arbitrary: t b r c)
  case (Suc n)
  then have "nested_calls (run ops n)"
    by unfold_locales
  with Suc.prems show ?case
    by (cases t) (auto dest: nested_calls.ProtRecv_step nested_calls.perform_step intro: updates)
qed simp

interpretation run: nested_calls "run ops n" for ops :: "'h h1_ops" and n
  by unfold_locales (rule run_step)

subsection \<open>The connection as a whole\<close>

lemma Processing_step: "Processing ops n b = Some (r, c) \<Longrightarrow> conn_step b c"
  by (rule conn.rounds [where f = "\<lambda>n. run ops (Suc n) Recv" and g = "Processing ops"
      and stop = "\<lambda>r. r \<le> 0" and res = "\<lambda>r. httpClose"])
    (rule run.k_step, assumption, simp_all del: run.simps)

lemma new_CHttp2_inv:
  assumes "new_CHttp2 (init_conn push paths inp up t :: 'h CHttp2) = Inr c"
  shows "conn_inv c \<and> prefix client_preface_str inp \<and> net_in c = drop 24 inp \<and> m_stream_list c = []"
proof -
  let ?c = "init_conn push paths inp up t :: 'h CHttp2" and ?p = "takeWhile (\<lambda>b. b \<noteq> 0) (take 24 inp)"
  obtain buf w where c: "c = send_initial_window_size w (send_window_update 0 HTTP2_MAX_WINDOW_SIZE
      (send_buf buf (?c\<lparr> net_in := drop 24 inp \<rparr>)))"
    and p: "?p = client_preface_str"
    using assms by (auto simp: new_CHttp2_def HttpRecv_def HttpSend_send_buf Let_def init_conn_def split: if_split_asm)
  have "conn_step (?c\<lparr> net_in := drop 24 inp \<rparr>) c"
    unfolding c by (rule updates)+
  moreover have "conn_inv (?c\<lparr> net_in := drop 24 inp \<rparr>)"
    by (simp add: conn_inv_def init_conn_def nulls_ok_def keys_ok_def dyn_ok_def)
  moreover have "net_in c = drop 24 inp \<and> m_stream_list c = []"
    by (simp add: c send_initial_window_size_def send_window_update_def send_buf_def HttpSend_def Let_def init_conn_def)
  moreover have "prefix client_preface_str inp"
    using p by (metis prefix_order.trans take_is_prefix takeWhile_is_prefix)
  ultimately show ?thesis
    by (simp add: conn_step_def)
qed

text \<open>
  C1: the invariant of a connection. From the constructor on, whatever frames the peer sends and however
  the HTTP/1.1 side behaves, when \<open>Processing\<close> returns the stream list is sorted by identifier without
  duplicates and has a null pointer at most at key 0, the dynamic table has exactly the consecutive indexes from
  62 on and at most 4096 entries, what was sent before is still what was sent first, and the octets
  left to read are a rest of the octets the connection started with, behind the client preface.
\<close>

theorem connection_invariant:
  assumes "new_CHttp2 (init_conn push paths inp up t) = Inr c" and "Processing ops n c = Some (r, d)"
  shows "keys_ok (m_stream_list d) \<and> {j. mfind (m_stream_list d) j = Some None} \<subseteq> {0} \<and>
    map fst (m_header_dynamic_table d) = [62 ..< 62 + length (m_header_dynamic_table d)] \<and>
    length (m_header_dynamic_table d) \<le> 4096 \<and> prefix (net_out c) (net_out d) \<and>
    prefix client_preface_str inp \<and> suffix (net_in d) (drop 24 inp)"
  using new_CHttp2_inv [OF assms(1)] Processing_step [OF assms(2)]
  by (auto simp: conn_step_def conn_inv_def async_part_def nulls_ok_iff dyn_ok_def)

definition started :: "bytes \<Rightarrow> unit CHttp2" where
  "started inp = (case new_CHttp2 (init_conn False [] inp True 0) of Inr c \<Rightarrow> c | Inl (_, c) \<Rightarrow> c)"

lemma started_run:
  "new_CHttp2 (init_conn False [] (client_preface_str @ frame_bytes (frame_header 5 FRAME_PRIORITY FLAG_UNSET 1) @ [0, 0, 0, 0, 16]) True 0)
     = Inr (started (client_preface_str @ frame_bytes (frame_header 5 FRAME_PRIORITY FLAG_UNSET 1) @ [0, 0, 0, 0, 16]))"
  by (simp add: started_def new_CHttp2_def init_conn_def client_preface_str_def HttpRecv_def HttpSend_def)

lemma priority_run:
  assumes "net_in c = frame_bytes (frame_header 5 FRAME_PRIORITY FLAG_UNSET 1) @ [0, 0, 0, 0, 16]"
    and "m_stream_list c = []"
  shows "\<exists>d s. Processing quiet_h1 2 c = Some (httpClose, d) \<and> m_stream_list d = [(1, Some s)] \<and> m_priority_weight s = 16"
proof -
  have pl: "pl_word (Some [0, 0, 0, 0, 16, 0]) 0 = Some 0" "pl_byte (Some [0, 0, 0, 0, 16, 0]) 4 = Some 16"
    by (simp_all add: pl_word_def pl_byte_def rd_def le32_def numeral_eq_Suc)
  have w: "recv_31 0 = 0" "field_r 0 = 0"
    by (simp_all add: recv_31_def field_r_def field_31_def htonl_def le32_def)
  have p: "ProtRecv quiet_h1 k c = ProtParse quiet_h1 k (frame_header 5 FRAME_PRIORITY FLAG_UNSET 1)
      (Some [0, 0, 0, 0, 16, 0]) 5 1 (c\<lparr> net_in := [] \<rparr>)" for k
    using recv_frame [of 5 1 c FRAME_PRIORITY FLAG_UNSET "[0, 0, 0, 0, 16]" quiet_h1 k] assms(1)
    by (simp add: HttpRecv_def Let_def)
  have "\<exists>d s. ProtRecv quiet_h1 k c = Some (5, d) \<and> net_in d = [] \<and> m_stream_list d = [(1, Some s)] \<and> m_priority_weight s = 16" for k
    unfolding p using assms(2) pl w
    by (simp add: ProtParse_def gate_def admit_stream_def make_room_def minsert_def create_stream_instance_def frame_types
      state_error_def handle_priority_def get_stream_instance_def SetPriorityWeight_def SetDependencyStream_def RefreshLastUsedTime_def on_stream_def new_stream_def dependency_of_def mmap_def)
  then obtain d s where "ProtRecv quiet_h1 (run quiet_h1 1) c = Some (5, d)" and d: "net_in d = []" "m_stream_list d = [(1, Some s)]" "m_priority_weight s = 16"
    by blast
  moreover have "ProtRecv quiet_h1 (run quiet_h1 0) d = Some (- 1, d)"
    using d(1) by (simp add: ProtRecv_def HttpRecv_def)
  ultimately show ?thesis
    using d by (simp add: numeral_2_eq_2)
qed

theorem connection_invariant_witness:
  "\<exists>c d s. new_CHttp2 (init_conn False [] (client_preface_str @ frame_bytes (frame_header 5 FRAME_PRIORITY FLAG_UNSET 1) @ [0, 0, 0, 0, 16]) True 0)
       = Inr c \<and> Processing quiet_h1 2 c = Some (httpClose, d) \<and> m_stream_list d = [(1, Some s)] \<and> keys_ok (m_stream_list d) \<and>
     length (m_header_dynamic_table d) \<le> 4096 \<and> prefix (net_out c) (net_out d) \<and> suffix (net_in d) (frame_bytes (frame_header 5 FRAME_PRIORITY FLAG_UNSET 1) @ [0, 0, 0, 0, 16])"
proof -
  let ?i = "client_preface_str @ frame_bytes (frame_header 5 FRAME_PRIORITY FLAG_UNSET 1) @ [0, 0, 0, 0, 16]"
  have d24: "drop 24 ?i = frame_bytes (frame_header 5 FRAME_PRIORITY FLAG_UNSET 1) @ [0, 0, 0, 0, 16]"
    by (simp add: client_preface_str_def)
  have "net_in (started ?i) = drop 24 ?i" and "m_stream_list (started ?i) = []"
    using new_CHttp2_inv [OF started_run] by simp_all
  then obtain d s where "Processing quiet_h1 2 (started ?i) = Some (httpClose, d)" "m_stream_list d = [(1, Some s)]"
    using priority_run d24 by metis
  with connection_invariant [OF started_run this(1)] started_run show ?thesis
    unfolding d24 by blast
qed

end
