(* ===== verification/Http2async.thy ===== *)
theory Http2async
  imports Http2inv
begin

text \<open>
  The receiver of the asynchronous build (http2.cpp, \<open>AsyncRecv\<close> and \<open>AsyncProcessing\<close>). What the
  socket has is collected in \<open>m_async_recv_buf\<close> (\<open>net_in\<close>), moved behind what is left in
  \<open>m_payload\<close>, and taken from there: the nine octets of a frame header, then a payload. The state
  (\<open>http2Prefix\<close>, \<open>http2Header\<close>, \<open>http2Payload\<close>) is kept between the calls.

  Everything the two builds share is the model of the synchronous one: \<open>AsyncHttpSend\<close> never
  fails, which is \<open>net_up\<close>. A handler that waits for the peer inside a call would enter
  \<open>AsyncProcessing\<close> with the frame it is handling still in the buffer; this is not modelled, the
  calls of the HTTP/1.1 side are undefined there (\<open>arun\<close>).
\<close>

subsection \<open>Reading the socket\<close>

definition AsyncRecv :: "'h CHttp2 \<Rightarrow> int \<times> 'h CHttp2" where
  "AsyncRecv c = (case net_events c of
     [] \<Rightarrow> (0, c)
   | Chunk b # es \<Rightarrow> (int (length b), c\<lparr> net_in := net_in c @ b, net_events := es \<rparr>)
   | Would_block # es \<Rightarrow> (0, c\<lparr> net_events := es \<rparr>)
   | Recv_failed # es \<Rightarrow> (- 1, c\<lparr> net_events := es \<rparr>))"

function recv_loop :: "'h CHttp2 \<Rightarrow> Http_Connection \<times> 'h CHttp2" where
  "recv_loop c =
     (let (recv_len, c) = AsyncRecv c
      in if recv_len = 0 then (httpContinue, c)
         else if recv_len < 0 then (httpClose, c)
         else recv_loop c)"
  by pat_completeness auto
termination
  by (relation "measure (\<lambda>c. length (net_events c))")
    (auto simp: AsyncRecv_def split: list.split_asm recv_event.split_asm)

declare recv_loop.simps [simp del]

subsection \<open>The stages of \<open>AsyncProcessing\<close>\<close>

text \<open>A copy out of the buffer \<open>m_payload\<close>; a copy of nothing does not touch it.\<close>

definition payload_part :: "nat \<Rightarrow> nat \<Rightarrow> 'h CHttp2 \<Rightarrow> bytes outcome" where
  "payload_part i n c = (if n = 0 then Some [] else do { m \<leftarrow> m_payload c; rd_n m i n })"

text \<open>The client preface, in state \<open>http2Prefix\<close>.\<close>

definition async_prefix :: "'h CHttp2 \<Rightarrow> Http_Connection \<times> 'h CHttp2" where
  "async_prefix c =
     (if length (net_in c) \<ge> 24 then
        let (preface, c) = HttpRecv 24 c
        in if takeWhile (\<lambda>b. b \<noteq> 0) preface \<noteq> client_preface_str
           then (httpClose, send_goaway 0 PROTOCOL_ERROR c)
           else
             let c = send_buf (frame_bytes (frame_header 6 FRAME_SETTINGS FLAG_UNSET 0) @
                   setting_bytes 3 (m_max_concurrent_streams c)) c;
                 c = send_initial_window_size (m_initial_local_window_size c) c
             in (httpContinue, c\<lparr> m_http2_state := http2Header \<rparr>)
      else (httpContinue, c))"

text \<open>What was received is appended to the payload buffer.\<close>

definition async_append :: "'h CHttp2 \<Rightarrow> 'h CHttp2 outcome" where
  "async_append c = do {
     old \<leftarrow> payload_part 0 (m_payload_valid_len c) c;
     Some (c\<lparr> m_payload := Some (old @ net_in c), m_payload_valid_len := m_payload_valid_len c + length (net_in c),
       net_in := [] \<rparr>)
   }"

text \<open>
  The copy into the frame header. The pointer is advanced by \<open>m_frame_hdr_valid_len\<close> whole headers,
  not octets; a copy that does not fit into the nine octets is undefined.
\<close>

definition write_header :: "bytes \<Rightarrow> nat \<Rightarrow> bytes \<Rightarrow> bytes outcome" where
  "write_header hdr valid_len chunk =
     (let off = valid_len * sizeof_HTTP2_Frame
      in if chunk = [] then Some hdr
         else if off + length chunk \<le> sizeof_HTTP2_Frame then Some (take off hdr @ chunk @ drop (off + length chunk) hdr)
         else None)"

definition async_header :: "'h CHttp2 \<Rightarrow> 'h CHttp2 outcome" where
  "async_header c =
     (if m_http2_state c = http2Header then do {
        let room = sizeof_HTTP2_Frame - m_frame_hdr_valid_len c;
        let copy_len = (if m_payload_valid_len c > room then room else m_payload_valid_len c);
        chunk \<leftarrow> payload_part 0 copy_len c;
        hdr \<leftarrow> write_header (m_frame_hdr c) (m_frame_hdr_valid_len c) chunk;
        rest \<leftarrow> (if copy_len < m_payload_valid_len c
                then map_option Some (payload_part copy_len (m_payload_valid_len c - copy_len) c)
                else Some (m_payload c));
        Some (c\<lparr> m_frame_hdr := hdr, m_frame_hdr_valid_len := m_frame_hdr_valid_len c + copy_len,
          m_http2_state := (if m_frame_hdr_valid_len c + copy_len \<ge> sizeof_HTTP2_Frame then http2Payload else http2Header),
          m_payload := rest, m_payload_valid_len := m_payload_valid_len c - copy_len \<rparr>)
      } else Some c)"

text \<open>The frame is complete: it is handled and taken off the buffer.\<close>

definition async_frame :: "'h h1_ops \<Rightarrow> 'h knot \<Rightarrow> HTTP2_Frame \<Rightarrow> 'h CHttp2 \<Rightarrow> (int \<times> 'h CHttp2) outcome" where
  "async_frame ops k frame_hdr c = do {
     let payload_len = unat (recv_payload_len frame_hdr);
     (r, c) \<leftarrow> ProtParse ops k frame_hdr (m_payload c) payload_len (recv_stream_ind frame_hdr) c;
     c \<leftarrow> (if payload_len > 0 then
            (if m_payload_valid_len c < payload_len then None
             else do {
               rest \<leftarrow> payload_part payload_len (m_payload_valid_len c - payload_len) c;
               Some (c\<lparr> m_payload := Some rest, m_payload_valid_len := m_payload_valid_len c - payload_len \<rparr>)
             })
          else Some c);
     Some (r, c\<lparr> m_http2_state := http2Header, m_frame_hdr_valid_len := 0 \<rparr>)
   }"

fun arun :: "'h h1_ops \<Rightarrow> nat \<Rightarrow> 'h knot" where
  "arun ops 0 t c = None"
| "arun ops (Suc n) t c =
     (case t of
        Recv \<Rightarrow> None
      | Calls i calls \<Rightarrow> map_option (\<lambda>c. (0, c)) (perform ops n (arun ops n) i calls c))"

text \<open>
  \<open>AsyncProcessing\<close>: one frame at most, and then itself again when another header may be
  complete. Whatever that call returns is not looked at.
\<close>

fun AsyncProcessing :: "'h h1_ops \<Rightarrow> nat \<Rightarrow> 'h CHttp2 \<Rightarrow> (Http_Connection \<times> 'h CHttp2) outcome" where
  "AsyncProcessing ops 0 c = None"
| "AsyncProcessing ops (Suc n) c = (let (conn, c) = recv_loop c in
     if m_http2_state c = http2Prefix then Some (async_prefix c)
     else do {
       c \<leftarrow> async_append c;
       c \<leftarrow> async_header c;
       if m_http2_state c = http2Payload then do {
         frame_hdr \<leftarrow> read_frame (m_frame_hdr c);
         if m_payload_valid_len c \<ge> unat (recv_payload_len frame_hdr) then do {
           (r, c) \<leftarrow> async_frame ops (arun ops n) frame_hdr c;
           let conn = (if r = - 1 then httpClose else conn);
           if m_payload_valid_len c \<ge> sizeof_HTTP2_Frame then do {
             (_, c) \<leftarrow> AsyncProcessing ops n c;
             Some (conn, c)
           } else Some (conn, c)
         } else Some (conn, c)
       } else Some (conn, c)
     })"

text \<open>One call for each report of the event loop, with what the socket gives then.\<close>

fun arrive :: "'h h1_ops \<Rightarrow> nat \<Rightarrow> recv_event list list \<Rightarrow> 'h CHttp2 \<Rightarrow> (Http_Connection \<times> 'h CHttp2) outcome" where
  "arrive ops n [] c = Some (httpContinue, c)"
| "arrive ops n (es # later) c = do {
     (conn, c) \<leftarrow> AsyncProcessing ops n (c\<lparr> net_events := es \<rparr>);
     if conn = httpClose \<or> later = [] then Some (conn, c) else arrive ops n later c
   }"

subsection \<open>The calls leave the receive buffer alone\<close>

lemma arun_step: "arun ops n t b = Some (r, c) \<Longrightarrow> conn_step b c"
proof (induction n arbitrary: t b r c)
  case (Suc n)
  then have "nested_calls (arun ops n)"
    by unfold_locales
  with Suc.prems show ?case
    by (cases t) (auto dest: nested_calls.perform_step intro: updates)
qed simp

interpretation arun: nested_calls "arun ops n" for ops :: "'h h1_ops" and n
  by unfold_locales (rule arun_step)

subsection \<open>What has been collected\<close>

definition payload_block :: "'h CHttp2 \<Rightarrow> bytes" where
  "payload_block c = (case m_payload c of None \<Rightarrow> [] | Some m \<Rightarrow> m)"

definition buffered :: "'h CHttp2 \<Rightarrow> bytes" where
  "buffered c = take (m_frame_hdr_valid_len c) (m_frame_hdr c) @ take (m_payload_valid_len c) (payload_block c)"

definition async_ok :: "'h CHttp2 \<Rightarrow> bool" where
  "async_ok c \<longleftrightarrow> length (m_frame_hdr c) = 9 \<and> m_payload_valid_len c \<le> length (payload_block c) \<and>
     (m_http2_state c = http2Header \<and> m_frame_hdr_valid_len c = 0 \<or>
      m_http2_state c = http2Payload \<and> m_frame_hdr_valid_len c = 9)"

text \<open>The state in which a frame with the header \<open>hb\<close> waits for the rest of its payload.\<close>

definition collected :: "bytes \<Rightarrow> bytes \<Rightarrow> nat \<Rightarrow> 'h CHttp2 \<Rightarrow> 'h CHttp2" where
  "collected hb m n c = c\<lparr> m_http2_state := http2Payload, m_frame_hdr := hb, m_frame_hdr_valid_len := 9,
     m_payload := Some m, m_payload_valid_len := n, net_events := [], net_in := [] \<rparr>"

lemma recv_loop_chunks:
  "net_events c = map Chunk bs \<Longrightarrow> [] \<notin> set bs \<Longrightarrow>
     recv_loop c = (httpContinue, c\<lparr> net_in := net_in c @ concat bs, net_events := [] \<rparr>)"
proof (induction bs arbitrary: c)
  case Nil
  then show ?case
    by (simp add: recv_loop.simps AsyncRecv_def)
next
  case (Cons b bs)
  then show ?case
    by (subst recv_loop.simps) (auto simp: AsyncRecv_def)
qed

lemma payload_part_valid:
  "i + n \<le> length (payload_block c) \<Longrightarrow> payload_part i n c = Some (take n (drop i (payload_block c)))"
  by (auto simp: payload_part_def payload_block_def rd_n_def split: option.splits)

lemma async_append_ok:
  assumes "m_payload_valid_len c \<le> length (payload_block c)"
  shows "async_append c = Some (c\<lparr> m_payload := Some (take (m_payload_valid_len c) (payload_block c) @ net_in c),
    m_payload_valid_len := m_payload_valid_len c + length (net_in c), net_in := [] \<rparr>)"
  using payload_part_valid [of 0 "m_payload_valid_len c" c] assms by (simp add: async_append_def)

lemma async_header_whole:
  assumes "m_http2_state c = http2Header" and "m_frame_hdr_valid_len c = 0" and "length (m_frame_hdr c) = 9"
    and "m_payload c = Some got" and "m_payload_valid_len c = length got" and "length got \<ge> 9"
  shows "async_header c = Some (c\<lparr> m_frame_hdr := take 9 got, m_frame_hdr_valid_len := 9, m_http2_state := http2Payload,
    m_payload := Some (if length got > 9 then drop 9 got else got), m_payload_valid_len := length got - 9 \<rparr>)"
proof -
  have "payload_part 0 9 c = Some (take 9 got)"
    using assms(4,6) by (simp add: payload_part_def rd_n_def)
  moreover have "payload_part 9 (length got - 9) c = Some (drop 9 got)"
    using assms(4,6) by (auto simp: payload_part_def rd_n_def)
  moreover have "write_header (m_frame_hdr c) 0 (take 9 got) = Some (take 9 got)"
    using assms(3,6) by (auto simp: write_header_def sizeof_HTTP2_Frame_def)
  ultimately show ?thesis
    using assms unfolding async_header_def by (cases "length got = 9") (auto simp: Let_def sizeof_HTTP2_Frame_def)
qed

lemma async_collect:
  assumes "async_ok c" and "buffered c @ net_in c = got" and "length got \<ge> 9" and "net_events c = []"
  shows "\<exists>m. Option.bind (async_append c) async_header = Some (collected (take 9 got) m (length got - 9) c) \<and>
    take (length got - 9) m = drop 9 got \<and> (length got > 9 \<longrightarrow> m = drop 9 got)"
proof -
  have v: "m_payload_valid_len c \<le> length (payload_block c)" and h: "length (m_frame_hdr c) = 9"
    using assms(1) by (auto simp: async_ok_def)
  consider (header) "m_http2_state c = http2Header" "m_frame_hdr_valid_len c = 0"
    | (payload) "m_http2_state c = http2Payload" "m_frame_hdr_valid_len c = 9"
    using assms(1) by (auto simp: async_ok_def)
  then show ?thesis
  proof cases
    case header
    then have t: "got = take (m_payload_valid_len c) (payload_block c) @ net_in c"
      using assms(2) by (simp add: buffered_def)
    then have l: "m_payload_valid_len c + length (net_in c) = length got"
      using v by simp
    let ?c = "c\<lparr> m_payload := Some got, m_payload_valid_len := length got, net_in := [] \<rparr>"
    have "async_header ?c = Some (collected (take 9 got) (if length got > 9 then drop 9 got else got) (length got - 9) c)"
      using header h assms(3,4) async_header_whole [of ?c got] by (simp add: collected_def)
    then show ?thesis
      unfolding async_append_ok [OF v] t [symmetric] l by auto
  next
    case payload
    then have t: "got = m_frame_hdr c @ take (m_payload_valid_len c) (payload_block c) @ net_in c"
      using assms(2) h by (simp add: buffered_def)
    define m where "m = take (m_payload_valid_len c) (payload_block c) @ net_in c"
    have m: "drop 9 got = m" "take 9 got = m_frame_hdr c" "m_payload_valid_len c + length (net_in c) = length got - 9"
      "length m = length got - 9"
      using v h t by (simp_all add: m_def)
    have "async_header (c\<lparr> m_payload := Some m, m_payload_valid_len := length got - 9, net_in := [] \<rparr>) =
        Some (collected (m_frame_hdr c) m (length got - 9) c)"
      using payload assms(4) by (cases c) (simp add: async_header_def collected_def)
    then show ?thesis
      unfolding async_append_ok [OF v] m_def [symmetric] m
      by (auto simp: m(4) [symmetric])
  qed
qed

text \<open>The state behind a frame whose payload is not empty.\<close>

definition frame_done :: "bytes \<Rightarrow> 'h CHttp2 \<Rightarrow> 'h CHttp2" where
  "frame_done rest c = c\<lparr> m_payload := Some rest, m_payload_valid_len := length rest, m_http2_state := http2Header,
     m_frame_hdr_valid_len := 0 \<rparr>"

lemma async_frame_whole:
  assumes "recv_payload_len h = n" and "n \<noteq> 0" and "length body = unat n"
    and "ProtParse ops (arun ops k) h (Some (body @ rest)) (unat n) (recv_stream_ind h)
      (collected hb (body @ rest) (length (body @ rest)) c) = Some (r, d)"
  shows "async_frame ops (arun ops k) h (collected hb (body @ rest) (length (body @ rest)) c) = Some (r, frame_done rest d) \<and>
    net_events d = [] \<and> net_in d = [] \<and> m_frame_hdr d = hb"
proof -
  let ?c = "collected hb (body @ rest) (length (body @ rest)) c"
  have "conn_step ?c d"
    using arun.ProtParse_step [OF assms(4) conn.step_refl] .
  then have d: "m_payload d = Some (body @ rest)" "m_payload_valid_len d = length (body @ rest)" "net_events d = []"
    "net_in d = []" "m_frame_hdr d = hb"
    by (auto simp: conn_step_def async_part_def collected_def)
  have "payload_part (unat n) (length rest) d = Some rest"
    using d(1) assms(3) by (auto simp: payload_part_def rd_n_def)
  then show ?thesis
    using assms d by (simp add: async_frame_def collected_def frame_done_def unat_gt_0)
qed

lemma AsyncProcessing_frame:
  assumes "async_ok c" and "net_events c = map Chunk bs" and "[] \<notin> set bs"
    and "buffered c @ net_in c @ concat bs = hb @ body @ rest" and "read_frame hb = Some h"
    and "recv_payload_len h = n" and "n \<noteq> 0" and "length body = unat n"
    and "ProtParse ops (arun ops k) h (Some (body @ rest)) (unat n) (recv_stream_ind h)
      (collected hb (body @ rest) (length (body @ rest)) c) = Some (r, d)"
  shows "AsyncProcessing ops (Suc k) c =
    (let conn = (if r = - 1 then httpClose else httpContinue)
     in if length rest \<ge> 9 then Option.bind (AsyncProcessing ops k (frame_done rest d)) (\<lambda>(_, e). Some (conn, e))
        else Some (conn, frame_done rest d))"
proof -
  let ?c = "c\<lparr> net_in := net_in c @ concat bs, net_events := [] \<rparr>"
  let ?d = "collected hb (body @ rest) (length (body @ rest)) c"
  have hb: "length hb = 9"
    using assms(5) by (cases hb rule: read_frame.cases) simp_all
  have ok: "async_ok ?c" "buffered ?c = buffered c" "m_http2_state ?c \<noteq> http2Prefix"
    using assms(1) by (auto simp: async_ok_def buffered_def payload_block_def)
  have b: "body \<noteq> []"
    using assms(7,8) by (auto simp: unsigned_eq_0_iff)
  have "collected hb m j ?c = collected hb m j c" for m j
    by (simp add: collected_def)
  then have "Option.bind (async_append ?c) async_header = Some ?d"
    using async_collect [OF ok(1), of "hb @ body @ rest"] assms(4) hb b by (auto simp: ok(2))
  then obtain a where a: "async_append ?c = Some a" "async_header a = Some ?d"
    by (auto simp: bind_eq_Some_conv)
  have "m_http2_state ?d = http2Payload" "m_frame_hdr ?d = hb" "m_payload_valid_len ?d = length (body @ rest)"
    by (simp_all add: collected_def)
  then show ?thesis
    using async_frame_whole [OF assms(6,7,8,9)] ok(3) recv_loop_chunks [OF assms(2,3)] assms(5,6,8) a
    by (simp add: frame_done_def sizeof_HTTP2_Frame_def Let_def)
qed

lemma AsyncProcessing_waits:
  assumes "async_ok c" and "net_events c = map Chunk bs" and "[] \<notin> set bs"
    and "buffered c @ net_in c @ concat bs = hb @ part" and "read_frame hb = Some h"
    and "length part < unat (recv_payload_len h)"
  shows "\<exists>m. AsyncProcessing ops (Suc k) c = Some (httpContinue, collected hb m (length part) c) \<and> take (length part) m = part"
proof -
  let ?c = "c\<lparr> net_in := net_in c @ concat bs, net_events := [] \<rparr>"
  have hb: "length hb = 9"
    using assms(5) by (cases hb rule: read_frame.cases) simp_all
  have ok: "async_ok ?c" "buffered ?c = buffered c" "m_http2_state ?c \<noteq> http2Prefix"
    using assms(1) by (auto simp: async_ok_def buffered_def payload_block_def)
  have "collected hb m j ?c = collected hb m j c" for m j
    by (simp add: collected_def)
  then obtain m where m: "Option.bind (async_append ?c) async_header = Some (collected hb m (length part) c)"
      "take (length part) m = part"
    using async_collect [OF ok(1), of "hb @ part"] assms(4) hb by (auto simp: ok(2))
  then obtain a where a: "async_append ?c = Some a" "async_header a = Some (collected hb m (length part) c)"
    by (auto simp: bind_eq_Some_conv)
  have "m_http2_state (collected hb m (length part) c) = http2Payload" "m_frame_hdr (collected hb m (length part) c) = hb"
    "m_payload_valid_len (collected hb m (length part) c) = length part"
    by (simp_all add: collected_def)
  then show ?thesis
    using ok(3) recv_loop_chunks [OF assms(2,3)] assms(5,6) a m(2)
    by (intro exI [of _ m]) (simp add: Let_def)
qed

lemma split_at:
  assumes "xs @ ys = g @ zs" and "length xs \<le> length g"
  shows "g = xs @ drop (length xs) g" and "ys = drop (length xs) g @ zs"
proof -
  have "take (length xs) (xs @ ys) = take (length xs) (g @ zs)" "drop (length xs) (xs @ ys) = drop (length xs) (g @ zs)"
    by (simp_all only: assms(1))
  then show "g = xs @ drop (length xs) g" and "ys = drop (length xs) g @ zs"
    using assms(2) append_take_drop_id [of "length xs" g] by simp_all
qed

lemma arrive_pieces:
  assumes "async_ok e" and "net_in e = []" and "bs \<noteq> []" and "[] \<notin> set bs"
    and "buffered e @ concat bs = hb @ body" and "length (buffered e @ hd bs) \<ge> 9"
    and "\<And>m j. collected hb m j e = collected hb m j c"
    and "read_frame hb = Some h" and "recv_payload_len h = n" and "n \<noteq> 0" and "length body = unat n"
    and "ProtParse ops (arun ops k) h (Some body) (unat n) (recv_stream_ind h) (collected hb body (unat n) c) = Some (r, d)"
  shows "arrive ops (Suc k) (map (\<lambda>x. [Chunk x]) bs) e = Some (if r = - 1 then httpClose else httpContinue, frame_done [] d)"
  using assms(1-7)
proof (induction bs arbitrary: e)
  case (Cons b bs)
  let ?e = "e\<lparr> net_events := [Chunk b] \<rparr>"
  have hb: "length hb = 9"
    using assms(8) by (cases hb rule: read_frame.cases) simp_all
  have ok: "async_ok ?e" "buffered ?e = buffered e" "net_in ?e = []" "net_events ?e = map Chunk [b]" "[] \<notin> set [b]"
    and same: "collected hb m j ?e = collected hb m j c" for m j
    using Cons.prems by (auto simp: async_ok_def buffered_def payload_block_def collected_def)
  show ?case
  proof (cases "bs = []")
    case True
    have "ProtParse ops (arun ops k) h (Some (body @ [])) (unat n) (recv_stream_ind h)
        (collected hb (body @ []) (length (body @ [])) ?e) = Some (r, d)"
      using assms(11,12) same by simp
    then show ?thesis
      using AsyncProcessing_frame [OF ok(1,4,5) _ assms(8-11), of "[]" ops k r d] Cons.prems True
      by (auto simp: ok Let_def)
  next
    case False
    define part where "part = drop 9 (buffered e @ b)"
    have "hb @ body = (buffered e @ b) @ concat bs"
      using Cons.prems by simp
    then have p: "buffered e @ b = hb @ part" "body = part @ concat bs"
      using split_at [of hb body "buffered e @ b" "concat bs"] Cons.prems(6) hb by (simp_all add: part_def)
    have "concat bs \<noteq> []"
      using Cons.prems(4) False by (cases bs) auto
    then have "length part < length body"
      by (simp only: p(2) length_append) simp
    then have "length part < unat (recv_payload_len h)"
      using assms(9,11) by simp
    then obtain m where m: "AsyncProcessing ops (Suc k) ?e = Some (httpContinue, collected hb m (length part) c)"
      and t: "take (length part) m = part"
      using AsyncProcessing_waits [OF ok(1,4,5) _ assms(8), of part ops k] p(1) same by (auto simp: ok)
    let ?w = "collected hb m (length part) c"
    have "length part \<le> length m"
      using t by (metis length_take min.cobounded2 min_def nle_le)
    then have "async_ok ?w" "net_in ?w = []" "buffered ?w = hb @ part" "collected hb x j ?w = collected hb x j c" for x j
      using hb t by (simp_all add: async_ok_def buffered_def payload_block_def collected_def)
    then show ?thesis
      using Cons.IH [of ?w] Cons.prems(4) False hb p m by (simp del: AsyncProcessing.simps)
  qed
qed simp

subsection \<open>Properties of the receiver\<close>

lemma ProtParse_keeps:
  assumes "ProtParse ops (arun ops k) h m n i (collected hb x j c) = Some (r, d)"
  shows "net_events d = []" and "net_in d = []" and "m_frame_hdr d = hb"
  using arun.ProtParse_step [OF assms conn.step_refl] by (auto simp: conn_step_def async_part_def collected_def)

lemma frame_done_ok:
  "length (m_frame_hdr d) = 9 \<Longrightarrow> async_ok (frame_done rest d) \<and> buffered (frame_done rest d) = rest"
  by (simp add: async_ok_def buffered_def payload_block_def frame_done_def)

definition at_header :: "'h CHttp2 \<Rightarrow> bool" where
  "at_header c \<longleftrightarrow> m_http2_state c = http2Header \<and> m_frame_hdr_valid_len c = 0 \<and> length (m_frame_hdr c) = 9 \<and>
     m_payload_valid_len c = 0 \<and> net_in c = []"

lemma at_header_ok: "at_header c \<Longrightarrow> async_ok c \<and> buffered c = [] \<and> net_in c = []"
  by (simp add: at_header_def async_ok_def buffered_def)

definition ready_conn :: "recv_event list \<Rightarrow> unit CHttp2" where
  "ready_conn es = (init_conn False [] [] True 0)\<lparr> m_http2_state := http2Header, net_events := es \<rparr>"

abbreviation ping_header :: bytes where
  "ping_header \<equiv> frame_bytes (frame_header 8 FRAME_PING FLAG_UNSET 0)"

lemma ready_conn_at [simp]: "at_header (ready_conn es)"
  by (simp add: at_header_def ready_conn_def init_conn_def)

lemma ping_read: "read_frame ping_header = Some (frame_header 8 FRAME_PING FLAG_UNSET 0)"
    "recv_payload_len (frame_header 8 FRAME_PING FLAG_UNSET 0) = 8"
    "recv_stream_ind (frame_header 8 FRAME_PING FLAG_UNSET 0) = 0"
  using header_received [of 8 FRAME_PING FLAG_UNSET 0] by simp_all

text \<open>
  C3: a frame that arrives in pieces is handled like a frame that arrives whole. If the first piece
  contains the frame header, then however the rest is cut into reads, \<open>AsyncProcessing\<close> collects it, handles
  nothing before the last octet, then calls \<open>ProtParse\<close> once, with the header, exactly the
  payload and the state the connection had, and is ready for the next header.
\<close>

theorem async_frame_in_pieces:
  assumes "at_header c" and "length b \<ge> 9" and "[] \<notin> set bs" and "b @ concat bs = hb @ body"
    and "read_frame hb = Some h" and "recv_payload_len h = n" and "n \<noteq> 0" and "length body = unat n"
    and "ProtParse ops (arun ops k) h (Some body) (unat n) (recv_stream_ind h) (collected hb body (unat n) c) = Some (r, d)"
  shows "arrive ops (Suc k) (map (\<lambda>x. [Chunk x]) (b # bs)) c =
    Some (if r = - 1 then httpClose else httpContinue, frame_done [] d)"
proof (rule arrive_pieces [OF _ _ _ _ _ _ _ assms(5-9)])
  show "async_ok c" "net_in c = []" "b # bs \<noteq> []" "[] \<notin> set (b # bs)" "buffered c @ concat (b # bs) = hb @ body"
    "length (buffered c @ hd (b # bs)) \<ge> 9" "\<And>m j. collected hb m j c = collected hb m j c"
    using assms(1-4) at_header_ok by auto
qed

theorem async_frame_in_pieces_witness:
  "let b = ping_header @ [1, 2, 3]; bs = [[4, 5], [6, 7, 8]]; body = [1, 2, 3, 4, 5, 6, 7, 8]; c = ready_conn []
   in arrive quiet_h1 (Suc 0) (map (\<lambda>x. [Chunk x]) (b # bs)) c = Some (if (8 :: int) = - 1 then httpClose else httpContinue, frame_done []
     ((collected ping_header body (unat (8 :: u32)) c)\<lparr> net_out := [frame_bytes (frame_header 8 FRAME_PING FLAG_ACK 0) @ body] \<rparr>))"
  unfolding Let_def
proof (rule async_frame_in_pieces [OF _ _ _ _ ping_read(1,2)])
  let ?c = "collected ping_header [1, 2, 3, 4, 5, 6, 7, 8] (unat (8 :: u32)) (ready_conn [])"
  have "net_up ?c" and "net_out ?c = []"
    by (simp_all add: collected_def ready_conn_def init_conn_def)
  then show "ProtParse quiet_h1 (arun quiet_h1 0) (frame_header 8 FRAME_PING FLAG_UNSET 0) (Some [1, 2, 3, 4, 5, 6, 7, 8])
      (unat (8 :: u32)) (recv_stream_ind (frame_header 8 FRAME_PING FLAG_UNSET 0)) ?c =
    Some (8, ?c\<lparr> net_out := [frame_bytes (frame_header 8 FRAME_PING FLAG_ACK 0) @ [1, 2, 3, 4, 5, 6, 7, 8]] \<rparr>)"
    using ProtParse_ping [of "[1, 2, 3, 4, 5, 6, 7, 8]" "[1, 2, 3, 4, 5, 6, 7, 8]" ?c quiet_h1 "arun quiet_h1 0"]
    by (simp add: rd_n_def ping_read)
qed (simp_all add: sizeof_HTTP2_Frame_def)

text \<open>
  a frame header that arrives in two reads is written outside the allocated header. The pointer is
  advanced in units of the header struct, so the second copy starts nine octets or more behind its
  beginning.
\<close>

theorem async_split_header:
  assumes "at_header c" and "a \<noteq> []" and "length a < 9" and "b \<noteq> []"
  shows "arrive ops (Suc k) [[Chunk a], [Chunk b]] c = None"
proof -
  let ?c = "c\<lparr> net_events := [Chunk a] \<rparr>"
  define d where "d = c\<lparr> net_events := [], net_in := [], m_payload := Some a, m_payload_valid_len := 0,
    m_frame_hdr := a @ drop (length a) (m_frame_hdr c), m_frame_hdr_valid_len := length a \<rparr>"
  have "recv_loop ?c = (httpContinue, c\<lparr> net_events := [], net_in := a \<rparr>)"
    using recv_loop_chunks [of ?c "[a]"] assms(1,2) by (simp add: at_header_def)
  then have first: "AsyncProcessing ops (Suc k) ?c = Some (httpContinue, d)"
    using assms by (simp add: d_def at_header_def async_append_def async_header_def payload_part_def rd_n_def write_header_def
        sizeof_HTTP2_Frame_def Let_def)
  let ?d = "d\<lparr> net_events := [Chunk b] \<rparr>"
  have "recv_loop ?d = (httpContinue, d\<lparr> net_in := b \<rparr>)"
    using recv_loop_chunks [of ?d "[b]"] assms(4) by (simp add: d_def)
  moreover have "Option.bind (async_append (d\<lparr> net_in := b \<rparr>)) async_header = None"
    using assms by (cases a; cases b) (auto simp: d_def at_header_def async_append_def async_header_def payload_part_def rd_n_def
        write_header_def sizeof_HTTP2_Frame_def Let_def split: bind_splits)
  ultimately have "AsyncProcessing ops (Suc k) ?d = None"
    using assms(1) by (auto simp: d_def at_header_def Let_def split: bind_splits)
  with first show ?thesis
    by simp
qed

theorem async_split_header_witness:
  "arrive quiet_h1 (Suc 0) [[Chunk [0, 0, 8]], [Chunk [6, 0, 0, 0, 0, 0]]] (ready_conn []) = None"
  by (rule async_split_header) simp_all

text \<open>
  an error in the second of two frames does not close the connection. When one read brings two frames
  and handling the second fails, \<open>AsyncProcessing\<close> has been entered again for it, and its
  answer is dropped: the caller is told to go on.
\<close>

theorem async_close_lost:
  assumes "at_header c" and "net_events c = [Chunk (hb @ body @ hb' @ body')]"
    and "read_frame hb = Some h" and "recv_payload_len h = n" and "n \<noteq> 0" and "length body = unat n"
    and "read_frame hb' = Some h'" and "recv_payload_len h' = n'" and "n' \<noteq> 0" and "length body' = unat n'"
    and "ProtParse ops (arun ops (Suc k)) h (Some (body @ hb' @ body')) (unat n) (recv_stream_ind h)
      (collected hb (body @ hb' @ body') (length (body @ hb' @ body')) c) = Some (r, d)" and "r \<noteq> - 1"
    and "ProtParse ops (arun ops k) h' (Some body') (unat n') (recv_stream_ind h') (collected hb' body' (unat n') (frame_done (hb' @ body') d))
      = Some (- 1, e)"
  shows "AsyncProcessing ops (Suc (Suc k)) c = Some (httpContinue, frame_done [] e)"
proof -
  have hb: "length hb = 9" "length hb' = 9"
    using assms(3,7) by (cases hb rule: read_frame.cases, simp_all, cases hb' rule: read_frame.cases, simp_all)
  let ?d = "frame_done (hb' @ body') d"
  note keeps = ProtParse_keeps [OF assms(11)]
  have d: "async_ok ?d" "buffered ?d = hb' @ body'" "net_events ?d = map Chunk []" "net_in ?d = []"
    using frame_done_ok [of d "hb' @ body'"] keeps hb by (blast, blast, simp_all add: frame_done_def)
  have "AsyncProcessing ops (Suc k) ?d = Some (httpClose, frame_done [] e)"
    using AsyncProcessing_frame [OF d(1,3) _ _ assms(7-10), of "[]" ops k "- 1" e] d assms(10,13) by simp
  then show ?thesis
    using AsyncProcessing_frame [OF _ _ _ _ assms(3-6,11), of "[hb @ body @ hb' @ body']"] at_header_ok [OF assms(1)]
      assms(2,12) hb by (cases hb) (auto simp: Let_def simp del: AsyncProcessing.simps)
qed

theorem async_close_lost_witness:
  "let hb = ping_header; body = [1, 2, 3, 4, 5, 6, 7, 8]; hb' = frame_bytes (frame_header 8 FRAME_GOAWAY FLAG_UNSET 0); body' = replicate 8 0;
     c = ready_conn [Chunk (hb @ body @ hb' @ body')]
   in \<exists>e. AsyncProcessing quiet_h1 (Suc (Suc 0)) c = Some (httpContinue, frame_done [] e)"
proof -
  let ?body = "[1, 2, 3, 4, 5, 6, 7, 8] :: bytes" and ?hb' = "frame_bytes (frame_header 8 FRAME_GOAWAY FLAG_UNSET 0)"
  let ?r = "?hb' @ replicate 8 0"
  let ?c = "ready_conn [Chunk (ping_header @ ?body @ ?r)]"
  let ?a = "collected ping_header (?body @ ?r) (length (?body @ ?r)) ?c"
  define d where "d = ?a\<lparr> net_out := net_out ?a @ [frame_bytes (frame_header 8 FRAME_PING FLAG_ACK 0) @ ?body] \<rparr>"
  define e where "e = collected ?hb' (replicate 8 0) (unat (8 :: u32)) (frame_done ?r d)"
  have g: "read_frame ?hb' = Some (frame_header 8 FRAME_GOAWAY FLAG_UNSET 0)"
    "recv_payload_len (frame_header 8 FRAME_GOAWAY FLAG_UNSET 0) = 8" "recv_stream_ind (frame_header 8 FRAME_GOAWAY FLAG_UNSET 0) = 0"
    using header_received [of 8 FRAME_GOAWAY FLAG_UNSET 0] by simp_all
  have "net_up ?a"
    by (simp add: collected_def ready_conn_def init_conn_def)
  then have ping: "ProtParse quiet_h1 (arun quiet_h1 (Suc 0)) (frame_header 8 FRAME_PING FLAG_UNSET 0) (Some (?body @ ?r)) (unat (8 :: u32))
      (recv_stream_ind (frame_header 8 FRAME_PING FLAG_UNSET 0)) ?a = Some (8, d)"
    unfolding ping_read(3) d_def using ProtParse_ping [of "?body @ ?r" ?body ?a quiet_h1 "arun quiet_h1 (Suc 0)"] by (simp add: rd_n_def)
  have goaway: "ProtParse quiet_h1 (arun quiet_h1 0) (frame_header 8 FRAME_GOAWAY FLAG_UNSET 0) (Some (replicate 8 0)) (unat (8 :: u32))
      (recv_stream_ind (frame_header 8 FRAME_GOAWAY FLAG_UNSET 0)) e = Some (- 1, e)"
    unfolding g(3) by (simp add: ProtParse_def gate_def frame_types handle_goaway_def pl_word_def pl_byte_def rd_def numeral_eq_Suc)
  have "net_events ?c = [Chunk (ping_header @ ?body @ ?hb' @ replicate 8 0)]"
    by (simp add: ready_conn_def)
  from async_close_lost [OF ready_conn_at this ping_read(1,2) _ _ g(1,2) _ _ ping _ goaway [unfolded e_def]]
  show ?thesis
    unfolding Let_def by (intro exI) (simp del: AsyncProcessing.simps)
qed

end
