(* ===== verification/Websocket.thy ===== *)
theory Websocket
  imports Prelude
begin

text \<open>
  WebSocket framing (websocket.h, websocket.cpp): \<open>Send\<close>, \<open>Recv\<close> and the three control frames.
  The socket is what the peer sends until it closes or falls silent (\<open>ws_in\<close>), what was written
  (\<open>ws_out\<close>) and how many writes still succeed (\<open>ws_writes\<close>). The masking key of \<open>random\<close>
  is an argument; allocations succeed.
\<close>

subsection \<open>Numbers in network order\<close>

text \<open>\<open>htons\<close> and \<open>htobe64\<close> followed by the store of a little-endian machine, and the way back.\<close>

fun be_bytes :: "nat \<Rightarrow> 'a::len word \<Rightarrow> bytes" where
  "be_bytes 0 w = []"
| "be_bytes (Suc n) w = ucast (drop_bit (8 * n) w) # be_bytes n w"

fun be_read :: "'a::len word \<Rightarrow> bytes \<Rightarrow> 'a word" where
  "be_read acc [] = acc"
| "be_read acc (b # bs) = be_read (push_bit 8 acc OR ucast b) bs"

lemma length_be_bytes [simp]: "length (be_bytes n w) = n"
  by (induction n) simp_all

lemma be_read_bytes: "be_read acc (be_bytes n w) = push_bit (8 * n) acc OR ucast (take_bit (8 * n) w)"
proof (induction n arbitrary: acc)
  case (Suc n)
  have "push_bit (8 * n) (push_bit 8 acc OR ucast (ucast (drop_bit (8 * n) w) :: byte)) OR ucast (take_bit (8 * n) w) =
      push_bit (8 * Suc n) acc OR ucast (take_bit (8 * Suc n) w)"
    by (rule bit_word_eqI) (auto simp: bit_simps add.commute [of _ 8])
  then show ?case
    by (simp add: Suc)
qed simp

lemma be_read_whole:
  "LENGTH('b) \<le> 8 * n \<Longrightarrow> be_read 0 (be_bytes n (w :: 'b::len word)) = ucast w"
  by (simp add: be_read_bytes take_bit_word_eq_self)

subsection \<open>The base header\<close>

text \<open>The bit fields of \<open>huint16\<close>, lowest first: length, mask, opcode, reserved, final.\<close>

definition huint16 :: "byte \<Rightarrow> bool \<Rightarrow> byte \<Rightarrow> u16" where
  "huint16 len7 masked opcode =
     take_bit 7 (ucast len7) OR push_bit 7 (of_bool masked) OR push_bit 8 (take_bit 4 (ucast opcode)) OR push_bit 15 1"

definition payload_len_7bit :: "u16 \<Rightarrow> nat" where
  "payload_len_7bit w = unat (take_bit 7 w)"

definition mask_bit :: "u16 \<Rightarrow> bool" where
  "mask_bit w \<longleftrightarrow> bit w 7"

text \<open>The length field \<open>Send\<close> chooses; the last case is cut to seven bits.\<close>

definition len7_of :: "u64 \<Rightarrow> byte" where
  "len7_of len =
     (if len > 65535 then 127
      else if len > 125 \<and> len < 65535 then 126
      else take_bit 7 (ucast len))"

subsection \<open>The socket\<close>

record ws_conn =
  ws_in :: bytes
  ws_silent :: bool
  ws_ssl :: bool
  ws_out :: "bytes list"
  ws_writes :: nat

definition ws_write :: "bytes \<Rightarrow> ws_conn \<Rightarrow> int \<times> ws_conn" where
  "ws_write b s =
     (if b = [] then (0, s)
      else case ws_writes s of
        0 \<Rightarrow> (- 1, s)
      | Suc n \<Rightarrow> (0, s\<lparr> ws_out := ws_out s @ [b], ws_writes := n \<rparr>))"

text \<open>A read that gets less than asked for fails when the peer is silent, or with TLS; otherwise it
  returns what there is.\<close>

definition ws_read :: "nat \<Rightarrow> ws_conn \<Rightarrow> bytes option \<times> ws_conn" where
  "ws_read n s =
     (let got = take n (ws_in s); s' = s\<lparr> ws_in := drop n (ws_in s) \<rparr>
      in if length got < n \<and> (ws_silent s \<or> ws_ssl s) then (None, s') else (Some got, s'))"

record WebSocket_Buffer =
  ws_buf :: bytes
  ws_len :: u64
  ws_opcode :: byte
  ws_mask :: bool

subsection \<open>Send\<close>

text \<open>The counters of the loops are \<open>int\<close>s: from \<open>2 ^ 31\<close> octets on they overflow.\<close>

definition mask_with :: "bytes \<Rightarrow> bytes \<Rightarrow> bytes" where
  "mask_with key bs = map (\<lambda>i. bs ! i XOR key ! (i mod 4)) [0 ..< length bs]"

definition WebSocket_Send :: "bytes \<Rightarrow> WebSocket_Buffer \<Rightarrow> ws_conn \<Rightarrow> (int \<times> ws_conn) outcome" where
  "WebSocket_Send key data s = do {
     let len7 = len7_of (ws_len data);
     let (res, s) = ws_write (be_bytes 2 (huint16 len7 (ws_mask data) (ws_opcode data))) s;
     if res = - 1 then Some (- 1, s)
     else do {
       let (res, s) = (if len7 = 126 then ws_write (be_bytes 2 (ucast (ws_len data) :: u16)) s
             else if len7 = 127 then ws_write (be_bytes 8 (ws_len data)) s else (0, s));
       if res = - 1 then Some (- 1, s)
       else do {
         payload \<leftarrow> (if ws_len data < 0x80000000 then rd_n (ws_buf data) 0 (unat (ws_len data)) else None);
         let (res, s) = (if ws_mask data then ws_write key s else (0, s));
         if res = - 1 then Some (- 1, s)
         else Some (ws_write (if ws_mask data then mask_with key payload else payload) s)
       }
     }
   }"

text \<open>\<open>Close\<close>, \<open>Ping\<close> and \<open>Pong\<close>: a header with an opcode, no mask and no payload.\<close>

definition control_frame :: "byte \<Rightarrow> ws_conn \<Rightarrow> int \<times> ws_conn" where
  "control_frame opcode s = ws_write (be_bytes 2 (huint16 0 False opcode)) s"

definition WebSocket_Close :: "ws_conn \<Rightarrow> int \<times> ws_conn" where
  "WebSocket_Close = control_frame 0x08"

definition WebSocket_Ping :: "ws_conn \<Rightarrow> int \<times> ws_conn" where
  "WebSocket_Ping = control_frame 0x09"

definition WebSocket_Pong :: "ws_conn \<Rightarrow> int \<times> ws_conn" where
  "WebSocket_Pong = control_frame 0x0A"

subsection \<open>Recv\<close>

text \<open>
  A number that was not read whole is indeterminate, which is undefined here. The length is 64 bits
  wide, the count handed to the socket 32. \<open>ws_buf\<close> is what was received, unmasked; the
  counter of the unmasking loop is an \<open>int\<close>.
\<close>

datatype 'a received = Failed | Got 'a

definition read_number :: "nat \<Rightarrow> ws_conn \<Rightarrow> (u64 received \<times> ws_conn) outcome" where
  "read_number n s =
     (let (got, s) = ws_read n s
      in case got of None \<Rightarrow> Some (Failed, s)
         | Some bs \<Rightarrow> if length bs < n then None else Some (Got (be_read 0 bs), s))"

definition recv_len :: "u16 \<Rightarrow> ws_conn \<Rightarrow> (u64 received \<times> ws_conn) outcome" where
  "recv_len hdr s =
     (if payload_len_7bit hdr < 126 then Some (Got (word_of_nat (payload_len_7bit hdr)), s)
      else if payload_len_7bit hdr = 126 then read_number 2 s
      else read_number 8 s)"

definition recv_key :: "u16 \<Rightarrow> ws_conn \<Rightarrow> (bytes received \<times> ws_conn) outcome" where
  "recv_key hdr s =
     (if mask_bit hdr then
        let (got, s) = ws_read 4 s
        in case got of None \<Rightarrow> Some (Failed, s)
           | Some bs \<Rightarrow> if length bs < 4 then None else Some (Got bs, s)
      else Some (Got [], s))"

definition recv_payload :: "u16 \<Rightarrow> u64 \<Rightarrow> bytes \<Rightarrow> WebSocket_Buffer \<Rightarrow> ws_conn \<Rightarrow> (int \<times> WebSocket_Buffer \<times> ws_conn) outcome" where
  "recv_payload hdr payload_len key data s =
     (if payload_len > 0 then
        let alloc = unat (payload_len + 1); n = unat (ucast payload_len :: u32);
            arrived = length (take n (ws_in s));
            (got, s) = ws_read n s
        in if arrived > alloc then None
           else case got of None \<Rightarrow> Some (- 1, data, s)
           | Some bs \<Rightarrow>
               if length bs \<ge> alloc then None
               else if mask_bit hdr \<and> payload_len \<ge> 0x80000000 then None
               else Some (int (length bs), data\<lparr> ws_buf := (if mask_bit hdr then mask_with key bs else bs), ws_len := payload_len \<rparr>, s)
      else Some (0, data, s))"

definition WebSocket_Recv :: "WebSocket_Buffer \<Rightarrow> ws_conn \<Rightarrow> (int \<times> WebSocket_Buffer \<times> ws_conn) outcome" where
  "WebSocket_Recv data s = do {
     (base_hdr, s) \<leftarrow> read_number 2 s;
     case base_hdr of Failed \<Rightarrow> Some (- 1, data, s)
     | Got w \<Rightarrow> do {
         let hdr = (ucast w :: u16);
         (len, s) \<leftarrow> recv_len hdr s;
         case len of Failed \<Rightarrow> Some (- 1, data, s)
         | Got payload_len \<Rightarrow> do {
             (k, s) \<leftarrow> recv_key hdr s;
             case k of Failed \<Rightarrow> Some (- 1, data, s)
             | Got key \<Rightarrow> recv_payload hdr payload_len key data s
           }
       }
   }"

subsection \<open>What is sent is received\<close>

lemma len7_cases:
  obtains (short) "unat len \<le> 125" "unat (len7_of len) = unat len"
    | (mid) "unat len < 65536" "len7_of len = 126"
    | (long) "len7_of len = 127"
proof -
  consider "unat len \<le> 125" | "unat len < 65535" "unat len > 125" | "len = 65535" | "unat len > 65535"
    by (cases "unat len < 65535"; cases "unat len = 65535"; cases "unat len \<le> 125") (simp_all add: word_unat_eq_iff)
  then show ?thesis
  proof cases
    case 1
    then have "take_bit 7 (unat len) = unat len" "take_bit 8 (unat len) = unat len"
      by (simp_all add: take_bit_nat_eq_self)
    then have "unat (len7_of len) = unat len"
      using 1 by (simp add: len7_of_def word_less_nat_alt unsigned_take_bit_eq unsigned_ucast_eq)
    with 1 short show ?thesis by blast
  next
    case 2
    then show ?thesis
      using mid by (simp add: len7_of_def word_less_nat_alt)
  next
    case 3
    then have "len7_of len = 127"
      by (simp add: len7_of_def take_bit_eq_mask mask_numeral)
    with long show ?thesis by blast
  next
    case 4
    then show ?thesis
      using long by (simp add: len7_of_def word_less_nat_alt)
  qed
qed

lemma len7_seven [simp]: "take_bit 7 (len7_of len) = len7_of len"
  by (cases len rule: len7_cases) (simp_all add: word_unat_eq_iff unsigned_take_bit_eq take_bit_nat_eq_self)

lemma huint16_fields:
  "payload_len_7bit (huint16 len7 m op) = unat (take_bit 7 len7)" "mask_bit (huint16 len7 m op) = m"
proof -
  have "take_bit 7 (huint16 len7 m op) = ucast (take_bit 7 len7)"
    by (rule bit_word_eqI) (auto simp: huint16_def bit_simps)
  then show "payload_len_7bit (huint16 len7 m op) = unat (take_bit 7 len7)"
    using unsigned_less [of "take_bit 7 len7", where 'a = nat]
    by (simp add: payload_len_7bit_def unsigned_ucast_eq take_bit_nat_eq_self)
  show "mask_bit (huint16 len7 m op) = m"
    by (auto simp: mask_bit_def huint16_def bit_simps)
qed

lemma ws_read_prefix:
  "ws_in s = bs @ rest \<Longrightarrow> length bs = n \<Longrightarrow> ws_read n s = (Some bs, s\<lparr> ws_in := rest \<rparr>)"
  by (simp add: ws_read_def)

lemma mask_with_twice [simp]: "mask_with key (mask_with key bs) = bs"
  by (rule nth_equalityI) (simp_all add: mask_with_def xor.assoc)

lemma length_mask_with [simp]: "length (mask_with key bs) = length bs"
  by (simp add: mask_with_def)

definition len_bytes :: "u64 \<Rightarrow> bytes" where
  "len_bytes len =
     (if len7_of len = 126 then be_bytes 2 (ucast len :: u16) else if len7_of len = 127 then be_bytes 8 len else [])"

lemma recv_len_sent:
  assumes "ws_in s = len_bytes len @ rest"
  shows "recv_len (huint16 (len7_of len) m op) s = Some (Got len, s\<lparr> ws_in := rest \<rparr>)"
proof (cases len rule: len7_cases)
  case short
  then have "ws_in s = rest"
    using assms by (auto simp: len_bytes_def)
  then have "s\<lparr> ws_in := rest \<rparr> = s"
    by simp
  then show ?thesis
    using short by (simp add: recv_len_def huint16_fields)
next
  case mid
  have "ucast (ucast len :: u16) = len"
    using mid(1) by (simp add: word_unat_eq_iff unsigned_ucast_eq unsigned_take_bit_eq take_bit_nat_eq_self)
  then show ?thesis
    using mid assms ws_read_prefix [of s "be_bytes 2 (ucast len :: u16)" rest 2]
    by (simp add: recv_len_def huint16_fields len_bytes_def read_number_def be_read_whole)
next
  case long
  then show ?thesis
    using assms ws_read_prefix [of s "be_bytes 8 len" rest 8]
    by (simp add: recv_len_def huint16_fields len_bytes_def read_number_def be_read_whole)
qed

definition ws_frame :: "bytes \<Rightarrow> WebSocket_Buffer \<Rightarrow> bytes" where
  "ws_frame key data =
     (let payload = take (unat (ws_len data)) (ws_buf data)
      in be_bytes 2 (huint16 (len7_of (ws_len data)) (ws_mask data) (ws_opcode data)) @ len_bytes (ws_len data) @
         (if ws_mask data then key @ mask_with key payload else payload))"

lemma ws_write_ok:
  "n < ws_writes s \<Longrightarrow> \<exists>t. ws_write b s = (0, t) \<and> concat (ws_out t) = concat (ws_out s) @ b \<and> n \<le> ws_writes t"
  by (auto simp: ws_write_def split: nat.split)

lemma WebSocket_Send_writes:
  assumes "ws_len data < 0x80000000" and "unat (ws_len data) \<le> length (ws_buf data)" and "4 \<le> ws_writes s"
  shows "\<exists>t. WebSocket_Send key data s = Some (0, t) \<and> concat (ws_out t) = concat (ws_out s) @ ws_frame key data"
proof -
  obtain t1 where t1: "ws_write (be_bytes 2 (huint16 (len7_of (ws_len data)) (ws_mask data) (ws_opcode data))) s = (0, t1)"
    "concat (ws_out t1) = concat (ws_out s) @ be_bytes 2 (huint16 (len7_of (ws_len data)) (ws_mask data) (ws_opcode data))" "3 \<le> ws_writes t1"
    using ws_write_ok [of 3 s] assms(3) by auto
  obtain t2 where t2: "ws_write (len_bytes (ws_len data)) t1 = (0, t2)"
    "concat (ws_out t2) = concat (ws_out t1) @ len_bytes (ws_len data)" "2 \<le> ws_writes t2"
    using ws_write_ok [of 2 t1] t1(3) by auto
  have l: "(if len7_of (ws_len data) = 126 then ws_write (be_bytes 2 (ucast (ws_len data) :: u16)) t1
      else if len7_of (ws_len data) = 127 then ws_write (be_bytes 8 (ws_len data)) t1 else (0, t1)) = (0, t2)"
    using t2(1) by (auto simp: len_bytes_def ws_write_def split: if_splits)
  obtain t3 where t3: "(if ws_mask data then ws_write key t2 else (0, t2)) = (0, t3)"
    "concat (ws_out t3) = concat (ws_out t2) @ (if ws_mask data then key else [])" "1 \<le> ws_writes t3"
    using ws_write_ok [of 1 t2 key] t2(3) by (cases "ws_mask data") auto
  define p where "p = take (unat (ws_len data)) (ws_buf data)"
  obtain t4 where t4: "ws_write (if ws_mask data then mask_with key p else p) t3 = (0, t4)"
    "concat (ws_out t4) = concat (ws_out t3) @ (if ws_mask data then mask_with key p else p)"
    using ws_write_ok [of 0 t3] t3(3) by fastforce
  have "rd_n (ws_buf data) 0 (unat (ws_len data)) = Some p"
    using assms(2) by (simp add: rd_n_def p_def)
  then show ?thesis
    using assms(1) t1 t2(2) l t3 t4 by (simp add: WebSocket_Send_def ws_frame_def Let_def p_def [symmetric])
qed

lemma WebSocket_Recv_frame:
  assumes "0 < ws_len data" and "ws_len data < 0x80000000" and "unat (ws_len data) \<le> length (ws_buf data)"
    and "length key = 4" and "ws_in s = ws_frame key data @ rest"
  shows "WebSocket_Recv d s = Some (int (unat (ws_len data)),
    d\<lparr> ws_buf := take (unat (ws_len data)) (ws_buf data), ws_len := ws_len data \<rparr>, s\<lparr> ws_in := rest \<rparr>)"
proof -
  let ?h = "huint16 (len7_of (ws_len data)) (ws_mask data) (ws_opcode data)"
  define n where "n = unat (ws_len data)"
  define p where "p = (if ws_mask data then mask_with key (take n (ws_buf data)) else take n (ws_buf data))"
  define k where "k = (if ws_mask data then key else [])"
  have w: "ws_in s = be_bytes 2 ?h @ len_bytes (ws_len data) @ k @ p @ rest"
    using assms(5) by (simp add: ws_frame_def p_def k_def n_def)
  have a: "read_number 2 s = Some (Got (ucast ?h), s\<lparr> ws_in := len_bytes (ws_len data) @ k @ p @ rest \<rparr>)"
    using ws_read_prefix [OF w, of 2] by (simp add: read_number_def be_read_whole)
  have b: "recv_len ?h (s\<lparr> ws_in := len_bytes (ws_len data) @ k @ p @ rest \<rparr>) = Some (Got (ws_len data), s\<lparr> ws_in := k @ p @ rest \<rparr>)"
    by (simp add: recv_len_sent)
  have c: "recv_key ?h (s\<lparr> ws_in := k @ p @ rest \<rparr>) = Some (Got k, s\<lparr> ws_in := p @ rest \<rparr>)"
    using ws_read_prefix [of "s\<lparr> ws_in := key @ p @ rest \<rparr>" key "p @ rest" 4] assms(4)
    by (simp add: recv_key_def huint16_fields k_def)
  have n: "n < 2 ^ 31" "n > 0"
    using assms(1,2) by (simp_all add: n_def word_less_nat_alt)
  have "unat (ucast (ws_len data) :: u32) = n"
    using n(1) by (simp add: unsigned_ucast_eq take_bit_nat_eq_self n_def)
  moreover have "unat (ws_len data + 1) = n + 1"
    using n(1) by (subst unat_add_lem [THEN iffD1]) (simp_all add: n_def)
  moreover have "length p = n"
    using assms(3) by (simp add: p_def n_def)
  moreover have "\<not> ws_len data \<ge> 0x80000000"
    using assms(2) by simp
  ultimately have "recv_payload ?h (ws_len data) k d (s\<lparr> ws_in := p @ rest \<rparr>) = Some (int n,
      d\<lparr> ws_buf := take n (ws_buf data), ws_len := ws_len data \<rparr>, s\<lparr> ws_in := rest \<rparr>)"
    using assms(1) ws_read_prefix [of "s\<lparr> ws_in := p @ rest \<rparr>" p rest n]
    by (simp add: recv_payload_def huint16_fields Let_def p_def k_def)
  moreover have "(ucast (ucast ?h :: u64) :: u16) = ?h"
    by (rule bit_word_eqI) (auto simp: bit_simps)
  ultimately show ?thesis
    using a b c by (simp add: WebSocket_Recv_def n_def)
qed

text \<open>
  C40: what \<open>Send\<close> writes, \<open>Recv\<close> reads. For every buffer of 1 to 2^31 - 1 octets, masked or not, \<open>Send\<close>
  succeeds with four writes at most, and \<open>Recv\<close> on what was written returns the length and the same
  octets, and takes exactly the frame from the socket. The opcode is not handed on: a close or a
  ping looks like data.
\<close>

theorem websocket_round_trip:
  assumes "0 < ws_len data" and "ws_len data < 0x80000000" and "unat (ws_len data) \<le> length (ws_buf data)"
    and "length key = 4" and "4 \<le> ws_writes s" and "ws_out s = []"
  shows "\<exists>t. WebSocket_Send key data s = Some (0, t) \<and>
    WebSocket_Recv d (peer\<lparr> ws_in := concat (ws_out t) @ rest \<rparr>) =
      Some (int (unat (ws_len data)), d\<lparr> ws_buf := take (unat (ws_len data)) (ws_buf data), ws_len := ws_len data \<rparr>,
        peer\<lparr> ws_in := rest \<rparr>)"
  using WebSocket_Send_writes [OF assms(2,3,5), of key]
    WebSocket_Recv_frame [OF assms(1-4), of "peer\<lparr> ws_in := ws_frame key data @ rest \<rparr>" rest d] assms(6)
  by auto

theorem websocket_round_trip_witness:
  "\<exists>t. WebSocket_Send [1, 2, 3, 4] \<lparr> ws_buf = replicate 300 7, ws_len = 200, ws_opcode = 2, ws_mask = True \<rparr>
       \<lparr> ws_in = [], ws_silent = False, ws_ssl = False, ws_out = [], ws_writes = 4 \<rparr> = Some (0, t) \<and>
     WebSocket_Recv \<lparr> ws_buf = [], ws_len = 0, ws_opcode = 1, ws_mask = False \<rparr>
       (\<lparr> ws_in = [], ws_silent = False, ws_ssl = True, ws_out = [], ws_writes = 0 \<rparr>\<lparr> ws_in := concat (ws_out t) @ [9] \<rparr>) =
     Some (200, \<lparr> ws_buf = replicate 200 7, ws_len = 200, ws_opcode = 1, ws_mask = False \<rparr>,
       \<lparr> ws_in = [], ws_silent = False, ws_ssl = True, ws_out = [], ws_writes = 0 \<rparr>\<lparr> ws_in := [9] \<rparr>)"
  using websocket_round_trip [where data = "\<lparr> ws_buf = replicate 300 7, ws_len = 200, ws_opcode = 2, ws_mask = True \<rparr>"
      and key = "[1, 2, 3, 4]" and s = "\<lparr> ws_in = [], ws_silent = False, ws_ssl = False, ws_out = [], ws_writes = 4 \<rparr>"
      and d = "\<lparr> ws_buf = [], ws_len = 0, ws_opcode = 1, ws_mask = False \<rparr>"
      and peer = "\<lparr> ws_in = [], ws_silent = False, ws_ssl = True, ws_out = [], ws_writes = 0 \<rparr>" and rest = "[9]"]
  by simp

text \<open>
  the peer can write behind the buffer of \<open>Recv\<close>. For the length 2^64 - 1 the allocation of one octet more is
  one of no octets, and the first octet of the payload is stored outside it.
\<close>

theorem websocket_huge_length:
  assumes "ws_in s = b # 127 # replicate 8 255 @ x # rest"
  shows "WebSocket_Recv d s = None"
proof -
  define v where "v = be_read (0 :: u64) [b, 127]"
  define hdr where "hdr = (ucast v :: u16)"
  have "(127 :: byte) = mask 7"
    by (simp add: mask_numeral)
  then have hdr: "hdr = ucast (be_read (0 :: u64) [b, mask 7])"
    by (simp add: hdr_def v_def)
  have "take_bit 7 hdr = mask 7"
    by (rule bit_word_eqI) (auto simp: hdr bit_simps)
  then have h: "payload_len_7bit hdr = 127"
    by (simp add: payload_len_7bit_def mask_numeral)
  have m: "\<not> mask_bit hdr"
    by (simp add: mask_bit_def hdr bit_simps)
  have a: "read_number 2 s = Some (Got v, s\<lparr> ws_in := replicate 8 255 @ x # rest \<rparr>)"
    using ws_read_prefix [of s "[b, 127]" "replicate 8 255 @ x # rest" 2] assms by (simp add: read_number_def v_def)
  have "replicate 8 y = [y, y, y, y, y, y, y, y]" for y :: byte
    by (simp add: numeral_eq_Suc)
  then have "be_read (0 :: u64) (replicate 8 255) = - 1"
    by simp
  then have l: "recv_len hdr (s\<lparr> ws_in := replicate 8 255 @ x # rest \<rparr>) = Some (Got (- 1), s\<lparr> ws_in := x # rest \<rparr>)"
    using ws_read_prefix [of "s\<lparr> ws_in := replicate 8 255 @ x # rest \<rparr>" "replicate 8 255" "x # rest" 8] h
    by (simp add: recv_len_def read_number_def)
  have "(ucast (- 1 :: u64) :: u32) = - 1"
    by (rule bit_word_eqI) (simp add: bit_simps)
  moreover have "unat (- 1 :: u32) \<noteq> 0"
    unfolding unsigned_eq_0_iff by simp
  ultimately have "0 < unat (ucast (- 1 :: u64) :: u32)"
    by simp
  then have "recv_payload hdr (- 1) [] d (s\<lparr> ws_in := x # rest \<rparr>) = None"
    by (simp add: recv_payload_def word_gt_0 Let_def split: prod.split option.split)
  then show ?thesis
    using a l m by (simp add: WebSocket_Recv_def recv_key_def hdr_def [symmetric])
qed

theorem websocket_huge_length_witness:
  "WebSocket_Recv \<lparr> ws_buf = [], ws_len = 0, ws_opcode = 1, ws_mask = False \<rparr>
     \<lparr> ws_in = 0x82 # 127 # replicate 8 255 @ 65 # [], ws_silent = False, ws_ssl = True, ws_out = [], ws_writes = 0 \<rparr> = None"
  by (rule websocket_huge_length) simp

end
