(* ===== verification/Urlform.thy ===== *)
theory Urlform
  imports Prelude
begin

text \<open>
  URL encoding, query and form variables, cookies (heapapi.cpp; escape.cpp has the two coders once
  more). Texts are the octets in front of the terminating NUL; a coder that looks further than the
  NUL is undefined.
\<close>

subsection \<open>The coders\<close>

text \<open>The tables \<open>hex\<close> and \<open>val\<close>.\<close>

definition hex_digit :: "byte \<Rightarrow> byte" where
  "hex_digit n = (if n < 10 then n + 0x30 else n + 0x37)"

definition hex :: "byte \<Rightarrow> bytes" where
  "hex b = [hex_digit (b div 16), hex_digit (b mod 16)]"

definition hex_val :: "byte \<Rightarrow> byte" where
  "hex_val c =
     (if 0x30 \<le> c \<and> c \<le> 0x39 then c - 0x30
      else if 0x41 \<le> c \<and> c \<le> 0x46 then c - 0x37
      else if 0x61 \<le> c \<and> c \<le> 0x66 then c - 0x57
      else 0x3F)"

definition plain :: "byte \<Rightarrow> bool" where
  "plain c \<longleftrightarrow> 0x41 \<le> c \<and> c \<le> 0x5A \<or> 0x61 \<le> c \<and> c \<le> 0x7A \<or> 0x30 \<le> c \<and> c \<le> 0x39 \<or>
     c \<in> {0x2D, 0x5F, 0x2E, 0x21, 0x7E, 0x2A, 0x5C, 0x28, 0x29}"

text \<open>An octet from 128 on is encoded together with the next one, the NUL at the end included, in
  the order of a little-endian machine.\<close>

fun NIU_URLFORMAT_ENCODE :: "bytes \<Rightarrow> bytes" where
  "NIU_URLFORMAT_ENCODE [] = []"
| "NIU_URLFORMAT_ENCODE (c # cs) =
     (if c = 0x20 then 0x2B # NIU_URLFORMAT_ENCODE cs
      else if plain c then c # NIU_URLFORMAT_ENCODE cs
      else if c \<le> 0x7F then 0x25 # hex c @ NIU_URLFORMAT_ENCODE cs
      else 0x25 # 0x75 # (case cs of
          [] \<Rightarrow> hex 0 @ hex c
        | d # ds \<Rightarrow> hex d @ hex c @ NIU_URLFORMAT_ENCODE ds))"

definition nibbles :: "byte \<Rightarrow> byte \<Rightarrow> byte \<Rightarrow> byte" where
  "nibbles cint a b = push_bit 4 (push_bit 4 cint OR hex_val a) OR hex_val b"

text \<open>The text stands in memory with a NUL and the octets \<open>behind\<close> after it; the two or five octets
  after a percent sign are read wherever they lie.\<close>

fun NIU_URLFORMAT_DECODE :: "bytes \<Rightarrow> bytes \<Rightarrow> bytes outcome" where
  "NIU_URLFORMAT_DECODE behind [] = Some []"
| "NIU_URLFORMAT_DECODE behind (c # cs) =
     (if c = 0x2B then map_option ((#) 0x20) (NIU_URLFORMAT_DECODE behind cs)
      else if c = 0x25 then do {
        let m = cs @ 0 # behind;
        c1 \<leftarrow> rd m 0;
        if c1 \<noteq> 0x75 then do {
          c2 \<leftarrow> rd m 1;
          map_option ((#) (nibbles 0 c1 c2)) (NIU_URLFORMAT_DECODE behind (drop 2 cs))
        } else do {
          c4 \<leftarrow> rd m 3; c5 \<leftarrow> rd m 4;
          c2 \<leftarrow> rd m 1; c3 \<leftarrow> rd m 2;
          let first = nibbles 0 c4 c5;
          map_option (\<lambda>r. first # nibbles first c2 c3 # r) (NIU_URLFORMAT_DECODE behind (drop 5 cs))
        }
      } else map_option ((#) c) (NIU_URLFORMAT_DECODE behind cs))"

subsection \<open>The trimming of \<open>_strtrim_\<close>\<close>

text \<open>One round takes blanks, tabs, carriage returns and line feeds off in this order; a further
  round follows in front only if blanks were taken off, at the end if anything was.\<close>

definition front_round :: "bytes \<Rightarrow> bytes" where
  "front_round s = dropWhile ((=) 0x0A) (dropWhile ((=) 0x0D) (dropWhile ((=) 0x09) (dropWhile ((=) 0x20) s)))"

function trim_front :: "bytes \<Rightarrow> bytes" where
  "trim_front s =
     (if dropWhile ((=) 0x20) s \<noteq> [] \<and> dropWhile ((=) 0x20) s \<noteq> s then trim_front (front_round s) else front_round s)"
  by pat_completeness auto
termination
proof (relation "measure length", goal_cases)
  case (2 s)
  have "0 < length (takeWhile ((=) 0x20) s)"
    using 2 by (metis append_Nil takeWhile_dropWhile_id length_greater_0_conv)
  moreover have "length s = length (takeWhile ((=) 0x20) s) + length (dropWhile ((=) 0x20) s)"
    by (metis length_append takeWhile_dropWhile_id)
  moreover have "length (front_round s) \<le> length (dropWhile ((=) 0x20) s)"
    unfolding front_round_def by (meson length_dropWhile_le order.trans)
  ultimately show ?case
    by (simp del: length_greater_0_conv)
qed simp

definition end_of :: "byte \<Rightarrow> bytes \<Rightarrow> bytes" where
  "end_of c s = (if list_all ((=) c) s then s else rev (dropWhile ((=) c) (rev s)))"

definition back_round :: "bytes \<Rightarrow> bytes" where
  "back_round s = end_of 0x0A (end_of 0x0D (end_of 0x09 (end_of 0x20 s)))"

lemma end_of_shorter: "end_of c s = s \<or> length (end_of c s) < length s"
proof (cases "list_all ((=) c) s")
  case False
  obtain t where t: "rev s = t @ dropWhile ((=) c) (rev s)"
    by (metis takeWhile_dropWhile_id)
  then have "length s = length t + length (dropWhile ((=) c) (rev s))"
    by (metis length_append length_rev)
  moreover have "t = [] \<Longrightarrow> rev (dropWhile ((=) c) (rev s)) = s"
    using t by (simp add: rev_swap [symmetric])
  ultimately show ?thesis
    using False by (cases t) (simp_all add: end_of_def)
qed (simp add: end_of_def)

lemma back_round_shorter: "back_round s = s \<or> length (back_round s) < length s"
proof -
  define a b d where "a = end_of 0x20 s" and "b = end_of 0x09 a" and "d = end_of 0x0D b"
  have "a = s \<or> length a < length s" "b = a \<or> length b < length a" "d = b \<or> length d < length b"
    "end_of 0x0A d = d \<or> length (end_of 0x0A d) < length d"
    unfolding a_def b_def d_def by (rule end_of_shorter)+
  moreover have "back_round s = end_of 0x0A d"
    by (simp add: back_round_def a_def b_def d_def)
  ultimately show ?thesis
    by (auto intro: less_trans)
qed

function trim_back :: "bytes \<Rightarrow> bytes" where
  "trim_back s = (if back_round s \<noteq> s then trim_back (back_round s) else s)"
  by pat_completeness auto
termination
  by (relation "measure length") (use back_round_shorter in fastforce)+

declare trim_front.simps [simp del] trim_back.simps [simp del]

definition strtrim_field :: "bytes \<Rightarrow> bytes" where
  "strtrim_field s = trim_back (trim_front s)"

subsection \<open>Query and form variables\<close>

record vars_state =
  v_key :: bytes
  v_value :: bytes
  v_value2 :: bytes
  v_where :: bool
  v_map :: "bytes \<rightharpoonup> bytes"

text \<open>At a separator or the end; \<open>v_where\<close> is whether a value is being read. What the decoder
  produces is used as a C string no later than in the map.\<close>

definition close_var :: "vars_state \<Rightarrow> vars_state outcome" where
  "close_var st = (let key = strtrim_field (v_key st) in
     if key \<noteq> [] then do {
       value2 \<leftarrow> (if v_value st \<noteq> [] then NIU_URLFORMAT_DECODE [] (v_value st) else Some (v_value2 st));
       Some \<lparr> v_key = [], v_value = [], v_value2 = value2, v_where = False, v_map = (v_map st)(key \<mapsto> value2) \<rparr>
     } else Some (st\<lparr> v_key := key, v_where := False \<rparr>))"

definition char_var :: "byte \<Rightarrow> vars_state \<Rightarrow> vars_state" where
  "char_var c st =
     (if c = 0x3D then st\<lparr> v_where := True \<rparr>
      else if \<not> v_where st then st\<lparr> v_key := v_key st @ [c] \<rparr>
      else st\<lparr> v_value := v_value st @ [c] \<rparr>)"

fun vars_loop :: "bytes \<Rightarrow> vars_state \<Rightarrow> vars_state outcome" where
  "vars_loop [] st = close_var st"
| "vars_loop (c # cs) st =
     (if c = 0x26 then do { st \<leftarrow> close_var st; vars_loop cs st } else vars_loop cs (char_var c st))"

definition vars_start :: vars_state where
  "vars_start = \<lparr> v_key = [], v_value = [], v_value2 = [], v_where = False, v_map = Map.empty \<rparr>"

definition NIU_POST_GET_VARS :: "bytes \<Rightarrow> (bytes \<rightharpoonup> bytes) outcome" where
  "NIU_POST_GET_VARS data = map_option v_map (vars_loop data vars_start)"

text \<open>Cookies: the separator is a semicolon and values are taken as they are.\<close>

definition close_cookie :: "vars_state \<Rightarrow> vars_state" where
  "close_cookie st = (let key = strtrim_field (v_key st) in
     if key \<noteq> [] then st\<lparr> v_key := [], v_value := [], v_where := False, v_map := (v_map st)(key \<mapsto> v_value st) \<rparr>
     else st\<lparr> v_key := key, v_where := False \<rparr>)"

fun cookie_loop :: "bytes \<Rightarrow> vars_state \<Rightarrow> vars_state" where
  "cookie_loop [] st = close_cookie st"
| "cookie_loop (c # cs) st =
     (if c = 0x3B then cookie_loop cs (close_cookie st) else cookie_loop cs (char_var c st))"

definition NIU_COOKIE_VARS :: "bytes \<Rightarrow> (bytes \<rightharpoonup> bytes)" where
  "NIU_COOKIE_VARS data = v_map (cookie_loop data vars_start)"

subsection \<open>The coders are inverse\<close>

lemma byte_below:
  assumes "(n :: byte) < of_nat k" and "k \<le> 255"
  shows "n \<in> set (map of_nat [0..<k])"
proof -
  have "unat n < k"
    using assms by (simp add: word_less_nat_alt unat_of_nat)
  then show ?thesis
    by (auto intro!: image_eqI [where x = "unat n"])
qed

lemma nibbles_checked:
  assumes "list_all P (map of_nat [0..<16])" and "(n :: byte) < 16"
  shows "P n"
  using assms(1) byte_below [of n 16] assms(2) by (simp only: list_all_iff) auto

lemma hex_val_digit: "n < 16 \<Longrightarrow> hex_val (hex_digit n) = n"
  by (rule nibbles_checked [where P = "\<lambda>n. hex_val (hex_digit n) = n"]) code_simp

lemma hex_digit_cases: "n < 16 \<Longrightarrow> hex_digit n \<in> {0x30 .. 0x39} \<union> {0x41 .. 0x46}"
  by (rule nibbles_checked [where P = "\<lambda>n. hex_digit n \<in> {0x30 .. 0x39} \<union> {0x41 .. 0x46}"]) code_simp

lemma nibble_bounds: "(b :: byte) div 16 < 16" "(b :: byte) mod 16 < 16"
  by (simp_all add: word_less_nat_alt unat_div unat_mod) (use unsigned_less [of b, where 'a = nat] in simp)

lemma nibbles_hex: "hex b = [x, y] \<Longrightarrow> nibbles cint x y = b"
proof -
  assume "hex b = [x, y]"
  then have h: "hex_val x = drop_bit 4 b" "hex_val y = take_bit 4 b"
    using nibble_bounds [of b] by (auto simp: hex_def hex_val_digit drop_bit_eq_div take_bit_eq_mod)
  show ?thesis
    unfolding nibbles_def h by (rule bit_word_eqI) (auto simp: bit_simps)
qed

lemma hex_not: "c \<in> set (hex b) \<Longrightarrow> c \<in> {0x30 .. 0x39} \<union> {0x41 .. 0x46}"
  using nibble_bounds [of b] hex_digit_cases by (auto simp: hex_def)

lemma decode_hex: "NIU_URLFORMAT_DECODE behind (0x25 # hex c @ r) = map_option ((#) c) (NIU_URLFORMAT_DECODE behind r)"
proof -
  obtain x y where h: "hex c = [x, y]"
    by (simp add: hex_def)
  then have "x \<noteq> 0x75"
    using hex_not [of x c] by auto
  then show ?thesis
    using nibbles_hex [OF h] h by (simp add: rd_def Let_def)
qed

lemma decode_hex_pair:
  "NIU_URLFORMAT_DECODE behind (0x25 # 0x75 # hex d @ hex c @ r) = map_option (\<lambda>r. c # d # r) (NIU_URLFORMAT_DECODE behind r)"
proof -
  obtain x y x' y' where h: "hex c = [x, y]" "hex d = [x', y']"
    by (simp add: hex_def)
  show ?thesis
    using nibbles_hex [OF h(1)] nibbles_hex [OF h(2)] h by (simp add: rd_def Let_def)
qed

lemma plain_not: "plain c \<Longrightarrow> c \<noteq> 0x2B \<and> c \<noteq> 0x25 \<and> c \<noteq> 0x26 \<and> c \<noteq> 0x3D"
  by (auto simp: plain_def)

lemma plain_ascii: "plain c \<Longrightarrow> c \<le> 0x7F"
  by (auto simp: plain_def intro: order_trans)

text \<open>What an octet from 128 on without a partner leaves at the end.\<close>

fun nul_tail :: "bytes \<Rightarrow> bytes" where
  "nul_tail [] = []"
| "nul_tail (c # cs) = (if c \<le> 0x7F then nul_tail cs else case cs of [] \<Rightarrow> [0] | d # ds \<Rightarrow> nul_tail ds)"

text \<open>
  URL decoding undoes URL encoding. For every text \<open>
  C37: NIU_URLFORMAT_DECODE\<close> of what
  \<open>NIU_URLFORMAT_ENCODE\<close> writes is defined, it never looks behind the terminating NUL, and gives the text back, with
  one NUL behind it when the text ends with an octet from 128 on that has no partner to be encoded with.
\<close>

theorem url_round_trip: "NIU_URLFORMAT_DECODE behind (NIU_URLFORMAT_ENCODE s) = Some (s @ nul_tail s)"
proof (induction s rule: NIU_URLFORMAT_ENCODE.induct)
  case (2 c cs)
  have t: "NIU_URLFORMAT_DECODE behind (0x25 # 0x75 # hex 0 @ hex c) = Some [c, 0]"
    using decode_hex_pair [of behind 0 c "[]"] by simp
  consider "c = 0x20" | "c \<noteq> 0x20" "plain c" | "c \<noteq> 0x20" "\<not> plain c" "c \<le> 0x7F"
    | "c \<noteq> 0x20" "\<not> plain c" "\<not> c \<le> 0x7F"
    by blast
  then show ?case
  proof cases
    case 4
    then show ?thesis
      using 2(4) t by (cases cs) (auto simp: decode_hex_pair simp del: NIU_URLFORMAT_DECODE.simps(2))
  qed (use 2 plain_not [of c] plain_ascii [of c] in \<open>auto simp: decode_hex simp del: NIU_URLFORMAT_DECODE.simps(2)\<close>, auto)
qed simp

text \<open>A percent sign at the end makes the decoder read behind the terminating NUL.\<close>

lemma percent_at_end: "list_all plain s \<Longrightarrow> NIU_URLFORMAT_DECODE [] (s @ [0x25]) = None"
  by (induction s) (auto simp: rd_def dest: plain_not)

lemma decode_total: "length behind \<ge> 3 \<Longrightarrow> \<exists>r. NIU_URLFORMAT_DECODE behind s = Some r"
proof (induction behind s rule: NIU_URLFORMAT_DECODE.induct)
  case (2 behind c cs)
  have r: "\<exists>v. rd (cs @ 0 # behind) k = Some v" if "k < 4 \<or> cs \<noteq> [] \<and> k < 5" for k
    using that 2(5) by (cases cs) (auto simp: rd_def)
  consider "c = 0x2B" | "c = 0x25" "cs = []" | "c = 0x25" "cs \<noteq> []" | "c \<noteq> 0x2B" "c \<noteq> 0x25"
    by blast
  then show ?case
  proof cases
    case 2
    then show ?thesis
      using "2.prems" by (cases behind) (simp_all add: rd_def)
  next
    case 3
    obtain c1 c2 c3 c4 c5 where m: "rd (cs @ 0 # behind) 0 = Some c1" "rd (cs @ 0 # behind) 1 = Some c2"
        "rd (cs @ 0 # behind) 2 = Some c3" "rd (cs @ 0 # behind) 3 = Some c4" "rd (cs @ 0 # behind) 4 = Some c5"
      using r [of 0] r [of 1] r [of 2] r [of 3] r [of 4] 3(2) by auto
    show ?thesis
      using 2 3 m by (cases "c1 = 0x75") (auto simp: Let_def)
  qed (use 2 in auto)
qed simp

subsection \<open>Variables are found under their names\<close>

definition is_blank :: "byte \<Rightarrow> bool" where
  "is_blank c \<longleftrightarrow> c \<in> {0x20, 0x09, 0x0D, 0x0A}"

text \<open>A name that is left as it is, and a value without octets from 128 on.\<close>

definition name_ok :: "bytes \<Rightarrow> bool" where
  "name_ok k \<longleftrightarrow> k \<noteq> [] \<and> list_all (\<lambda>c. c \<noteq> 0x26 \<and> c \<noteq> 0x3D \<and> \<not> is_blank c) k"

definition value_ok :: "bytes \<Rightarrow> bool" where
  "value_ok v \<longleftrightarrow> list_all (\<lambda>c. c \<le> 0x7F) v"

lemma front_round_id: "list_all (\<lambda>c. \<not> is_blank c) k \<Longrightarrow> front_round k = k"
  by (cases k) (auto simp: front_round_def is_blank_def)

lemma end_of_id: "s = [] \<or> last s \<noteq> c \<Longrightarrow> end_of c s = s"
  by (cases s rule: rev_cases) (auto simp: end_of_def)

lemma back_round_id: "list_all (\<lambda>c. \<not> is_blank c) k \<Longrightarrow> back_round k = k"
  by (cases k rule: rev_cases) (auto simp: back_round_def end_of_id is_blank_def)

lemma strtrim_field_id: "list_all (\<lambda>c. \<not> is_blank c) k \<Longrightarrow> strtrim_field k = k"
proof -
  assume k: "list_all (\<lambda>c. \<not> is_blank c) k"
  then have "dropWhile ((=) 0x20) k = k"
    by (cases k) (auto simp: is_blank_def)
  then have "trim_front k = k"
    by (subst trim_front.simps) (simp add: front_round_id [OF k])
  then show ?thesis
    by (subst strtrim_field_def, subst trim_back.simps) (simp add: back_round_id [OF k])
qed

lemma strtrim_field_nil [simp]: "strtrim_field [] = []"
  by (rule strtrim_field_id) simp

lemma name_ok_trim: "name_ok k \<Longrightarrow> strtrim_field k = k \<and> k \<noteq> []"
  by (auto simp: name_ok_def list_all_iff intro!: strtrim_field_id)

lemma loop_name:
  "list_all (\<lambda>c. c \<noteq> 0x26 \<and> c \<noteq> 0x3D) k \<Longrightarrow> \<not> v_where st \<Longrightarrow>
     vars_loop (k @ r) st = vars_loop r (st\<lparr> v_key := v_key st @ k \<rparr>)"
  by (induction k arbitrary: st) (simp_all add: char_var_def)

lemma loop_value:
  "list_all (\<lambda>c. c \<noteq> 0x26 \<and> c \<noteq> 0x3D) v \<Longrightarrow> v_where st \<Longrightarrow>
     vars_loop (v @ r) st = vars_loop r (st\<lparr> v_value := v_value st @ v \<rparr>)"
  by (induction v arbitrary: st) (simp_all add: char_var_def)

lemma encode_no_separator: "list_all (\<lambda>c. c \<noteq> 0x26 \<and> c \<noteq> 0x3D) (NIU_URLFORMAT_ENCODE v)"
proof (induction v rule: NIU_URLFORMAT_ENCODE.induct)
  case (2 c cs)
  have "list_all (\<lambda>c. c \<noteq> 0x26 \<and> c \<noteq> 0x3D) (hex d)" for d
    using hex_not [of _ d] by (fastforce simp: list_all_iff)
  then show ?case
    using 2 plain_not [of c] by (auto split: list.split)
qed simp

lemma encode_empty: "NIU_URLFORMAT_ENCODE v = [] \<longleftrightarrow> v = []"
  by (cases v) auto

lemma decode_ok: "value_ok v \<Longrightarrow> NIU_URLFORMAT_DECODE behind (NIU_URLFORMAT_ENCODE v) = Some v"
proof (induction v)
  case (Cons c cs)
  then have "c \<le> 0x7F" "NIU_URLFORMAT_DECODE behind (NIU_URLFORMAT_ENCODE cs) = Some cs"
    by (simp_all add: value_ok_def)
  then show ?case
    using plain_not [of c] by (cases "c = 0x20"; cases "plain c") (simp_all add: decode_hex del: NIU_URLFORMAT_DECODE.simps(2), simp_all)
qed simp

fun query :: "(bytes \<times> bytes) list \<Rightarrow> bytes" where
  "query [] = []"
| "query [(k, v)] = k @ 0x3D # NIU_URLFORMAT_ENCODE v"
| "query ((k, v) # ps) = k @ 0x3D # NIU_URLFORMAT_ENCODE v @ 0x26 # query ps"

definition between :: "bytes \<Rightarrow> (bytes \<rightharpoonup> bytes) \<Rightarrow> vars_state" where
  "between value2 m = \<lparr> v_key = [], v_value = [], v_value2 = value2, v_where = False, v_map = m \<rparr>"

lemma loop_pair:
  assumes "name_ok k"
  shows "vars_loop (k @ 0x3D # NIU_URLFORMAT_ENCODE v @ r) (between w m) =
    vars_loop r \<lparr> v_key = k, v_value = NIU_URLFORMAT_ENCODE v, v_value2 = w, v_where = True, v_map = m \<rparr>"
proof -
  have "list_all (\<lambda>c. c \<noteq> 0x26 \<and> c \<noteq> 0x3D) k"
    using assms by (auto simp: name_ok_def list_all_iff)
  then show ?thesis
    by (simp add: loop_name loop_value [OF encode_no_separator] between_def char_var_def)
qed

lemma close_pair:
  assumes "name_ok k" and "value_ok v" and "v \<noteq> []"
  shows "close_var \<lparr> v_key = k, v_value = NIU_URLFORMAT_ENCODE v, v_value2 = w, v_where = True, v_map = m \<rparr> = Some (between v (m(k \<mapsto> v)))"
  using name_ok_trim [OF assms(1)] assms(3) by (simp add: close_var_def decode_ok [OF assms(2)] encode_empty between_def)

lemma loop_query:
  "list_all (\<lambda>(k, v). name_ok k \<and> value_ok v \<and> v \<noteq> []) ps \<Longrightarrow>
     map_option v_map (vars_loop (query ps) (between w m)) = Some (m ++ map_of (rev ps))"
proof (induction ps arbitrary: w m rule: query.induct)
  case 1
  then show ?case
    by (simp add: close_var_def between_def)
next
  case (2 k v)
  then show ?case
    using loop_pair [of k v "[]" w m]
    by (simp add: close_pair) (auto simp: between_def map_add_def fun_eq_iff)
next
  case (3 k v p ps)
  then show ?case
    using loop_pair [of k v "0x26 # query (p # ps)" w m]
    by (simp add: close_pair)
qed

text \<open>
  the variables of a query are found under their names. A query built from names without separators and blanks and
  from encoded, not empty ASCII values is taken apart into exactly these variables; of several
  with one name the last one counts.
\<close>

theorem query_variables:
  assumes "list_all (\<lambda>(k, v). name_ok k \<and> value_ok v \<and> v \<noteq> []) ps"
  shows "NIU_POST_GET_VARS (query ps) = Some (map_of (rev ps))"
  using loop_query [OF assms, of "[]" Map.empty] by (simp add: NIU_POST_GET_VARS_def vars_start_def between_def)

theorem query_variables_witness:
  "NIU_POST_GET_VARS (query [([0x61], [0x31, 0x26]), ([0x62], [0x20, 0x3D]), ([0x61], [0x32])]) =
    Some (map_of (rev [([0x61], [0x31, 0x26]), ([0x62], [0x20, 0x3D]), ([0x61], [0x32])]))"
  by (rule query_variables) (simp add: name_ok_def value_ok_def is_blank_def)

text \<open>
  an empty variable gets the value of the one before it. The decoded value is kept in a variable outside the
  loop that is only written for values that are not empty.
\<close>

theorem empty_value_stale:
  assumes "name_ok a" and "value_ok v" and "v \<noteq> []" and "name_ok b"
  shows "NIU_POST_GET_VARS (query [(a, v), (b, [])]) = Some [a \<mapsto> v, b \<mapsto> v]"
proof -
  have "close_var \<lparr> v_key = b, v_value = [], v_value2 = v, v_where = True, v_map = m \<rparr> = Some (between v (m(b \<mapsto> v)))" for m
    using name_ok_trim [OF assms(4)] by (simp add: close_var_def between_def)
  then have "vars_loop (b @ 0x3D # NIU_URLFORMAT_ENCODE []) (between v m) = Some (between v (m(b \<mapsto> v)))" for m
    using loop_pair [OF assms(4), of "[]" "[]" v m] by simp
  moreover have "vars_loop (query [(a, v), (b, [])]) vars_start = vars_loop (b @ 0x3D # NIU_URLFORMAT_ENCODE []) (between v [a \<mapsto> v])"
    using loop_pair [OF assms(1), of v "0x26 # b @ [0x3D]" "[]" Map.empty] close_pair [OF assms(1-3)]
    by (simp add: vars_start_def between_def)
  ultimately show ?thesis
    by (simp add: NIU_POST_GET_VARS_def between_def)
qed

theorem empty_value_stale_witness:
  "NIU_POST_GET_VARS (query [([0x61], [0x31]), ([0x62], [])]) = Some [[0x61] \<mapsto> [0x31], [0x62] \<mapsto> [0x31]]"
  by (rule empty_value_stale) (simp_all add: name_ok_def value_ok_def is_blank_def)

end
