(* ===== verification/Http1parse.thy ===== *)
theory Http1parse
  imports Http2send Strutil Urlform
begin

text \<open>
  The request parser of the HTTP/1.1 engine (http.h, http.cpp, httpcomm.cpp): \<open>LineParse\<close> takes
  text in any pieces and handles it line by line, \<open>ParseMethod\<close> the request line,
  \<open>PushPostData\<close> a piece of the body. Parameters are what the server is configured with
  (\<open>http_env\<close>): the check of credentials (\<open>WWW_Auth\<close>, which asks the user database), the
  functions the reverse proxy extensions export; and what follows the end of the header
  (\<open>DataParse\<close>; the asynchronous build only returns).
\<close>

subsection \<open>State\<close>

datatype WebSocket_HandShake = Websocket_None | Websocket_Sync | Websocket_Ack | Websocket_Nak

datatype Post_Content_Type = application_x_www_form_urlencoded | multipart_form_data

datatype HTTPTunneling =
  HTTP_Tunneling_None | HTTP_Tunneling_Without_CONNECT | HTTP_Tunneling_Without_CONNECT_SSL | HTTP_Tunneling_With_CONNECT

text \<open>The states in their order; those of the enumeration that are the same number are one constructor.\<close>

datatype Http_State =
    httpReqHeader
  | httpReqData
  | httpAuthentication
  | httpResponse
  | httpResponding
  | httpRespondingExtensionComplete1
  | httpRespondingExtensionComplete2
  | httpRespondingDocComplete
  | httpResponseComplete
  | httpTunnling
  | httpTunnlingRelaying
  | httpTunnlingComplete
  | httpComplete

record CHttp =
  m_line_text :: string
  m_header_content :: string
  m_http_method :: Http_Method
  m_request_hdr :: "string \<rightharpoonup> string"
  m_cgi :: "string \<rightharpoonup> string"
  m_keep_alive :: bool
  m_protocol_upgrade :: bool
  m_upgrade_protocol :: string
  m_web_socket_handshake :: WebSocket_HandShake
  m_content_length :: int
  m_content_type :: Post_Content_Type
  m_boundary :: string
  m_cookie :: string
  m_host_addr :: string
  m_host_port :: u16
  m_username :: string
  m_passed_wwwauth :: bool
  m_passed_proxyauth :: bool
  m_request_no_cache :: bool
  m_http_state :: Http_State
  m_postdata :: string
  m_postdata_ex :: "bytes option"
  m_resource :: string
  m_querystring :: string
  m_uri :: string
  m_http_tunneling_connection :: HTTPTunneling
  m_http_tunneling_backend_address :: string
  m_http_tunneling_backend_port :: u16
  m_http_tunneling_url :: string
  m_http_tunneling_backend_address_backup1 :: string
  m_http_tunneling_backend_port_backup1 :: u16
  m_http_tunneling_url_backup1 :: string
  m_http_tunneling_backend_address_backup2 :: string
  m_http_tunneling_backend_port_backup2 :: u16
  m_http_tunneling_url_backup2 :: string

text \<open>Who is let in: for the scheme (Basic or Digest), the credentials and the method, whether they
  are good, the user and the rest \<open>WWW_Auth\<close> reports.\<close>

datatype AUTH_SCHEME = asNone | asBasic | asDigest

type_synonym www_auth = "AUTH_SCHEME \<Rightarrow> string \<Rightarrow> Http_Method \<Rightarrow> bool \<times> string \<times> string"

text \<open>
  The configuration. An extension is the function \<open>reverse_delivery\<close> of its library (\<open>None\<close> when
  there is none): for a request line, the new line and whether the rest is skipped.
\<close>

record http_env =
  WWW_Auth :: www_auth
  m_enable_http_reverse_proxy :: bool
  m_reverse_ext_list :: "(string \<Rightarrow> string \<times> int) option list"

definition SetMeta :: "string \<Rightarrow> string \<Rightarrow> CHttp \<Rightarrow> CHttp" where
  "SetMeta varname varvalue c = c\<lparr> m_cgi := (m_cgi c)(cstr varname \<mapsto> cstr varvalue) \<rparr>"

definition SetField :: "string \<Rightarrow> string \<Rightarrow> CHttp \<Rightarrow> CHttp" where
  "SetField label v c = c\<lparr> m_request_hdr := (m_request_hdr c)(cstr label \<mapsto> cstr v) \<rparr>"

definition GetRequestField :: "CHttp \<Rightarrow> string \<Rightarrow> string" where
  "GetRequestField c label = (case m_request_hdr c label of None \<Rightarrow> [] | Some v \<Rightarrow> v)"

definition decimal :: "u16 \<Rightarrow> string" where
  "decimal w = (let n = unat w; d = (\<lambda>k. char_of (48 + n div k mod 10))
     in (if n \<ge> 10000 then [d 10000] else []) @ (if n \<ge> 1000 then [d 1000] else []) @
        (if n \<ge> 100 then [d 100] else []) @ (if n \<ge> 10 then [d 10] else []) @ [d 1])"

text \<open>The CGI variables there are from the start.\<close>

definition initial_meta :: "string \<rightharpoonup> string" where
  "initial_meta = map_of
     [(''AUTH_TYPE'', []), (''CONTENT_LENGTH'', []), (''CONTENT_TYPE'', []), (''GATEWAY_INTERFA'', ''CGI/1.1''), (''PATH_INFO'', []),
      (''PATH_TRANSLATED'', []), (''QUERY_STRING'', []), (''REMOTE_ADDR'', []), (''REMOTE_HOST'', []), (''REMOTE_IDENT'', []),
      (''REMOTE_USER'', []), (''REQUEST_METHOD'', []), (''SCRIPT_NAME'', []), (''SERVER_NAME'', []), (''SERVER_PORT'', []),
      (''SERVER_PROTOCOL'', ''HTTP/1.1''), (''SERVER_SOFTWARE'', ''Heaphttpd/1.1'')]"

text \<open>A new object: whether connections are kept alive, the names of the server and the client. Members the
  constructor does not set are 0.\<close>

definition new_CHttp :: "bool \<Rightarrow> string \<Rightarrow> u16 \<Rightarrow> string \<Rightarrow> CHttp" where
  "new_CHttp keep_alive servername serverport clientip =
     SetMeta ''REMOTE_ADDR'' clientip (SetMeta ''SERVER_PORT'' (decimal serverport) (SetMeta ''SERVER_NAME'' servername
       \<lparr> m_line_text = [], m_header_content = [], m_http_method = hmGet, m_request_hdr = Map.empty, m_cgi = initial_meta,
         m_keep_alive = keep_alive, m_protocol_upgrade = False, m_upgrade_protocol = [],
         m_web_socket_handshake = Websocket_None, m_content_length = 0,
         m_content_type = application_x_www_form_urlencoded, m_boundary = [], m_cookie = [], m_host_addr = [], m_host_port = 0,
         m_username = [], m_passed_wwwauth = False, m_passed_proxyauth = False, m_request_no_cache = False,
         m_http_state = httpReqHeader, m_postdata = [], m_postdata_ex = None, m_resource = [], m_querystring = [], m_uri = [],
         m_http_tunneling_connection = HTTP_Tunneling_None, m_http_tunneling_backend_address = [],
         m_http_tunneling_backend_port = 0, m_http_tunneling_url = [], m_http_tunneling_backend_address_backup1 = [],
         m_http_tunneling_backend_port_backup1 = 0, m_http_tunneling_url_backup1 = [],
         m_http_tunneling_backend_address_backup2 = [], m_http_tunneling_backend_port_backup2 = 0,
         m_http_tunneling_url_backup2 = [] \<rparr>))"

subsection \<open>The request line\<close>

definition atoi16 :: "string \<Rightarrow> u16" where
  "atoi16 s = word_of_int (atoi s)"

text \<open>\<open>host[:port]\<close> of a tunnelled request.\<close>

definition host_and_port :: "string \<Rightarrow> u16 \<Rightarrow> string \<times> u16" where
  "host_and_port host default_port =
     (case find_sub '':'' host of
        Some p \<Rightarrow> (strtrim (take p host), atoi16 (drop (p + 1) host))
      | None \<Rightarrow> (strtrim host, default_port))"

definition set_backend :: "string \<Rightarrow> u16 \<Rightarrow> CHttp \<Rightarrow> CHttp" where
  "set_backend host default_port c =
     (let (address, port) = host_and_port host default_port
      in c\<lparr> m_http_tunneling_backend_address := address, m_http_tunneling_backend_port := port \<rparr>)"

definition set_backup1 :: "string \<Rightarrow> CHttp \<Rightarrow> CHttp" where
  "set_backup1 host c =
     (let (address, port) = host_and_port host 80
      in c\<lparr> m_http_tunneling_backend_address_backup1 := address, m_http_tunneling_backend_port_backup1 := port \<rparr>)"

definition set_backup2 :: "string \<Rightarrow> CHttp \<Rightarrow> CHttp" where
  "set_backup2 host c =
     (let (address, port) = host_and_port host 80
      in c\<lparr> m_http_tunneling_backend_address_backup2 := address, m_http_tunneling_backend_port_backup2 := port \<rparr>)"

text \<open>The extensions rewrite the request line one after the other until one says stop.\<close>

fun reverse_delivery :: "(string \<Rightarrow> string \<times> int) option list \<Rightarrow> string \<Rightarrow> string" where
  "reverse_delivery [] strtext = strtext"
| "reverse_delivery (None # exts) strtext = reverse_delivery exts strtext"
| "reverse_delivery (Some f # exts) strtext =
     (let (new_method_url, skip) = f (cstr strtext)
      in if skip \<noteq> 0 then cstr new_method_url else reverse_delivery exts (cstr new_method_url))"

text \<open>The buffers are as long as the line before the extensions saw it; more is written past their end.\<close>

definition fits :: "nat \<Rightarrow> string \<Rightarrow> string outcome" where
  "fits buf_len s = (if length s \<le> buf_len then Some s else None)"

definition proxy_url :: "string \<Rightarrow> string \<Rightarrow> u16 \<Rightarrow> string \<Rightarrow> string" where
  "proxy_url p_temp address port rel =
     (if p_temp ! 4 = CHR ''s'' then ''https://'' else ''http://'') @ address @ '':'' @ decimal port @ rel"

definition till_host_end :: "string \<Rightarrow> string" where
  "till_host_end = takeWhile (\<lambda>c. c \<noteq> CHR ''/'' \<and> c \<noteq> CHR ''|'')"

text \<open>
  The reverse proxy: a host and up to two more to fall back on, with bars between them, then the
  path all of them are asked for.
\<close>

definition reverse_hosts :: "nat \<Rightarrow> string \<Rightarrow> CHttp \<Rightarrow> (string \<times> CHttp) outcome" where
  "reverse_hosts buf_len p c = do {
     host \<leftarrow> fits buf_len (till_host_end p);
     let c = set_backend host 80 c;
     let rest = drop (length host) p;
     rel \<leftarrow> fits buf_len rest;
     (case rest of b # p \<Rightarrow> if b \<noteq> CHR ''|'' then Some (rel, c) else do {
        host \<leftarrow> fits buf_len (till_host_end p);
        let c = set_backup1 host c;
        let rest = drop (length host) p;
        rel \<leftarrow> fits buf_len rest;
        (case rest of b # p \<Rightarrow> if b \<noteq> CHR ''|'' then Some (rel, c) else do {
           host \<leftarrow> fits buf_len (till_host_end p);
           let c = set_backup2 host c;
           rel \<leftarrow> fits buf_len (drop (length host) p);
           Some (rel, c)
         } | [] \<Rightarrow> Some (rel, c))
      } | [] \<Rightarrow> Some (rel, c))
   }"

definition reverse_urls :: "string \<Rightarrow> string \<Rightarrow> CHttp \<Rightarrow> CHttp" where
  "reverse_urls p_temp rel c =
     (let c = c\<lparr> m_http_tunneling_url := proxy_url p_temp (m_http_tunneling_backend_address c) (m_http_tunneling_backend_port c) rel \<rparr>;
          c = (if m_http_tunneling_backend_address_backup1 c \<noteq> [] then
                 c\<lparr> m_http_tunneling_url_backup1 :=
                     proxy_url p_temp (m_http_tunneling_backend_address_backup1 c) (m_http_tunneling_backend_port_backup1 c) rel \<rparr> else c)
      in if m_http_tunneling_backend_address_backup2 c \<noteq> [] then
           c\<lparr> m_http_tunneling_url_backup2 :=
               proxy_url p_temp (m_http_tunneling_backend_address_backup2 c) (m_http_tunneling_backend_port_backup2 c) rel \<rparr> else c)"

definition sp_tab_crlf :: "char set" where
  "sp_tab_crlf = {CHR '' '', CHR 0x09, CHR 0x0D, CHR 0x0A}"

text \<open>
  \<open>sscanf\<close> with \<open>%*[^/]%[^? \t\r\n]?%[^ \t\r\n]\<close>: the part up to the first slash must not be
  empty; then the resource, and behind a question mark the query.
\<close>

definition scan_resource :: "string \<Rightarrow> string \<times> string" where
  "scan_resource s =
     (let before = takeWhile (\<lambda>c. c \<noteq> CHR ''/'') s; rest = dropWhile (\<lambda>c. c \<noteq> CHR ''/'') s;
          resource = takeWhile (\<lambda>c. c \<noteq> CHR ''?'' \<and> c \<notin> sp_tab_crlf) rest;
          behind = dropWhile (\<lambda>c. c \<noteq> CHR ''?'' \<and> c \<notin> sp_tab_crlf) rest
      in if before = [] \<or> rest = [] then ([], [])
         else (resource, case behind of [] \<Rightarrow> [] | c # q \<Rightarrow> if c = CHR ''?'' then takeWhile (\<lambda>c. c \<notin> sp_tab_crlf) q else []))"

definition till_space :: "string \<Rightarrow> string" where
  "till_space = takeWhile (\<lambda>c. c \<noteq> CHR '' '')"

text \<open>A request through the proxy, \<open>http://host:port/path\<close>: what is left is the method and the path.\<close>

definition absolute_url :: "http_env \<Rightarrow> nat \<Rightarrow> string \<Rightarrow> string \<Rightarrow> CHttp \<Rightarrow> (string \<times> CHttp) outcome" where
  "absolute_url env buf_len sz_method p_temp c =
     (let c = c\<lparr> m_http_tunneling_connection :=
                (if p_temp ! 4 = CHR ''s'' then HTTP_Tunneling_Without_CONNECT_SSL else HTTP_Tunneling_Without_CONNECT) \<rparr>
      in if m_enable_http_reverse_proxy env then do {
           _ \<leftarrow> fits buf_len (till_space p_temp);
           (rel, c) \<leftarrow> reverse_hosts buf_len (drop 7 p_temp) c;
           Some (sz_method @ rel, reverse_urls p_temp rel c)
         }
         else
           let sz_host = takeWhile (\<lambda>c. c \<noteq> CHR ''/'') (drop 7 p_temp);
               rel = drop (7 + length sz_host) p_temp
           in Some (sz_method @ rel, set_backend sz_host 80 (c\<lparr> m_http_tunneling_url := strtrim (till_space p_temp) \<rparr>)))"

text \<open>A path on this server: the resource is decoded, the query kept. The buffer was all zeros before.\<close>

definition local_path :: "nat \<Rightarrow> string \<Rightarrow> CHttp \<Rightarrow> CHttp outcome" where
  "local_path buf_len strtext c = do {
     let (sz_resource, sz_querystring) = scan_resource strtext;
     sz_resource \<leftarrow> fits buf_len sz_resource;
     sz_querystring \<leftarrow> fits buf_len sz_querystring;
     resource \<leftarrow> NIU_URLFORMAT_DECODE (replicate (buf_len - length sz_resource) 0) (to_bytes sz_resource);
     let uri = of_bytes resource @ (if sz_querystring \<noteq> [] then ''?'' @ sz_querystring else []);
     Some (SetMeta ''QUERY_STRING'' sz_querystring (SetMeta ''REQUEST_URI'' uri
       (c\<lparr> m_resource := of_bytes resource, m_querystring := sz_querystring, m_uri := uri \<rparr>)))
   }"

definition method_part :: "string \<Rightarrow> string" where
  "method_part = takeWhile (\<lambda>c. CHR ''A'' \<le> c \<and> c \<le> CHR ''Z'' \<or> c = CHR '' '' \<or> c = CHR 0x09)"

definition ParseMethod :: "http_env \<Rightarrow> string \<Rightarrow> CHttp \<Rightarrow> (string \<times> CHttp) outcome" where
  "ParseMethod env strtext c =
     (let buf_len = length strtext; sz_method = method_part (cstr strtext)
      in if strncaseeq sz_method ''CONNECT '' 8 then
           Some (strtext, set_backend (till_space (drop (length sz_method) (cstr strtext))) 443
             (c\<lparr> m_http_tunneling_connection := HTTP_Tunneling_With_CONNECT \<rparr>))
         else
           let strtext = (if m_enable_http_reverse_proxy env then reverse_delivery (m_reverse_ext_list env) strtext else strtext);
               p_temp = drop (length sz_method) (cstr strtext)
           in if length (cstr strtext) < length sz_method then None
              else if strncaseeq p_temp ''http://'' 7 \<or> strncaseeq p_temp ''https://'' 8
              then absolute_url env buf_len sz_method p_temp c
              else map_option (Pair strtext) (local_path buf_len (cstr strtext) c))"

subsection \<open>Header lines\<close>

definition HICH :: "char \<Rightarrow> char" where
  "HICH c = UPCH c"

text \<open>The first letter of each part of the name is raised, up to the colon or a blank.\<close>

fun capitalise :: "bool \<Rightarrow> string \<Rightarrow> string" where
  "capitalise High [] = []"
| "capitalise High (c # cs) =
     (let c = (if High then HICH c else c)
      in if c = CHR '':'' \<or> c = CHR '' '' then c # cs else c # capitalise (c = CHR ''-'') cs)"

text \<open>Every field goes into the map of the request and, as \<open>HTTP_NAME\<close>, to the CGI variables.\<close>

definition store_field :: "string \<Rightarrow> CHttp \<Rightarrow> CHttp" where
  "store_field strtext c =
     (let label = strtrim (strcut strtext None (Some '':''))
      in if label \<noteq> [] then
           let v = strtrim (strcut strtext (Some '':'') None)
           in SetMeta (strtoupper (map (\<lambda>c. if c = CHR ''-'' then CHR ''_'' else c) (''HTTP_'' @ label))) v (SetField label v c)
         else c)"

definition strcasestr :: "string \<Rightarrow> string \<Rightarrow> bool" where
  "strcasestr s f = (find_sub (map LOCH f) (map LOCH s) \<noteq> None)"

definition connection_field :: "string \<Rightarrow> CHttp \<Rightarrow> CHttp" where
  "connection_field strtext c =
     (let strConnection = strtrim (strcut strtext (Some ''Connection:'') None);
          c = (if strcasestr strConnection ''Close'' then c\<lparr> m_keep_alive := False \<rparr>
               else if strcasestr strConnection ''Keep-Alive'' then c\<lparr> m_keep_alive := True \<rparr> else c)
      in if strcasestr strConnection ''Upgrade'' then
           c\<lparr> m_protocol_upgrade := True, m_web_socket_handshake :=
             (if m_upgrade_protocol c \<noteq> [] \<and> strcaseeq (m_upgrade_protocol c) ''websocket'' then Websocket_Sync
              else m_web_socket_handshake c) \<rparr>
         else c)"

definition upgrade_field :: "string \<Rightarrow> CHttp \<Rightarrow> CHttp" where
  "upgrade_field strtext c =
     (if m_protocol_upgrade c then
        let protocol = strtrim (strcut strtext (Some ''Upgrade:'') None)
        in c\<lparr> m_upgrade_protocol := protocol, m_web_socket_handshake :=
             (if strcaseeq protocol ''websocket'' then Websocket_Sync else m_web_socket_handshake c) \<rparr>
      else c)"

text \<open>\<open>atoll\<close> saturates at the bounds of \<open>long long\<close>.\<close>

definition atoll :: "string \<Rightarrow> int" where
  "atoll s = max (- (2 ^ 63)) (min (2 ^ 63 - 1) (atoi s))"

definition length_field :: "string \<Rightarrow> CHttp \<Rightarrow> CHttp" where
  "length_field strtext c =
     (let strLen = strtrim (strcut strtext (Some ''Content-Length:'') None)
      in c\<lparr> m_content_length := (if m_http_method c = hmHead then 0 else atoll strLen) \<rparr>)"

definition type_field :: "string \<Rightarrow> CHttp \<Rightarrow> CHttp" where
  "type_field strtext c =
     (let c = SetMeta ''CONTENT_TYPE'' (strtrim (strcut strtext (Some ''Content-Type:'') None)) c
      in if find_sub ''application/x-www-form-urlencoded'' strtext \<noteq> None
         then c\<lparr> m_content_type := application_x_www_form_urlencoded \<rparr>
         else if find_sub ''multipart/form-data'' strtext \<noteq> None
         then c\<lparr> m_content_type := multipart_form_data, m_boundary := strtrim (strcut strtext (Some ''boundary='') None) \<rparr>
         else c\<lparr> m_content_type := application_x_www_form_urlencoded \<rparr>)"

definition host_field :: "string \<Rightarrow> CHttp \<Rightarrow> CHttp" where
  "host_field strtext c =
     (let host_port = strcut (strcut strtext (Some ''Host: '') None) None (Some '':'')
      in c\<lparr> m_host_addr := host_port, m_host_port := atoi16 (strcut host_port (Some '':'') None) \<rparr>)"

definition basic_auth :: "www_auth \<Rightarrow> string \<Rightarrow> CHttp \<Rightarrow> CHttp" where
  "basic_auth auth strtext c =
     (let (ok, user, pwd) = auth asBasic (strcut strtext (Some ''Authorization: Basic '') None) (m_http_method c);
          c = SetMeta ''AUTH_TYPE'' ''Basic'' c\<lparr> m_username := user \<rparr>;
          c = (if ok then SetMeta ''REMOTE_USER'' user (c\<lparr> m_passed_wwwauth := True \<rparr>) else c)
      in SetMeta ''PHP_AUTH_UPW'' pwd (SetMeta ''PHP_AUTH_USER'' user c))"

definition digest_auth :: "www_auth \<Rightarrow> string \<Rightarrow> CHttp \<Rightarrow> CHttp" where
  "digest_auth auth strtext c =
     (let (ok, user, digest) = auth asDigest (strcut strtext (Some ''Authorization: Digest '') None) (m_http_method c);
          c = SetMeta ''AUTH_TYPE'' ''Digest'' c\<lparr> m_username := user \<rparr>;
          c = (if ok then SetMeta ''REMOTE_USER'' user (c\<lparr> m_passed_wwwauth := True \<rparr>) else c)
      in SetMeta ''PHP_AUTH_DIGEST'' digest c)"

definition proxy_auth :: "www_auth \<Rightarrow> AUTH_SCHEME \<Rightarrow> string \<Rightarrow> string \<Rightarrow> CHttp \<Rightarrow> CHttp" where
  "proxy_auth auth scheme mark strtext c =
     (let (ok, user, _) = auth scheme (strcut strtext (Some mark) None) (m_http_method c)
      in c\<lparr> m_username := user, m_passed_proxyauth := (if ok then True else m_passed_proxyauth c) \<rparr>)"

definition cache_field :: "string \<Rightarrow> string list \<Rightarrow> string \<Rightarrow> CHttp \<Rightarrow> CHttp" where
  "cache_field label values strtext c =
     (let strcache = strtrim (strcut strtext (Some label) None)
      in if list_ex (strcaseeq strcache) values then c\<lparr> m_request_no_cache := True \<rparr> else c)"

text \<open>The fields with a meaning of their own, in the order of the tests.\<close>

definition special_field :: "http_env \<Rightarrow> string \<Rightarrow> CHttp \<Rightarrow> CHttp" where
  "special_field env strtext c =
     (if strncaseeq strtext ''Connection:'' 11 then connection_field strtext c
      else if strncaseeq strtext ''Upgrade:'' 8 then upgrade_field strtext c
      else if strncaseeq strtext ''Content-Length:'' 15 then length_field strtext c
      else if strncaseeq strtext ''Content-Type:'' 13 then type_field strtext c
      else if strncaseeq strtext ''Cookie:'' 7 then
        c\<lparr> m_cookie := m_cookie c @ strtrim (strcut strtext (Some ''Cookie:'') None) @ ''; '' \<rparr>
      else if strncaseeq strtext ''Host:'' 5 then host_field strtext c
      else if strncaseeq strtext ''Authorization: Basic'' 20 then basic_auth (WWW_Auth env) strtext c
      else if strncaseeq strtext ''Authorization: Digest'' 21 then digest_auth (WWW_Auth env) strtext c
      else if strncaseeq strtext ''Proxy-Authorization: Basic'' 26 then
        proxy_auth (WWW_Auth env) asBasic ''Proxy-Authorization: Basic '' strtext c
      else if strncaseeq strtext ''Proxy-Authorization: Digest'' 27 then
        proxy_auth (WWW_Auth env) asDigest ''Proxy-Authorization: Digest '' strtext c
      else if strncaseeq strtext ''Cache-Control:'' 14 then cache_field ''Cache-Control:'' [''no-cache'', ''no-store''] strtext c
      else if strncaseeq strtext ''Pragma:'' 7 then cache_field ''Pragma:'' [''no-cache''] strtext c
      else c)"

definition add_header_content :: "string \<Rightarrow> CHttp \<Rightarrow> CHttp" where
  "add_header_content strtext c = c\<lparr> m_header_content := m_header_content c @ strtext @ CRLF \<rparr>"

definition header_field :: "http_env \<Rightarrow> string \<Rightarrow> CHttp \<Rightarrow> CHttp" where
  "header_field env strtext c =
     (let c = (if \<not> strncaseeq strtext ''Proxy-Authorization:'' 20 then add_header_content strtext c else c)
      in special_field env strtext (store_field strtext c))"

subsection \<open>\<open>LineParse\<close>\<close>

definition methods :: "(string \<times> Http_Method) list" where
  "methods = [(''GET '', hmGet), (''POST '', hmPost), (''PUT '', hmPut), (''HEAD '', hmHead), (''DELETE '', hmDelete),
     (''OPTIONS '', hmOptions), (''TRACE '', hmTrace), (''CONNECT '', hmConnect)]"

definition request_method :: "string \<Rightarrow> (string \<times> Http_Method) option" where
  "request_method strtext = List.find (\<lambda>(word, _). strncaseeq strtext word (length word)) methods"

definition request_start :: "http_env \<Rightarrow> string \<Rightarrow> string \<Rightarrow> Http_Method \<Rightarrow> CHttp \<Rightarrow> CHttp outcome" where
  "request_start env strtext word method c = do {
     let c = (SetMeta ''REQUEST_METHOD'' (butlast word) c)\<lparr> m_http_method := method \<rparr>;
     (strtext, c) \<leftarrow> ParseMethod env strtext c;
     Some (add_header_content strtext c)
   }"

lemma find_if_length: "find_if P s = Some k \<Longrightarrow> k < length s"
  by (induction s arbitrary: k) (auto split: if_splits)

text \<open>One line, without its line feed and trimmed; an empty one ends the header.\<close>

datatype 'c line_result = Line_done 'c | Header_done 'c

definition header_line :: "http_env \<Rightarrow> string \<Rightarrow> CHttp \<Rightarrow> CHttp line_result outcome" where
  "header_line env line c =
     (let strtext = capitalise True (strtrim line)
      in case request_method strtext of
           Some (word, method) \<Rightarrow> map_option Line_done (request_start env strtext word method c)
         | None \<Rightarrow>
             if cstr strtext = [] then Some (Header_done (c\<lparr> m_header_content := m_header_content c @ CRLF, m_http_state := httpReqData \<rparr>))
             else Some (Line_done (header_field env strtext c)))"

text \<open>The loop over the text that has come so far; the rest without a line feed is kept. What
  \<open>DataParse\<close> does at the end of the header is \<open>dp\<close>.\<close>

function line_loop :: "http_env \<Rightarrow> (CHttp \<Rightarrow> 'r \<times> CHttp) \<Rightarrow> 'r \<Rightarrow> string \<Rightarrow> CHttp \<Rightarrow> ('r \<times> CHttp) outcome" where
  "line_loop env dp go text c =
     (case find_if (\<lambda>x. x = CHR 0x0A) text of
        None \<Rightarrow> Some (go, c\<lparr> m_line_text := text \<rparr>)
      | Some new_line \<Rightarrow>
          (case header_line env (take (Suc new_line) text) c of
             None \<Rightarrow> None
           | Some (Header_done c) \<Rightarrow> Some (dp (c\<lparr> m_line_text := drop (Suc new_line) text \<rparr>))
           | Some (Line_done c) \<Rightarrow> line_loop env dp go (drop (Suc new_line) text) c))"
  by pat_completeness auto
termination
  by (relation "measure (\<lambda>(env, dp, go, text, c). length text)")
    (auto dest!: find_if_length)

declare line_loop.simps [simp del]

definition LineParse :: "http_env \<Rightarrow> (CHttp \<Rightarrow> 'r \<times> CHttp) \<Rightarrow> 'r \<Rightarrow> string \<Rightarrow> CHttp \<Rightarrow> ('r \<times> CHttp) outcome" where
  "LineParse env dp go txt c = line_loop env dp go (m_line_text c @ cstr txt) c"

subsection \<open>The body\<close>

definition MAX_APPLICATION_X_WWW_FORM_URLENCODED_LEN :: nat where
  "MAX_APPLICATION_X_WWW_FORM_URLENCODED_LEN = 1024 * 1024 * 4"

text \<open>
  A piece of the body; False when no more is wanted. The length of the string is compared unsigned
  with the announced one, the length of the buffer signed. The file a large buffer is
  moved to has the same octets.
\<close>

definition PushPostData :: "bytes \<Rightarrow> int \<Rightarrow> CHttp \<Rightarrow> (CHttp \<times> bool) outcome" where
  "PushPostData buf len c =
     (if m_content_type c = application_x_www_form_urlencoded then
        (if length (m_postdata c) > MAX_APPLICATION_X_WWW_FORM_URLENCODED_LEN then Some (c, False)
         else if len < 0 then None
         else do {
           rbuf \<leftarrow> rd_n buf 0 (nat len);
           let c = c\<lparr> m_postdata := m_postdata c @ cstr (of_bytes rbuf) \<rparr>;
           Some (c, \<not> int (length (m_postdata c)) \<ge> m_content_length c mod 2 ^ 64)
         })
      else if len < 0 then None
      else do {
        rbuf \<leftarrow> rd_n buf 0 (nat len);
        let old = (case m_postdata_ex c of None \<Rightarrow> [] | Some b \<Rightarrow> b);
        let c = c\<lparr> m_postdata_ex := Some (old @ rbuf) \<rparr>;
        Some (c, \<not> int (length (old @ rbuf)) \<ge> m_content_length c)
      })"

subsection \<open>An example\<close>

definition plain_env :: http_env where
  "plain_env = \<lparr> WWW_Auth = (\<lambda>scheme credentials method. (False, [], [])), m_enable_http_reverse_proxy = False, m_reverse_ext_list = [] \<rparr>"

definition small_http :: CHttp where
  "small_http = new_CHttp True ''localhost'' 80 ''::1''"

lemma small_http_simps [simp]:
  "m_line_text small_http = []" "m_http_method small_http = hmGet" "m_content_length small_http = 0" "m_postdata small_http = []"
  "m_content_type small_http = application_x_www_form_urlencoded" "\<not> m_enable_http_reverse_proxy plain_env"
  by (simp_all add: small_http_def new_CHttp_def SetMeta_def plain_env_def)

subsection \<open>Pieces\<close>

text \<open>No line looks at the text that waits, so it may be filled in before or after.\<close>

abbreviation with_text :: "string \<Rightarrow> CHttp \<Rightarrow> CHttp" where
  "with_text t c \<equiv> c\<lparr> m_line_text := t \<rparr>"

named_theorems text_out

lemma if_text: "(if b then with_text t x else with_text t y) = with_text t (if b then x else y)"
  by simp

lemma SetMeta_text [text_out]: "SetMeta a v (with_text t c) = with_text t (SetMeta a v c)"
  by (simp add: SetMeta_def)

lemma SetField_text [text_out]: "SetField a v (with_text t c) = with_text t (SetField a v c)"
  by (simp add: SetField_def)

lemma backend_text [text_out]:
  "set_backend h d (with_text t c) = with_text t (set_backend h d c)"
  "set_backup1 h (with_text t c) = with_text t (set_backup1 h c)"
  "set_backup2 h (with_text t c) = with_text t (set_backup2 h c)"
  by (simp_all add: set_backend_def set_backup1_def set_backup2_def split_beta)

lemma reverse_urls_text [text_out]: "reverse_urls p r (with_text t c) = with_text t (reverse_urls p r c)"
  by (simp add: reverse_urls_def Let_def)

lemma reverse_hosts_text [text_out]:
  "reverse_hosts n p (with_text t c) = map_option (map_prod id (with_text t)) (reverse_hosts n p c)"
  by (cases "till_host_end p"; simp add: reverse_hosts_def Let_def text_out fits_def split: list.split)

lemma fields_text [text_out]:
  "store_field s (with_text t c) = with_text t (store_field s c)"
  "add_header_content s (with_text t c) = with_text t (add_header_content s c)"
  "connection_field s (with_text t c) = with_text t (connection_field s c)"
  "upgrade_field s (with_text t c) = with_text t (upgrade_field s c)"
  "length_field s (with_text t c) = with_text t (length_field s c)"
  "host_field s (with_text t c) = with_text t (host_field s c)"
  "cache_field l vs s (with_text t c) = with_text t (cache_field l vs s c)"
  "proxy_auth auth scheme l s (with_text t c) = with_text t (proxy_auth auth scheme l s c)"
  by (simp_all add: store_field_def SetMeta_def SetField_def add_header_content_def connection_field_def upgrade_field_def
      length_field_def host_field_def cache_field_def proxy_auth_def Let_def split_beta)

lemma meta_fields_text [text_out]:
  "type_field s (with_text t c) = with_text t (type_field s c)"
  "basic_auth auth s (with_text t c) = with_text t (basic_auth auth s c)"
  "digest_auth auth s (with_text t c) = with_text t (digest_auth auth s c)"
  by (simp_all add: type_field_def basic_auth_def digest_auth_def SetMeta_def Let_def split_beta)

lemma cookie_text [text_out]:
  "with_text t c\<lparr> m_cookie := v \<rparr> = with_text t (c\<lparr> m_cookie := v \<rparr>)" "m_cookie (with_text t c) = m_cookie c"
  by simp_all

lemma special_field_text [text_out]: "special_field env s (with_text t c) = with_text t (special_field env s c)"
  unfolding special_field_def text_out if_text by (rule refl)

lemma header_field_text [text_out]: "header_field env s (with_text t c) = with_text t (header_field env s c)"
  by (simp add: header_field_def text_out)

lemma tunnel_text [text_out]:
  "with_text t c\<lparr> m_http_tunneling_connection := x \<rparr> = with_text t (c\<lparr> m_http_tunneling_connection := x \<rparr>)"
  "with_text t c\<lparr> m_http_tunneling_url := u \<rparr> = with_text t (c\<lparr> m_http_tunneling_url := u \<rparr>)"
  "with_text t c\<lparr> m_http_method := m \<rparr> = with_text t (c\<lparr> m_http_method := m \<rparr>)"
  "with_text t c\<lparr> m_resource := r, m_querystring := q, m_uri := u \<rparr> = with_text t (c\<lparr> m_resource := r, m_querystring := q, m_uri := u \<rparr>)"
  "with_text t c\<lparr> m_header_content := h, m_http_state := st \<rparr> = with_text t (c\<lparr> m_header_content := h, m_http_state := st \<rparr>)"
  by simp_all

lemma absolute_url_text [text_out]:
  "absolute_url env n m p (with_text t c) = map_option (map_prod id (with_text t)) (absolute_url env n m p c)"
  by (cases "fits n (till_space p)")
    (simp_all add: absolute_url_def Let_def text_out bind_map_option comp_def split_beta map_option_bind)

lemma local_path_text [text_out]: "local_path n s (with_text t c) = map_option (with_text t) (local_path n s c)"
  by (simp add: local_path_def Let_def text_out split_beta fits_def map_option_bind comp_def split: option.split)

lemma ParseMethod_text [text_out]:
  "ParseMethod env s (with_text t c) = map_option (map_prod id (with_text t)) (ParseMethod env s c)"
  by (simp add: ParseMethod_def Let_def text_out option.map_comp comp_def)

lemma header_line_text:
  "header_line env l (with_text t c) = map_option (map_line_result (with_text t)) (header_line env l c)"
  by (simp add: header_line_def request_start_def Let_def text_out split_beta option.map_comp comp_def bind_map_option map_option_bind
      split: option.split)

lemma line_loop_text: "line_loop env dp go s (with_text t c) = line_loop env dp go s c"
proof (induction env dp go s c rule: line_loop.induct)
  case (1 env dp go s c)
  show ?case
    by (subst (1 2) line_loop.simps) (auto simp: header_line_text 1 split: option.splits line_result.splits)
qed

lemma find_if_append: "find_if P a = Some k \<Longrightarrow> find_if P (a @ b) = Some k"
  by (induction a arbitrary: k) (auto split: if_splits)

lemma line_loop_append:
  "line_loop env (Pair True) False a c = Some (fin, c1) \<Longrightarrow>
   line_loop env dp go (a @ b) c =
     (if fin then Some (dp (with_text (m_line_text c1 @ b) c1)) else line_loop env dp go (m_line_text c1 @ b) c1)"
proof (induction "length a" arbitrary: a c rule: less_induct)
  case less
  show ?case
  proof (cases "find_if (\<lambda>x. x = CHR 0x0A) a")
    case None
    then have "c1 = with_text a c \<and> \<not> fin"
      using less(2) by (subst (asm) line_loop.simps) auto
    then show ?thesis
      by (simp add: line_loop_text)
  next
    case (Some k)
    then have k: "k < length a" "find_if (\<lambda>x. x = CHR 0x0A) (a @ b) = Some k"
      by (simp_all add: find_if_length find_if_append)
    show ?thesis
    proof (cases "header_line env (take (Suc k) a) c")
      case None
      then show ?thesis
        using less(2) Some by (subst (asm) line_loop.simps) simp
    next
      case r: (Some r)
      show ?thesis
        using less(2) k Some r less(1) [of "drop (Suc k) a"]
        by (subst line_loop.simps, subst (asm) line_loop.simps) (cases r; auto)
    qed
  qed
qed

lemma LineParse_append:
  assumes "no_nul a" and "no_nul b" and "LineParse env (Pair True) False a c = Some (fin, c1)"
  shows "LineParse env dp go (a @ b) c =
    (if fin then Some (dp (c1\<lparr> m_line_text := m_line_text c1 @ b \<rparr>)) else LineParse env dp go b c1)"
proof -
  have "no_nul (a @ b)"
    using assms(1,2) by (auto simp: no_nul_def)
  then show ?thesis
    using line_loop_append [of env "m_line_text c @ a" c fin c1 dp go b] assms by (simp add: LineParse_def)
qed

text \<open>
  C31: how the text of a request is cut into pieces does not matter. After a piece that does not end
  the header, \<open>LineParse\<close> goes on with the next one as if both had come at once; after a piece that
  ends it, what comes with the end waits in \<open>m_line_text\<close>, and only there, for \<open>DataParse\<close>.
\<close>

theorem line_parse_in_pieces:
  assumes "no_nul a" and "no_nul b" and "LineParse env (Pair True) False a c = Some (fin, c1)"
  shows "LineParse env dp go (a @ b) c =
    (if fin then Some (dp (c1\<lparr> m_line_text := m_line_text c1 @ b \<rparr>)) else LineParse env dp go b c1)"
  using assms by (rule LineParse_append)

theorem line_parse_in_pieces_witness:
  "LineParse plain_env (Pair True) False (''GE'' @ ''T'') small_http =
    LineParse plain_env (Pair True) False ''T'' (small_http\<lparr> m_line_text := ''GE'' \<rparr>)"
proof -
  have "LineParse plain_env (Pair True) False ''GE'' small_http = Some (False, small_http\<lparr> m_line_text := ''GE'' \<rparr>)"
    by (simp add: LineParse_def no_nul_def line_loop.simps)
  then show ?thesis
    using line_parse_in_pieces [of "''GE''" "''T''" plain_env small_http False "small_http\<lparr> m_line_text := ''GE'' \<rparr>" "Pair True" False]
    by (simp add: no_nul_def)
qed

subsection \<open>No text is too strange\<close>











subsection \<open>A field under its name\<close>

lemma strip_line: "strip is_ws (s @ CRLF) = strip is_ws s"
proof (cases "list_all is_ws s")
  case True
  then have "\<forall>c \<in> set (s @ CRLF). is_ws c"
    by (auto simp: list_all_iff CRLF_def is_ws_def)
  then have "dropWhile is_ws (s @ CRLF) = []" "dropWhile is_ws s = []"
    by (auto simp: dropWhile_eq_Nil_conv)
  then show ?thesis
    unfolding strip_def by (simp only:)
next
  case False
  then have "dropWhile is_ws (s @ CRLF) = dropWhile is_ws s @ CRLF"
    by (auto simp: list_all_iff dropWhile_append)
  then show ?thesis
    by (simp add: strip_def CRLF_def is_ws_def)
qed

lemma trim_line:
  assumes "no_nul s"
  shows "strtrim (s @ CRLF) = strip is_ws s"
proof -
  have "no_nul (s @ CRLF)"
    using assms by (auto simp: no_nul_def CRLF_def)
  then show ?thesis
    by (simp add: strtrim_no_nul strip_line)
qed

lemma strip_field:
  assumes "\<not> is_ws (hd nm)" and "nm \<noteq> []"
  shows "\<exists>v. strip is_ws (nm @ CHR '':'' # val_part) = nm @ CHR '':'' # v \<and> strip is_ws v = strip is_ws val_part \<and> set v \<subseteq> set val_part"
proof -
  let ?v = "rev (dropWhile is_ws (rev val_part))"
  have d: "dropWhile is_ws (nm @ CHR '':'' # val_part) = nm @ CHR '':'' # val_part"
    using assms by (cases nm) auto
  have b: "dropWhile is_ws (rev val_part @ CHR '':'' # rev nm) = dropWhile is_ws (rev val_part) @ CHR '':'' # rev nm"
    by (simp add: dropWhile_append is_ws_def)
  have "strip is_ws (nm @ CHR '':'' # val_part) = nm @ CHR '':'' # ?v"
    unfolding strip_def d using b by simp
  moreover have "strip is_ws ?v = strip is_ws val_part"
  proof -
    obtain w where w: "val_part = ?v @ w" "list_all is_ws w"
      by (metis list_all_iff rev_append rev_rev_ident set_rev set_takeWhileD takeWhile_dropWhile_id)
    show ?thesis
    proof (cases "list_all is_ws ?v")
      case True
      then have "list_all is_ws val_part"
        using w(2) by (subst w(1)) simp
      with True have "dropWhile is_ws ?v = []" "dropWhile is_ws val_part = []"
        by (auto simp: list_all_iff dropWhile_eq_Nil_conv)
      then show ?thesis
        unfolding strip_def by (simp only:)
    next
      case False
      then have "dropWhile is_ws val_part = dropWhile is_ws ?v @ w"
        by (subst w(1)) (auto simp: list_all_iff dropWhile_append)
      then show ?thesis
        using w(2) by (auto simp: strip_def list_all_iff dropWhile_append)
    qed
  qed
  moreover have "set ?v \<subseteq> set val_part"
    by (auto dest: set_dropWhileD)
  ultimately show ?thesis
    by blast
qed

text \<open>Raising letters leaves other characters, and does not make any.\<close>

lemma HICH_iff: "\<not> (CHR ''A'' \<le> x \<and> x \<le> CHR ''z'') \<Longrightarrow> HICH c = x \<longleftrightarrow> c = x"
proof (cases "CHR ''a'' \<le> c \<and> c \<le> CHR ''z''")
  case True
  then have c: "97 \<le> (of_char c :: nat)" "of_char c \<le> (122 :: nat)"
    by (simp_all add: less_eq_char_def)
  then have h: "of_char (HICH c) = (of_char c - 32 :: nat)"
    using True by (simp add: HICH_def UPCH_def of_char_of)
  assume "\<not> (CHR ''A'' \<le> x \<and> x \<le> CHR ''z'')"
  then have x: "\<not> (65 \<le> (of_char x :: nat) \<and> of_char x \<le> (122 :: nat))"
    by (simp add: less_eq_char_def)
  have "HICH c \<noteq> x" "c \<noteq> x"
    using c h x by auto
  then show ?thesis
    by simp
qed (auto simp: HICH_def UPCH_def)

lemma capitalise_set:
  "\<not> (CHR ''A'' \<le> x \<and> x \<le> CHR ''z'') \<Longrightarrow> x \<in> set (capitalise High s) \<longleftrightarrow> x \<in> set s"
proof (induction High s rule: capitalise.induct)
  case (2 High c cs)
  then show ?case
    using HICH_iff [of x c] by (cases High) (auto simp: Let_def)
qed simp

lemma capitalise_length: "length (capitalise High s) = length s"
  by (induction High s rule: capitalise.induct) (auto simp: Let_def)

lemma capitalise_name:
  "CHR '':'' \<notin> set n \<Longrightarrow> CHR '' '' \<notin> set n \<Longrightarrow>
    capitalise High (n @ CHR '':'' # v) = capitalise High n @ CHR '':'' # v"
  by (induction High n rule: capitalise.induct) (auto simp: Let_def HICH_iff HICH_def UPCH_def)

lemma LOCH_iff: "\<not> (CHR ''A'' \<le> x \<and> x \<le> CHR ''z'') \<Longrightarrow> LOCH c = x \<longleftrightarrow> c = x"
proof (cases "CHR ''A'' \<le> c \<and> c \<le> CHR ''Z''")
  case True
  then have "65 \<le> (of_char c :: nat)" "of_char c \<le> (90 :: nat)" "of_char (LOCH c) = (of_char c + 32 :: nat)"
    using LOCH_upper by (simp_all add: less_eq_char_def)
  moreover assume "\<not> (CHR ''A'' \<le> x \<and> x \<le> CHR ''z'')"
  then have "\<not> (65 \<le> (of_char x :: nat) \<and> of_char x \<le> (122 :: nat))"
    by (simp add: less_eq_char_def)
  ultimately have "LOCH c \<noteq> x" "c \<noteq> x"
    by auto
  then show ?thesis
    by simp
qed (auto simp: LOCH_def)

lemma LOCH_image: "\<not> (CHR ''A'' \<le> x \<and> x \<le> CHR ''z'') \<Longrightarrow> x \<in> LOCH ` A \<longleftrightarrow> x \<in> A"
  using LOCH_iff by (metis image_iff)

text \<open>A line with a colon before any blank is not taken for a request line.\<close>

lemma not_a_word:
  assumes "CHR '' '' \<notin> set nm" and "no_nul (nm @ CHR '':'' # v)" and "no_nul word"
    and "CHR '' '' \<in> set word" and "CHR '':'' \<notin> set word"
  shows "\<not> strncaseeq (nm @ CHR '':'' # v) word (length word)"
proof
  let ?s = "nm @ CHR '':'' # v"
  assume "strncaseeq ?s word (length word)"
  then have m: "map LOCH (take (length word) ?s) = map LOCH word"
    using assms(2,3) by (simp add: strncaseeq_def)
  have i: "LOCH ` set (take (length word) ?s) = LOCH ` set word"
    using arg_cong [OF m, of set] unfolding set_map .
  have blank: "CHR '' '' \<in> set (take (length word) ?s)"
    using assms(4) i LOCH_image [of "CHR '' ''" "set word"] LOCH_image [of "CHR '' ''" "set (take (length word) ?s)"]
    by (simp add: less_eq_char_def)
  have colon: "CHR '':'' \<notin> set (take (length word) ?s)"
    using assms(5) i LOCH_image [of "CHR '':''" "set word"] LOCH_image [of "CHR '':''" "set (take (length word) ?s)"]
    by (simp add: less_eq_char_def)
  show False
  proof (cases "length word \<le> length nm")
    case True
    then show False
      using blank assms(1) by (auto dest: in_set_takeD)
  next
    case False
    then have "CHR '':'' \<in> set (take (length word) ?s)"
      by (cases "length word - length nm") auto
    with colon show False ..
  qed
qed

lemma no_request_method:
  "CHR '' '' \<notin> set nm \<Longrightarrow> no_nul (nm @ CHR '':'' # v) \<Longrightarrow> request_method (nm @ CHR '':'' # v) = None"
proof -
  have "list_all (\<lambda>(word, _). no_nul word \<and> CHR '' '' \<in> set word \<and> CHR '':'' \<notin> set word) methods"
    by code_simp
  moreover assume "CHR '' '' \<notin> set nm" "no_nul (nm @ CHR '':'' # v)"
  ultimately show ?thesis
    using not_a_word unfolding request_method_def find_None_iff list_all_iff by fast
qed

text \<open>The fields with a meaning of their own leave the map of the request alone, and of the CGI
  variables those of fields.\<close>

lemma SetMeta_simps [simp]:
  "m_request_hdr (SetMeta a v c) = m_request_hdr c" "m_header_content (SetMeta a v c) = m_header_content c"
  "m_cgi (SetMeta a v c) = (m_cgi c)(cstr a \<mapsto> cstr v)" "m_http_method (SetMeta a v c) = m_http_method c"
  by (simp_all add: SetMeta_def)

definition same_fields :: "CHttp \<Rightarrow> CHttp \<Rightarrow> bool" where
  "same_fields a b \<longleftrightarrow> m_request_hdr a = m_request_hdr b \<and> m_header_content a = m_header_content b \<and>
     (\<forall>k. m_cgi a (CHR ''H'' # k) = m_cgi b (CHR ''H'' # k))"

lemma field_same:
  "same_fields (connection_field s c) c" "same_fields (upgrade_field s c) c" "same_fields (length_field s c) c"
  "same_fields (host_field s c) c" "same_fields (cache_field l vs s c) c" "same_fields (proxy_auth auth scheme l s c) c"
  "same_fields (c\<lparr> m_cookie := v \<rparr>) c"
  by (simp_all add: same_fields_def connection_field_def upgrade_field_def length_field_def host_field_def cache_field_def
      proxy_auth_def Let_def split_beta)

lemma meta_field_same:
  "same_fields (type_field s c) c" "same_fields (basic_auth auth s c) c" "same_fields (digest_auth auth s c) c"
  by (simp_all add: same_fields_def type_field_def basic_auth_def digest_auth_def cstr_def Let_def split_beta)

lemma special_field_same: "same_fields (special_field env s c) c"
  by (simp add: special_field_def field_same meta_field_same, simp add: same_fields_def)

lemma HICH_case: "LOCH (HICH c) = LOCH c \<and> UPCH (HICH c) = UPCH c"
proof (cases "CHR ''a'' \<le> c \<and> c \<le> CHR ''z''")
  case True
  then have c: "97 \<le> (of_char c :: nat)" "of_char c \<le> (122 :: nat)"
    by (simp_all add: less_eq_char_def)
  then have h: "of_char (HICH c) = (of_char c - 32 :: nat)"
    using True by (simp add: HICH_def UPCH_def of_char_of)
  then have "\<not> CHR ''a'' \<le> HICH c" "CHR ''A'' \<le> HICH c \<and> HICH c \<le> CHR ''Z''" "\<not> c \<le> CHR ''Z''"
    using c by (simp_all add: less_eq_char_def, linarith)
  then show ?thesis
    using c h by (simp add: LOCH_def UPCH_def [of "HICH c"]) (simp add: HICH_def)
next
  case False
  then have "HICH c = c"
    by (auto simp: HICH_def UPCH_def)
  then show ?thesis
    by simp
qed

lemma map_capitalise: "(\<And>c. f (HICH c) = f c) \<Longrightarrow> map f (capitalise High s) = map f s"
proof (induction High s rule: capitalise.induct)
  case (2 High c cs)
  then show ?case
    using 2(2) [of c] by (cases High) (auto simp: Let_def)
qed simp

lemma capitalise_case: "no_nul s \<Longrightarrow> strcaseeq (capitalise High s) t \<longleftrightarrow> strcaseeq s t"
proof -
  assume n: "no_nul s"
  then have "no_nul (capitalise High s)"
    using capitalise_set [of NUL] by (simp add: no_nul_def less_eq_char_def)
  with n show ?thesis
    using map_capitalise [of LOCH High s] HICH_case by (simp add: strcaseeq_def)
qed

lemma capitalise_upper: "strtoupper (map (\<lambda>c. if c = CHR ''-'' then CHR ''_'' else c) (capitalise High s)) =
    strtoupper (map (\<lambda>c. if c = CHR ''-'' then CHR ''_'' else c) s)"
proof -
  have "UPCH (if HICH c = CHR ''-'' then CHR ''_'' else HICH c) = UPCH (if c = CHR ''-'' then CHR ''_'' else c)" for c
    using HICH_case [of c] HICH_iff [of "CHR ''-''" c] by (simp add: less_eq_char_def)
  then show ?thesis
    unfolding strtoupper_def map_map by (intro map_capitalise) simp
qed

lemma no_nul_upper: "no_nul s \<Longrightarrow> no_nul (strtoupper (map (\<lambda>c. if c = CHR ''-'' then CHR ''_'' else c) s))"
proof (induction s)
  case (Cons c s)
  have "HICH c = NUL \<longleftrightarrow> c = NUL"
    by (rule HICH_iff) (simp add: less_eq_char_def)
  with Cons show ?case
    by (auto simp: no_nul_def strtoupper_def HICH_def UPCH_def [of "CHR ''_''"])
qed (simp add: no_nul_def strtoupper_def)

lemma stored_field:
  assumes "CHR '':'' \<notin> set nm" and "no_nul nm" and "no_nul v" and "nm \<noteq> []" and "strtrim nm = nm"
  shows "m_request_hdr (store_field (nm @ CHR '':'' # v) c) = (m_request_hdr c)(nm \<mapsto> strip is_ws v)"
    and "m_cgi (store_field (nm @ CHR '':'' # v) c) = (m_cgi c)
      (cstr (strtoupper (map (\<lambda>c. if c = CHR ''-'' then CHR ''_'' else c) (''HTTP_'' @ nm))) \<mapsto> strip is_ws v)"
    and "m_header_content (store_field (nm @ CHR '':'' # v) c) = m_header_content c"
  using assms by (simp_all add: store_field_def strcut_name strcut_value strtrim_no_nul SetField_def Let_def)

lemma before_colon: "xs @ c # ys = xs' @ c # ys' \<Longrightarrow> c \<notin> set xs \<Longrightarrow> c \<notin> set xs' \<Longrightarrow> xs = xs'"
  by (induction xs arbitrary: xs') (auto simp: Cons_eq_append_conv)

lemma label_matches:
  assumes "CHR '':'' \<notin> set nm" and "CHR '':'' \<notin> set l" and "no_nul (nm @ CHR '':'' # v)" and "no_nul l"
  shows "strncaseeq (nm @ CHR '':'' # v) (l @ '':'') (Suc (length l)) \<longleftrightarrow> strcaseeq nm l"
proof -
  have n: "no_nul nm" "no_nul (l @ '':'')"
    using assms(3,4) by (auto simp: no_nul_def)
  have c: "LOCH (CHR '':'') = CHR '':''"
    by (simp add: LOCH_def)
  have d: "CHR '':'' \<notin> set (map LOCH nm)" "CHR '':'' \<notin> set (map LOCH l)"
    using assms(1,2) LOCH_image [of "CHR '':''" "set nm"] LOCH_image [of "CHR '':''" "set l"]
    by (simp_all add: less_eq_char_def)
  have "strncaseeq (nm @ CHR '':'' # v) (l @ '':'') (Suc (length l)) \<longleftrightarrow>
      map LOCH (take (Suc (length l)) (nm @ CHR '':'' # v)) = map LOCH l @ [CHR '':'']"
    using assms(3) n c by (simp add: strncaseeq_def)
  also have "\<dots> \<longleftrightarrow> map LOCH nm = map LOCH l"
  proof (cases "Suc (length l) \<le> length nm")
    case True
    then have t: "take (Suc (length l)) (nm @ CHR '':'' # v) = take (Suc (length l)) nm"
      by simp
    have "CHR '':'' \<notin> set (map LOCH (take (Suc (length l)) nm))"
      using d(1) unfolding take_map [symmetric] by (blast dest: in_set_takeD)
    then have "map LOCH (take (Suc (length l)) (nm @ CHR '':'' # v)) \<noteq> map LOCH l @ [CHR '':'']"
      unfolding t by (metis in_set_conv_decomp)
    moreover have "map LOCH nm \<noteq> map LOCH l"
      using True by (metis length_map not_less_eq_eq order_refl)
    ultimately show ?thesis
      by simp
  next
    case False
    then have "take (Suc (length l)) (nm @ CHR '':'' # v) = nm @ CHR '':'' # take (length l - length nm) v"
      by (simp add: Suc_diff_le)
    then have "map LOCH (take (Suc (length l)) (nm @ CHR '':'' # v)) =
        map LOCH nm @ CHR '':'' # map LOCH (take (length l - length nm) v)"
      using c by simp
    then show ?thesis
      using before_colon [OF _ d, of "map LOCH (take (length l - length nm) v)" "[]"]
      by (metis diff_self_eq_0 length_map list.simps(8) take0)
  qed
  finally show ?thesis
    using n assms(4) by (simp add: strcaseeq_def)
qed

lemma line_result_simps [simp]:
  "m_line_text (with_text t c) = t" "m_request_hdr (with_text t c) = m_request_hdr c" "m_cgi (with_text t c) = m_cgi c"
  by simp_all

lemma one_line:
  assumes "no_nul s" and "CHR 0x0A \<notin> set s" and "m_line_text c = []" and "header_line env (s @ CRLF) c = Some (Line_done c')"
  shows "LineParse env dp go (s @ CRLF) c = Some (go, with_text [] c')"
proof -
  have f: "find_if (\<lambda>x. x = CHR 0x0A) (s @ CRLF) = Some (Suc (length s))"
    using assms(2) by (induction s) (auto simp: CRLF_def)
  have "no_nul (s @ CRLF)"
    using assms(1) by (auto simp: no_nul_def CRLF_def)
  moreover have "take (Suc (Suc (length s))) (s @ CRLF) = s @ CRLF" "drop (Suc (Suc (length s))) (s @ CRLF) = []"
    by (simp_all add: CRLF_def)
  ultimately show ?thesis
    using f assms(3,4) by (simp add: LineParse_def, subst line_loop.simps) (simp, subst line_loop.simps, simp)
qed

lemma field_line:
  assumes "nm \<noteq> []" and "list_all (\<lambda>c. \<not> is_ws c \<and> c \<noteq> NUL \<and> c \<noteq> CHR '':'') nm" and "no_nul v"
  obtains w where "strip is_ws (nm @ CHR '':'' # v) = nm @ CHR '':'' # w" and "strip is_ws w = strip is_ws v" and "no_nul w"
    and "header_line env ((nm @ CHR '':'' # v) @ CRLF) c = Some (Line_done (header_field env (capitalise True nm @ CHR '':'' # w) c))"
proof -
  have nm: "\<not> is_ws (hd nm)" "CHR '' '' \<notin> set nm" "CHR '':'' \<notin> set nm" "no_nul nm"
    using assms(1,2) by (auto simp: list_all_iff no_nul_def is_ws_def)
  obtain w where w: "strip is_ws (nm @ CHR '':'' # v) = nm @ CHR '':'' # w" "strip is_ws w = strip is_ws v" "set w \<subseteq> set v"
    using strip_field [OF nm(1) assms(1)] by blast
  then have "no_nul w"
    using assms(3) by (auto simp: no_nul_def)
  have n: "no_nul (nm @ CHR '':'' # v)"
    using nm(4) assms(3) by (simp add: no_nul_def)
  let ?s = "capitalise True nm @ CHR '':'' # w"
  have "CHR '' '' \<notin> set (capitalise True nm)" "NUL \<notin> set (capitalise True nm)"
    using nm(2,4) capitalise_set [of "CHR '' ''"] capitalise_set [of NUL] by (simp_all add: less_eq_char_def no_nul_def)
  then have "request_method ?s = None" "cstr ?s \<noteq> []"
    using no_request_method [of "capitalise True nm" w] \<open>no_nul w\<close> by (simp_all add: no_nul_def)
  then have "header_line env ((nm @ CHR '':'' # v) @ CRLF) c = Some (Line_done (header_field env ?s c))"
    unfolding header_line_def trim_line [OF n] w(1) capitalise_name [OF nm(3,2)] Let_def
    by (cases "capitalise True nm") simp_all
  with w \<open>no_nul w\<close> that show thesis
    by blast
qed

lemma line_stored:
  assumes "nm \<noteq> []" and "list_all (\<lambda>c. \<not> is_ws c \<and> c \<noteq> NUL \<and> c \<noteq> CHR '':'') nm"
    and "no_nul v" and "CHR 0x0A \<notin> set v" and "m_line_text c = []"
  shows "\<exists>c'. LineParse env dp go (nm @ '':'' @ v @ CRLF) c = Some (go, c') \<and> m_line_text c' = [] \<and>
    m_request_hdr c' = (m_request_hdr c)(capitalise True nm \<mapsto> strip is_ws v) \<and>
    m_cgi c' (''HTTP_'' @ strtoupper (map (\<lambda>c. if c = CHR ''-'' then CHR ''_'' else c) nm)) = Some (strip is_ws v) \<and>
    (\<not> strcaseeq nm ''Proxy-Authorization'' \<longrightarrow>
      m_header_content c' = m_header_content c @ capitalise True (strip is_ws (nm @ '':'' @ v)) @ CRLF)"
proof -
  have nm: "CHR '' '' \<notin> set nm" "CHR '':'' \<notin> set nm" "no_nul nm" "CHR 0x0A \<notin> set nm" "list_all (\<lambda>c. \<not> is_ws c) nm"
    using assms(2) by (auto simp: list_all_iff no_nul_def is_ws_def)
  obtain w where w: "strip is_ws (nm @ CHR '':'' # v) = nm @ CHR '':'' # w" "strip is_ws w = strip is_ws v" "no_nul w"
    and h: "header_line env ((nm @ CHR '':'' # v) @ CRLF) c = Some (Line_done (header_field env (capitalise True nm @ CHR '':'' # w) c))"
    using field_line [OF assms(1-3)] by metis
  define cn where "cn = capitalise True nm"
  let ?d = "\<lambda>s. strtoupper (map (\<lambda>c. if c = CHR ''-'' then CHR ''_'' else c) s)" and ?l = "cn @ CHR '':'' # w"
  have c: "CHR '':'' \<notin> set cn" "no_nul cn" "cn \<noteq> []" "strtrim cn = cn"
  proof -
    show "CHR '':'' \<notin> set cn" and n: "no_nul cn"
      using nm capitalise_set [of "CHR '':''"] capitalise_set [of NUL] by (simp_all add: cn_def less_eq_char_def no_nul_def)
    show "cn \<noteq> []"
      using assms(1) capitalise_length [of True nm] by (auto simp: cn_def)
    have "\<not> is_ws x" if "x \<in> set cn" for x
    proof
      assume "is_ws x"
      then have "\<not> (CHR ''A'' \<le> x \<and> x \<le> CHR ''z'')"
        by (auto simp: is_ws_def less_eq_char_def)
      then have "x \<in> set nm"
        using that capitalise_set [of x True nm] unfolding cn_def by blast
      with nm(5) \<open>is_ws x\<close> show False
        by (simp add: list_all_iff)
    qed
    then show "strtrim cn = cn"
      using \<open>cn \<noteq> []\<close> n by (simp add: strtrim_no_nul strip_id)
  qed
  have k: "cstr (?d (''HTTP_'' @ cn)) = ''HTTP_'' @ ?d nm"
  proof -
    have "no_nul (?d nm)"
      using nm(3) by (rule no_nul_upper)
    moreover have "?d (''HTTP_'' @ cn) = ''HTTP_'' @ ?d nm"
      using capitalise_upper [of True nm] by (simp add: cn_def strtoupper_def UPCH_def)
    ultimately show ?thesis
      by (simp add: no_nul_def)
  qed
  let ?c = "if \<not> strncaseeq ?l ''Proxy-Authorization:'' 20 then add_header_content ?l c else c"
  have f: "same_fields (header_field env ?l c) (store_field ?l ?c)"
    using special_field_same by (simp add: header_field_def)
  have "m_request_hdr (header_field env ?l c) = (m_request_hdr c)(cn \<mapsto> strip is_ws v)"
    using f stored_field [OF c(1,2) w(3) c(3,4)] w(2) by (simp add: same_fields_def add_header_content_def)
  moreover have "m_cgi (header_field env ?l c) (''HTTP_'' @ ?d nm) = Some (strip is_ws v)"
    using f stored_field [OF c(1,2) w(3) c(3,4)] w(2) k by (simp add: same_fields_def add_header_content_def)
  moreover have "m_header_content (header_field env ?l c) = m_header_content c @ ?l @ CRLF" if "\<not> strcaseeq nm ''Proxy-Authorization''"
  proof -
    have l: "CHR '':'' \<notin> set ''Proxy-Authorization''" "no_nul ''Proxy-Authorization''" "no_nul ?l"
      using c(2) w(3) by (simp_all add: no_nul_def)
    have "\<not> strcaseeq cn ''Proxy-Authorization''"
      using that capitalise_case [OF nm(3)] unfolding cn_def by blast
    then have "\<not> strncaseeq ?l (''Proxy-Authorization'' @ '':'') (Suc (length ''Proxy-Authorization''))"
      using label_matches [OF c(1) l(1,3,2)] by blast
    then have "\<not> strncaseeq ?l ''Proxy-Authorization:'' 20"
      by (simp add: numeral_eq_Suc)
    then show ?thesis
      using f stored_field [OF c(1,2) w(3) c(3,4)] by (simp add: same_fields_def add_header_content_def)
  qed
  moreover have "capitalise True (strip is_ws (nm @ '':'' @ v)) = ?l"
    using w(1) capitalise_name [OF nm(2,1)] by (simp add: cn_def)
  moreover have "LineParse env dp go (nm @ '':'' @ v @ CRLF) c = Some (go, with_text [] (header_field env ?l c))"
    using one_line [OF _ _ assms(5) h] nm assms(3,4) by (simp add: no_nul_def cn_def)
  ultimately show ?thesis
    by (simp flip: cn_def)
qed

text \<open>
  C33: a header field is found under its name. When the line of a field comes in whole, the parser stores
  the value without surrounding blanks under the name with the first letter of each part raised, and
  for CGI programs under HTTP_ and the name in capitals; the line itself is kept for the
  server behind, proxy credentials excepted, and the parser waits for the next line.
\<close>

theorem field_stored:
  assumes "nm \<noteq> []" and "list_all (\<lambda>c. \<not> is_ws c \<and> c \<noteq> NUL \<and> c \<noteq> CHR '':'') nm"
    and "no_nul v" and "CHR 0x0A \<notin> set v" and "m_line_text c = []"
  shows "\<exists>c'. LineParse env dp go (nm @ '':'' @ v @ CRLF) c = Some (go, c') \<and> m_line_text c' = [] \<and>
    m_request_hdr c' = (m_request_hdr c)(capitalise True nm \<mapsto> strip is_ws v) \<and>
    m_cgi c' (''HTTP_'' @ strtoupper (map (\<lambda>c. if c = CHR ''-'' then CHR ''_'' else c) nm)) = Some (strip is_ws v) \<and>
    (\<not> strcaseeq nm ''Proxy-Authorization'' \<longrightarrow>
      m_header_content c' = m_header_content c @ capitalise True (strip is_ws (nm @ '':'' @ v)) @ CRLF)"
  using assms by (rule line_stored)

theorem field_stored_witness:
  "\<exists>c'. LineParse plain_env (Pair True) False (''x-a'' @ '':'' @ '' b '' @ CRLF) small_http = Some (False, c') \<and> m_line_text c' = [] \<and>
    m_request_hdr c' = (m_request_hdr small_http)(capitalise True ''x-a'' \<mapsto> strip is_ws '' b '')"
  using field_stored [of "''x-a''" "'' b ''" small_http plain_env "Pair True" False]
  by (simp add: is_ws_def no_nul_def) blast

subsection \<open>The request line\<close>








lemma chr_of_special:
  "chr_of b = CHR '' '' \<longleftrightarrow> b = 0x20" "chr_of b = CHR 0x09 \<longleftrightarrow> b = 0x09" "chr_of b = CHR 0x0A \<longleftrightarrow> b = 0x0A"
  "chr_of b = CHR 0x0D \<longleftrightarrow> b = 0x0D" "chr_of b = CHR ''?'' \<longleftrightarrow> b = 0x3F" "chr_of b = NUL \<longleftrightarrow> b = 0"
proof -
  have "chr_of b = c \<longleftrightarrow> b = byte_of c" for c
    by (metis byte_of_chr_of chr_of_byte_of)
  then show "chr_of b = CHR '' '' \<longleftrightarrow> b = 0x20" "chr_of b = CHR 0x09 \<longleftrightarrow> b = 0x09" "chr_of b = CHR 0x0A \<longleftrightarrow> b = 0x0A"
      "chr_of b = CHR 0x0D \<longleftrightarrow> b = 0x0D" "chr_of b = CHR ''?'' \<longleftrightarrow> b = 0x3F" "chr_of b = NUL \<longleftrightarrow> b = 0"
    by (simp_all add: byte_of_def)
qed





subsection \<open>The length of the body\<close>

lemma colon_unique:
  assumes "take (length l) (drop i (nm @ CHR '':'' # w)) = l" and "l = k @ '':''" and "CHR '':'' \<notin> set nm" and "CHR '':'' \<notin> set w"
    and "length nm = length k" and "CHR '':'' \<notin> set k"
  shows "nm = k"
proof -
  let ?s = "nm @ CHR '':'' # w"
  have "length (take (length l) (drop i ?s)) = length l"
    using assms(1) by simp
  then have len: "i + length l \<le> length ?s"
    using assms(2) by auto
  have "?s ! (i + length k) = l ! length k"
    using assms(1,2) len by (metis le_add1 le_trans lessI length_append_singleton nth_drop nth_take)
  then have "?s ! (i + length k) = CHR '':''"
    using assms(2) by simp
  then have "w ! n = CHR '':''" "n < length w" if "i = Suc n" for n
    using assms(2,5) len that by (simp_all add: nth_append)
  then have "i = 0"
    using assms(4) nth_mem by (metis not0_implies_Suc)
  then show ?thesis
    using assms(1,2,5) by simp
qed

lemma atoi_Nil: "atoi [] = 0"
  by (simp add: atoi_def)

lemma length_field_result:
  "m_content_length (length_field s c) =
    (if m_http_method c = hmHead then 0 else atoll (strtrim (strcut s (Some (''Content-Length'' @ '':'')) None)))"
  "m_http_method (store_field s c) = m_http_method c" "m_http_method (add_header_content s c) = m_http_method c"
  by (simp_all add: length_field_def store_field_def SetField_def add_header_content_def Let_def)

lemma case_set:
  assumes "map LOCH a = map LOCH b" and "\<not> (CHR ''A'' \<le> x \<and> x \<le> CHR ''z'')"
  shows "x \<in> set a \<longleftrightarrow> x \<in> set b"
proof -
  have "LOCH ` set a = LOCH ` set b"
    using arg_cong [OF assms(1), of set] unfolding set_map .
  then show ?thesis
    using LOCH_image [OF assms(2), of "set a"] LOCH_image [OF assms(2), of "set b"] by simp
qed

lemma length_field_chosen:
  assumes "CHR '':'' \<notin> set cn" and "no_nul (cn @ CHR '':'' # v)" and "strcaseeq cn ''Content-Length''"
  shows "special_field env (cn @ CHR '':'' # v) c = length_field (cn @ CHR '':'' # v) c"
proof -
  have eq: "map LOCH (cstr cn) = map LOCH (cstr ''Content-Length'')"
    using assms(3) unfolding strcaseeq_def .
  have label: "strncaseeq (cn @ CHR '':'' # v) (l @ '':'') (Suc (length l)) \<longleftrightarrow> strcaseeq ''Content-Length'' l"
    if "CHR '':'' \<notin> set l" "no_nul l" for l
    using label_matches [OF assms(1) that(1) assms(2) that(2)] unfolding strcaseeq_def eq .
  have "\<not> strcaseeq ''Content-Length'' ''Connection''" "\<not> strcaseeq ''Content-Length'' ''Upgrade''"
    by code_simp+
  then have "\<not> strncaseeq (cn @ CHR '':'' # v) ''Connection:'' 11" "\<not> strncaseeq (cn @ CHR '':'' # v) ''Upgrade:'' 8"
      "strncaseeq (cn @ CHR '':'' # v) ''Content-Length:'' 15"
    using label [of "''Connection''"] label [of "''Upgrade''"] label [of "''Content-Length''"]
    by (simp_all add: no_nul_def numeral_eq_Suc)
  then show ?thesis
    unfolding special_field_def by (simp only: if_True if_False)
qed

lemma length_cut:
  assumes "CHR '':'' \<notin> set cn" and "length cn = length ''Content-Length''" and "no_nul v" and "CHR '':'' \<notin> set v"
  shows "strtrim (strcut (cn @ CHR '':'' # v) (Some (''Content-Length'' @ '':'')) None) =
    (if cn = ''Content-Length'' then strip is_ws v else [])"
proof (cases "find_sub (''Content-Length'' @ '':'') (cn @ CHR '':'' # v)")
  case None
  have "cn \<noteq> ''Content-Length''"
    using None by auto
  with None show ?thesis
    unfolding strcut_def Let_def by (simp add: strtrim_def)
next
  case (Some i)
  have "take (length (''Content-Length'' @ '':'')) (drop i (cn @ CHR '':'' # v)) = ''Content-Length'' @ '':''"
    using find_sub_Some [OF Some] by blast
  then have c: "cn = ''Content-Length''"
    by (rule colon_unique [OF _ refl assms(1,4,2)]) simp
  then have "find_sub (''Content-Length'' @ '':'') (cn @ CHR '':'' # v) = Some 0"
    by simp
  then show ?thesis
    using c strtrim_no_nul [OF assms(3)] unfolding strcut_def Let_def by simp
qed

text \<open>
  the length of the body is read from the field Content-Length in any spelling the raising of
  letters turns into this one; the field in other spellings, like CONTENT-LENGTH, is recognised too but its
  value is looked for behind the exact name, is not found, and the length becomes 0.
\<close>

theorem content_length_read:
  assumes "no_nul nm" and "strcaseeq nm ''Content-Length''" and "d \<noteq> []" and "list_all (\<lambda>c. CHR ''0'' \<le> c \<and> c \<le> CHR ''9'') d"
    and "m_line_text c = []"
  shows "\<exists>c'. LineParse env dp go (nm @ '': '' @ d @ CRLF) c = Some (go, c') \<and>
    m_content_length c' = (if m_http_method c = hmHead \<or> capitalise True nm \<noteq> ''Content-Length'' then 0 else atoll d)"
proof -
  let ?cl = "''Content-Length''" and ?v = "'' '' @ d"
  have d: "\<forall>x \<in> set d. \<not> is_ws x \<and> x \<noteq> NUL \<and> x \<noteq> CHR '':''"
    using assms(4) by (auto simp: list_all_iff is_ws_def less_eq_char_def)
  then have v: "no_nul ?v" "CHR 0x0A \<notin> set ?v" "CHR '':'' \<notin> set ?v"
    by (auto simp: no_nul_def is_ws_def)
  have lc: "map LOCH nm = map LOCH ?cl"
    using assms(1,2) by (simp add: strcaseeq_def no_nul_def)
  have "CHR '' '' \<notin> set nm" "CHR 0x0D \<notin> set nm" "CHR 0x0A \<notin> set nm" "CHR 0x09 \<notin> set nm" "CHR '':'' \<notin> set nm"
    by (subst case_set [OF lc]; simp add: less_eq_char_def)+
  then have nm: "nm \<noteq> []" "list_all (\<lambda>c. \<not> is_ws c \<and> c \<noteq> NUL \<and> c \<noteq> CHR '':'') nm" "CHR '':'' \<notin> set nm" "CHR 0x0A \<notin> set nm"
    using assms(1) lc by (auto simp: list_all_iff is_ws_def no_nul_def)
  obtain w where "strip is_ws (nm @ CHR '':'' # ?v) = nm @ CHR '':'' # w"
    and h: "header_line env ((nm @ CHR '':'' # ?v) @ CRLF) c = Some (Line_done (header_field env (capitalise True nm @ CHR '':'' # w) c))"
    using field_line [OF nm(1,2) v(1)] by metis
  moreover have "strip is_ws (nm @ CHR '':'' # ?v) = nm @ CHR '':'' # ?v"
    using nm(1,2) assms(3) d by (intro strip_id) (auto simp: list_all_iff)
  ultimately have w: "w = ?v"
    by simp
  define cn where "cn = capitalise True nm"
  have cn: "CHR '':'' \<notin> set cn" "no_nul (cn @ CHR '':'' # ?v)" "length cn = length ?cl"
    using nm(3) assms(1) v(1) capitalise_set [of "CHR '':''"] capitalise_set [of NUL] arg_cong [OF lc, of length]
    by (simp_all add: cn_def less_eq_char_def no_nul_def capitalise_length)
  have "strcaseeq cn ?cl"
    unfolding cn_def capitalise_case [OF assms(1)] by (rule assms(2))
  note sp = length_field_chosen [OF cn(1,2) this]
  have "dropWhile is_ws (rev d) = rev d" "dropWhile is_ws d = d"
    using assms(3) d by (simp_all add: dropWhile_eq_self_iff hd_rev)
  then have "strip is_ws ?v = d"
    by (simp add: strip_def is_ws_def)
  note cut = length_cut [OF cn(1,3) v(1,3), unfolded this]
  have "m_content_length (header_field env (cn @ CHR '':'' # w) c) = (if m_http_method c = hmHead \<or> cn \<noteq> ?cl then 0 else atoll d)"
    unfolding w header_field_def Let_def sp length_field_result cut by (simp add: length_field_result(3) atoll_def atoi_Nil)
  moreover have "no_nul (nm @ CHR '':'' # ?v)" "CHR 0x0A \<notin> set (nm @ CHR '':'' # ?v)"
    using v assms(1) nm(4) by (simp_all add: no_nul_def)
  then have "LineParse env dp go ((nm @ CHR '':'' # ?v) @ CRLF) c = Some (go, with_text [] (header_field env (cn @ CHR '':'' # w) c))"
    unfolding cn_def by (rule one_line [OF _ _ assms(5) h])
  ultimately show ?thesis
    unfolding cn_def append_assoc append.simps
    by (intro exI [of _ "with_text [] (header_field env (capitalise True nm @ CHR '':'' # w) c)"]) simp
qed

theorem content_length_read_witness:
  "\<exists>c'. LineParse plain_env (Pair True) False (''content-length'' @ '': '' @ ''12'' @ CRLF) small_http = Some (False, c') \<and>
    m_content_length c' = (if capitalise True ''content-length'' \<noteq> ''Content-Length'' then 0 else atoll ''12'')"
proof -
  have "strcaseeq ''content-length'' ''Content-Length''"
    by code_simp
  then show ?thesis
    using content_length_read [of "''content-length''" "''12''" small_http plain_env "Pair True" False]
    by (simp add: no_nul_def)
qed

subsection \<open>The body in pieces\<close>

text \<open>Pieces are pushed as long as more is wanted.\<close>

fun push_pieces :: "bytes list \<Rightarrow> CHttp \<Rightarrow> (CHttp \<times> bool) outcome" where
  "push_pieces [] c = Some (c, True)"
| "push_pieces (b # bs) c = do {
     (c, more_wanted) \<leftarrow> PushPostData b (int (length b)) c;
     if more_wanted then push_pieces bs c else Some (c, False)
   }"

lemma push_urlencoded:
  assumes "m_content_type c = application_x_www_form_urlencoded" and "0 \<notin> set b" and "0 \<le> m_content_length c"
    and "m_content_length c < 2 ^ 63" and "length (m_postdata c) \<le> MAX_APPLICATION_X_WWW_FORM_URLENCODED_LEN"
  shows "PushPostData b (int (length b)) c =
    Some (c\<lparr> m_postdata := m_postdata c @ of_bytes b \<rparr>, int (length (m_postdata c @ of_bytes b)) < m_content_length c)"
proof -
  have "no_nul (of_bytes b)"
    using assms(2) by (auto simp: no_nul_def of_bytes_def image_iff) (metis chr_of_special(6))
  moreover have "m_content_length c mod 2 ^ 64 = m_content_length c"
    using assms(3,4) by simp
  ultimately show ?thesis
    using assms(1,5) by (simp add: PushPostData_def Let_def not_le rd_n_def)
qed

text \<open>
  the body arrives whole however it is cut. Pieces of a form without NUL octets are put together in
  their order until the announced length is reached, at the piece that reaches it and not before.
\<close>

theorem body_collected:
  assumes "m_content_type c = application_x_www_form_urlencoded" and "list_all (\<lambda>b. 0 \<notin> set b) (bs @ [b])"
    and "m_postdata c = []" and "int (length (concat bs)) < m_content_length c"
    and "m_content_length c \<le> int (length (concat (bs @ [b])))"
    and "m_content_length c \<le> int MAX_APPLICATION_X_WWW_FORM_URLENCODED_LEN"
  shows "push_pieces (bs @ [b]) c = Some (c\<lparr> m_postdata := of_bytes (concat (bs @ [b])) \<rparr>, False)"
proof -
  have small: "int MAX_APPLICATION_X_WWW_FORM_URLENCODED_LEN < 2 ^ 63"
    by (simp add: MAX_APPLICATION_X_WWW_FORM_URLENCODED_LEN_def)
  have "push_pieces (bs @ [b]) x = Some (x\<lparr> m_postdata := m_postdata x @ of_bytes (concat (bs @ [b])) \<rparr>, False)"
    if "list_all (\<lambda>b. 0 \<notin> set b) (bs @ [b])" "m_content_type x = application_x_www_form_urlencoded"
      "m_content_length x = m_content_length c" "int (length (m_postdata x) + length (concat bs)) < m_content_length c"
      "m_content_length c \<le> int (length (m_postdata x) + length (concat (bs @ [b])))" for x bs
    using that
  proof (induction bs arbitrary: x)
    case Nil
    then show ?case
      using push_urlencoded [of x b] small assms(6) by simp
  next
    case (Cons a bs)
    have "PushPostData a (int (length a)) x = Some (x\<lparr> m_postdata := m_postdata x @ of_bytes a \<rparr>, True)"
      using push_urlencoded [of x a] small assms(6) Cons.prems by simp
    then show ?case
      using Cons.IH [of "x\<lparr> m_postdata := m_postdata x @ of_bytes a \<rparr>"] Cons.prems by simp
  qed
  from this [of bs c] show ?thesis
    using assms by simp
qed

theorem body_collected_witness:
  "push_pieces ([[0x61], [0x3D]] @ [[0x62, 0x63]]) (small_http\<lparr> m_content_length := 3 \<rparr>) =
    Some (small_http\<lparr> m_content_length := 3, m_postdata := of_bytes [0x61, 0x3D, 0x62, 0x63] \<rparr>, False)"
  using body_collected [of "small_http\<lparr> m_content_length := 3 \<rparr>" "[[0x61], [0x3D]]" "[0x62, 0x63]"]
  by (simp add: MAX_APPLICATION_X_WWW_FORM_URLENCODED_LEN_def)

text \<open>
  without an announced length the first piece of a body is the last. The length is 0 as long as no field gives
  one, and in HTTP/2 the field is not required.
\<close>

theorem body_without_length:
  assumes "m_content_length c = 0" and "length (m_postdata c) \<le> MAX_APPLICATION_X_WWW_FORM_URLENCODED_LEN"
  shows "\<exists>c'. push_pieces (b # bs) c = Some (c', False) \<and> push_pieces [b] c = Some (c', False)"
  using assms by (cases "m_content_type c") (simp_all add: PushPostData_def rd_n_def Let_def)

theorem body_without_length_witness:
  "\<exists>c'. push_pieces [[0x61], [0x62]] small_http = Some (c', False) \<and> push_pieces [[0x61]] small_http = Some (c', False)"
  by (rule body_without_length) simp_all

end
