(* ===== verification/Http1ops.thy ===== *)
theory Http1ops
  imports Http1parse Http2recv
begin

section \<open>HTTP/2 streams on the HTTP/1.1 parser\<close>

text \<open>
  The interface \<open>h1_ops\<close>, through which an HTTP/2 connection uses the \<open>CHttp\<close> object of a stream, with the
  model of that object: what the header block of a request becomes in it. What \<open>CHttp::Response\<close>
  sends and the list of pushed paths remain parameters. Only the first line break of the text an HTTP/2 field becomes
  is the parser's own, which makes a difference when the value has one too.
\<close>

definition http1_of :: "http_env \<Rightarrow> (u32 \<Rightarrow> CHttp) \<Rightarrow> (CHttp \<Rightarrow> h1_call list \<times> CHttp) \<Rightarrow> (CHttp \<Rightarrow> CHttp \<times> h1_call list) \<Rightarrow>
    (CHttp \<Rightarrow> string list) \<Rightarrow> CHttp h1_ops" where
  "http1_of env new dp response pushed =
     \<lparr> op_new = new, op_LineParse = (\<lambda>h txt. map_option prod.swap (LineParse env dp [] txt h)),
       op_PushPostData = (\<lambda>h buf len. PushPostData buf len (h\<lparr> m_http_state := httpReqData \<rparr>)), op_Response = response, op_GetMethod = m_http_method,
       op_GetRequestField = GetRequestField, op_PushPromiseList = pushed \<rparr>"

text \<open>For the instances: a connection with one stream that has a \<open>CHttp\<close> object.\<close>

definition plain_ops :: "CHttp h1_ops" where
  "plain_ops = http1_of plain_env (\<lambda>_. small_http) (\<lambda>h. ([], h)) (\<lambda>h. (h, [])) (\<lambda>_. [])"

definition http_stream :: "CHttp http2_stream" where
  "http_stream =
     \<lparr> m_path = ''/'' @ of_bytes (NIU_URLFORMAT_ENCODE [0x61]) @ (if [] = ([] :: string) then [] else ''?'' @ []), m_method = ''GET'',
       m_authority = [], m_scheme = [], m_http1 = small_http, m_hpack = None,
       m_push_promise_trigger_header = [], m_dependency_stream = 0, m_priority_weight = 16, m_stream_state = stream_open,
       m_peer_window_size = HTTP2_DEFAULT_WINDOW_SIZE, m_local_window_size = HTTP2_MAX_WINDOW_SIZE, m_last_used_time = 0 \<rparr>"

definition http_conn :: "CHttp CHttp2" where
  "http_conn = (init_conn True [] [] True 0)\<lparr> m_stream_list := [(1, Some http_stream)] \<rparr>"

lemma http_conn_simps [simp]: "get_stream_instance 1 http_conn = Some http_stream" "m_http1 http_stream = small_http"
  "m_method http_stream = ''GET''"
  "m_path http_stream = ''/'' @ of_bytes (NIU_URLFORMAT_ENCODE [0x61]) @ (if [] = ([] :: string) then [] else ''?'' @ [])"
  by (simp_all add: http_conn_def get_stream_instance_def init_conn_def http_stream_def)

lemma http1_parse_quiet:
  assumes "get_stream_instance i c = Some s" and "LineParse env dp [] txt (m_http1 s) = Some ([], h)"
  shows "http1_parse (http1_of env new dp response pushed) (run ops (Suc n)) i txt c = Some (on_stream i (\<lambda>s. s\<lparr> m_http1 := h \<rparr>) c)"
  using assms by (simp add: http1_parse_def http1_of_def)


lemma colon_case: "map LOCH a = map LOCH b \<Longrightarrow> CHR '':'' \<in> set a \<longleftrightarrow> CHR '':'' \<in> set b"
  by (rule case_set) (simp_all add: less_eq_char_def)

lemma strip_blank: "strip is_ws ('' '' @ v) = strip is_ws v"
  by (simp add: strip_def is_ws_def)



text \<open>
  C35: a line break in the value of an HTTP/2 field starts another field. Values are handed to the line
  parser as they come, so one field whose value holds a carriage return and line feed makes the server see
  a second one, which a gateway that reads HTTP/2 properly does not know of.
\<close>

theorem header_injection:
  assumes "nm \<noteq> []" and "list_all (\<lambda>c. \<not> is_ws c \<and> c \<noteq> NUL \<and> c \<noteq> CHR '':'') nm" and "no_nul v" and "CHR 0x0A \<notin> set v"
    and "nm2 \<noteq> []" and "list_all (\<lambda>c. \<not> is_ws c \<and> c \<noteq> NUL \<and> c \<noteq> CHR '':'') nm2" and "no_nul v2" and "CHR 0x0A \<notin> set v2"
    and "get_stream_instance i c = Some s" and "m_line_text (m_http1 s) = []"
    and "name x = nm" and "val_of x = v @ CRLF @ nm2 @ '':'' @ v2"
  shows "\<exists>h. other_header (http1_of env new dp response pushed) (run ops (Suc k)) i x c = Some (on_stream i (\<lambda>s. s\<lparr> m_http1 := h \<rparr>) c) \<and>
    m_request_hdr h = (m_request_hdr (m_http1 s))(capitalise True nm \<mapsto> strip is_ws v, capitalise True nm2 \<mapsto> strip is_ws v2)"
proof -
  let ?ops = "http1_of env new dp response pushed" and ?a = "nm @ '':'' @ ('' '' @ v) @ CRLF" and ?b = "nm2 @ '':'' @ v2 @ CRLF"
  let ?fin = "Pair True :: CHttp \<Rightarrow> bool \<times> CHttp"
  have n: "no_nul ('' '' @ v)" "CHR 0x0A \<notin> set ('' '' @ v)" "no_nul nm" "no_nul nm2"
    using assms(2-4,6) by (auto simp: no_nul_def list_all_iff)
  then have "no_nul ?a" "no_nul ?b"
    using assms(7) by (auto simp: no_nul_def CRLF_def)
  obtain h1 where h1: "LineParse env ?fin False ?a (m_http1 s) = Some (False, h1)" "m_line_text h1 = []"
      "m_request_hdr h1 = (m_request_hdr (m_http1 s))(capitalise True nm \<mapsto> strip is_ws v)"
    using line_stored [OF assms(1,2) n(1,2) assms(10), of env ?fin False] strip_blank [of v] by (elim exE conjE) simp
  obtain h2 where h2: "LineParse env dp [] ?b h1 = Some ([], h2)"
      "m_request_hdr h2 = (m_request_hdr h1)(capitalise True nm2 \<mapsto> strip is_ws v2)"
    using line_stored [OF assms(5-8) h1(2), of env dp "[]"] by (elim exE conjE)
  have "LineParse env dp [] (?a @ ?b) (m_http1 s) = Some ([], h2)"
    using LineParse_append [OF \<open>no_nul ?a\<close> \<open>no_nul ?b\<close> h1(1), of dp "[]"] h2(1) by simp
  moreover have t: "cstr (name x) @ '': '' @ cstr (val_of x) @ CRLF = ?a @ ?b" "cstr (name x) \<noteq> []" "cstr (val_of x) \<noteq> []"
  proof -
    have "no_nul (val_of x)"
      using assms(3,7,12) n(4) by (simp add: no_nul_def CRLF_def)
    then have "cstr (val_of x) = val_of x" "cstr (name x) = nm"
      using n(3) assms(11) by simp_all
    then show "cstr (name x) @ '': '' @ cstr (val_of x) @ CRLF = ?a @ ?b" "cstr (name x) \<noteq> []" "cstr (val_of x) \<noteq> []"
      using assms(1,12) by (simp_all add: CRLF_def)
  qed
  moreover have "\<not> strcaseeq (name x) '':method''" "\<not> strcaseeq (name x) '':scheme''" "\<not> strcaseeq (name x) '':path''"
      "\<not> strcaseeq (name x) '':authority''"
  proof -
    have "CHR '':'' \<notin> set (cstr (name x))"
      using assms(2,11) n(3) by (auto simp: list_all_iff)
    then have "\<not> strcaseeq (name x) (CHR '':'' # l)" for l
      using colon_case [of "cstr (name x)" "cstr (CHR '':'' # l)"] by (auto simp: strcaseeq_def cstr_def)
    then show "\<not> strcaseeq (name x) '':method''" "\<not> strcaseeq (name x) '':scheme''" "\<not> strcaseeq (name x) '':path''"
      "\<not> strcaseeq (name x) '':authority''"
      by simp_all
  qed
  ultimately have "other_header ?ops (run ops (Suc k)) i x c = Some (on_stream i (\<lambda>s. s\<lparr> m_http1 := h2 \<rparr>) c)"
    using http1_parse_quiet [OF assms(9), of env dp "?a @ ?b" h2] unfolding other_header_def t(1) by simp
  with h1(3) h2(2) show ?thesis
    by auto
qed

theorem header_injection_witness:
  "\<exists>h. other_header plain_ops (run plain_ops (Suc 0)) 1 (mk_header type_without_indexing_new_name 0 ''x'' (''a'' @ CRLF @ ''y'' @ '':'' @ ''b''))
      http_conn = Some (on_stream 1 (\<lambda>s. s\<lparr> m_http1 := h \<rparr>) http_conn) \<and>
    m_request_hdr h = (m_request_hdr small_http)(capitalise True ''x'' \<mapsto> strip is_ws ''a'', capitalise True ''y'' \<mapsto> strip is_ws ''b'')"
proof -
  let ?x = "mk_header type_without_indexing_new_name 0 ''x'' (''a'' @ CRLF @ ''y'' @ '':'' @ ''b'')"
  have "name ?x = ''x''" "val_of ?x = ''a'' @ CRLF @ ''y'' @ '':'' @ ''b''"
    by (simp_all add: mk_header_def)
  then show ?thesis
    using header_injection [of "''x''" "''a''" "''y''" "''b''" 1 http_conn http_stream ?x plain_env "\<lambda>_. small_http"
        "\<lambda>h. ([], h)" "\<lambda>h. (h, [])" "\<lambda>_. []" plain_ops 0]
    unfolding plain_ops_def [symmetric] by (simp add: no_nul_def is_ws_def)
qed

end
