(* ===== verification/Httpcomm.thy ===== *)
theory Httpcomm
  imports Hpack Stdmap Strutil "HOL-Library.Char_ord" "HOL-Library.List_Lexorder"
begin

section \<open>Response headers\<close>

text \<open>
  \<open>CHttpResponseHdr\<close> (httpcomm.h, httpcomm.cpp): the status, the fields, the default page and the
  text of a response header, which is made anew only when a field was set since. A member
  the constructor leaves alone is \<open>None\<close>, and reading it then has no defined meaning. The date of now is
  a parameter.
\<close>

subsection \<open>Status\<close>

datatype Http_StatsCode =
    SC100 | SC101 | SC102 | SC200 | SC201 | SC202 | SC203 | SC204 | SC205 | SC206 | SC207
  | SC300 | SC301 | SC302 | SC303 | SC304 | SC305 | SC306 | SC307
  | SC400 | SC401 | SC402 | SC403 | SC404 | SC405 | SC406 | SC407 | SC408 | SC409 | SC410 | SC411 | SC412
  | SC413 | SC414 | SC415 | SC416 | SC417 | SC422 | SC423 | SC424
  | SC500 | SC501 | SC502 | SC503 | SC504 | SC505 | SC507

definition HttpStatusText :: "(Http_StatsCode \<times> string \<times> string) list" where
  "HttpStatusText =
     [(SC100, ''100'', ''Continue''), (SC101, ''101'', ''Switching Protocols''), (SC102, ''102'', ''Processing''),
      (SC200, ''200'', ''OK''), (SC201, ''201'', ''Created''), (SC202, ''202'', ''Accepted''),
      (SC203, ''203'', ''Non-Authoriative Information''), (SC204, ''204'', ''No Content''), (SC205, ''205'', ''Reset Content''),
      (SC206, ''206'', ''Partial Content''), (SC207, ''207'', ''Multi-Status''), (SC300, ''300'', ''Multiple Choices''),
      (SC301, ''301'', ''Moved Permanently''), (SC302, ''302'', ''Found''), (SC303, ''303'', ''See Other''),
      (SC304, ''304'', ''Not Modified''), (SC305, ''305'', ''Use Proxy''), (SC306, ''306'', ''(Unused)''),
      (SC307, ''307'', ''Temporary Redirect''), (SC400, ''400'', ''Bad Request''), (SC401, ''401'', ''Unauthorized''),
      (SC402, ''402'', ''Payment Granted''), (SC403, ''403'', ''Forbidden''), (SC404, ''404'', ''File Not Found''),
      (SC405, ''405'', ''Method Not Allowed''), (SC406, ''406'', ''Not Acceptable''),
      (SC407, ''407'', ''Proxy Authentication Required''), (SC408, ''408'', ''Request Time-out''), (SC409, ''409'', ''Conflict''),
      (SC410, ''410'', ''Gone''), (SC411, ''411'', ''Length Required''), (SC412, ''412'', ''Precondition Failed''),
      (SC413, ''413'', ''Request Entity Too Large''), (SC414, ''414'', ''Request-URI Too Large''),
      (SC415, ''415'', ''Unsupported Media Type''), (SC416, ''416'', ''Requested range not satisfiable''),
      (SC417, ''417'', ''Expectation Failed''), (SC422, ''422'', ''Unprocessable Entity''), (SC423, ''423'', ''Locked''),
      (SC424, ''424'', ''Failed Dependency''), (SC500, ''500'', ''Internal Server Error''), (SC501, ''501'', ''Not Implemented''),
      (SC502, ''502'', ''Bad Gateway''), (SC503, ''503'', ''Service Unavailable''), (SC504, ''504'', ''Gateway Timeout''),
      (SC505, ''505'', ''HTTP Version Not Supported''), (SC507, ''507'', ''Insufficient Storage'')]"

definition status_text :: "Http_StatsCode \<Rightarrow> string \<times> string" where
  "status_text sc = the (map_of HttpStatusText sc)"

subsection \<open>The header\<close>

record CHttpResponseHdr =
  m_mapHeader :: "(string, string) stdmap"
  m_StatusCode :: "Http_StatsCode option"
  m_strHeader :: string
  m_strUserDefined :: string
  m_strDefaultHTML :: string
  m_isHdrUpdated :: "bool option"

definition default_fields :: "string \<Rightarrow> (string, string) stdmap" where
  "default_fields strDate = fold (\<lambda>(k, v) m. mput k v m)
     ([(k, []). k \<leftarrow> [''Accept-Ranges'', ''Access-Control-Allow-Origin'', ''Accept-Patch'', ''Age'', ''Allow'', ''Cache-Control'',
        ''Connection'', ''Content-Disposition'', ''Content-Encoding'', ''Content-Language'', ''Content-Length'', ''Content-Location'',
        ''Content-MD5'', ''Content-Range'', ''Content-Type'']] @ [(''Date'', strDate)] @
      [(k, []). k \<leftarrow> [''ETag'', ''Expires'', ''Last-Modified'', ''Link'', ''Location'', ''P3P'', ''Pragma'', ''Proxy-Authenticate'',
        ''Public-Key-Pins'', ''Refresh'', ''Retry-After'']] @ [(''Server'', ''Heaphttpd/1.1'')] @
      [(k, []). k \<leftarrow> [''Set-Cookie'', ''Strict-Transport-Security'', ''Trailer'', ''Transfer-Encoding'', ''Upgrade'', ''Vary'', ''Via'',
        ''Warning'', ''WWW-Authenticate'', ''X-Frame-Options'', ''X-Powered-By'']]) []"

definition new_response_hdr :: "string \<Rightarrow> CHttpResponseHdr" where
  "new_response_hdr strDate =
     \<lparr> m_mapHeader = default_fields strDate, m_StatusCode = None, m_strHeader = [], m_strUserDefined = [], m_strDefaultHTML = [],
       m_isHdrUpdated = Some True \<rparr>"

text \<open>The constructor from a map calls the other one for a temporary object only.\<close>

definition copied_response_hdr :: "(string, string) stdmap option \<Rightarrow> CHttpResponseHdr" where
  "copied_response_hdr map_header =
     \<lparr> m_mapHeader = (case map_header of None \<Rightarrow> [] | Some m \<Rightarrow> fold (\<lambda>(k, v) m. mput k v m) m []), m_StatusCode = None,
       m_strHeader = [], m_strUserDefined = [], m_strDefaultHTML = [], m_isHdrUpdated = None \<rparr>"

definition field :: "string \<Rightarrow> CHttpResponseHdr \<Rightarrow> string" where
  "field label r = (case mfind (m_mapHeader r) (cstr label) of None \<Rightarrow> [] | Some v \<Rightarrow> v)"

definition default_page :: "string \<Rightarrow> Http_StatsCode \<Rightarrow> string \<Rightarrow> string" where
  "default_page strDate StatusCode location =
     (let (sc, txt) = status_text StatusCode
      in ''<HTML><HEAD><TITLE>'' @ sc @ ''-'' @ txt @ ''</TITLE></HEAD><BODY><H1>'' @ sc @ '' - '' @ txt @ ''</H1><HR>'' @ strDate @
        (if StatusCode = SC301 \<and> location \<noteq> [] then
           ''<p>Moved to <a href='' @ [CHR 0x22] @ location @ [CHR 0x22] @ ''>'' @ location @ ''</a></p>'' @
           ''<script language='' @ [CHR 0x22] @ ''JavaScript'' @ [CHR 0x22] @ ''> window.location.href = '' @ [CHR 0x22] @ location @
           [CHR 0x22] @ ''; </script>'' else []) @
        ''<p><i>This default page is generated by Heaphttpd/1.1.</i></p></BODY></HTML>'')"

text \<open>Asking for a field that is not there makes it, empty.\<close>

definition SetStatusCode :: "string \<Rightarrow> Http_StatsCode \<Rightarrow> CHttpResponseHdr \<Rightarrow> CHttpResponseHdr" where
  "SetStatusCode strDate StatusCode r =
     (let m = (if StatusCode = SC200 then mput ''Accept-Ranges'' ''bytes'' (m_mapHeader r) else m_mapHeader r);
          r = r\<lparr> m_mapHeader := m, m_StatusCode := Some StatusCode \<rparr>;
          location = field ''Location'' r;
          r = (if StatusCode = SC301 \<and> mfind m ''Location'' = None then r\<lparr> m_mapHeader := mput ''Location'' [] m \<rparr> else r)
      in r\<lparr> m_strDefaultHTML := default_page strDate StatusCode location \<rparr>)"

definition SetStatusCode_str :: "string \<Rightarrow> string \<Rightarrow> CHttpResponseHdr \<Rightarrow> CHttpResponseHdr" where
  "SetStatusCode_str strDate StrStatusCode r =
     SetStatusCode strDate
       (case List.find (\<lambda>(_, sc, _). take 3 sc = take 3 (cstr StrStatusCode)) HttpStatusText of
          Some (sc, _) \<Rightarrow> sc | None \<Rightarrow> SC200) r"

definition SetResponseField :: "string \<Rightarrow> string \<Rightarrow> string \<Rightarrow> CHttpResponseHdr \<Rightarrow> CHttpResponseHdr outcome" where
  "SetResponseField strDate label v r =
     (let r = r\<lparr> m_mapHeader := mput (cstr label) (cstr v) (m_mapHeader r), m_isHdrUpdated := Some True \<rparr>
      in if strcaseeq label ''Location'' then map_option (\<lambda>sc. SetStatusCode strDate sc r) (m_StatusCode r) else Some r)"

fun nat_dec :: "nat \<Rightarrow> string" where
  "nat_dec n = (if n < 10 then [char_of (48 + n)] else nat_dec (n div 10) @ [char_of (48 + n mod 10)])"

declare nat_dec.simps [simp del]

definition lld :: "int \<Rightarrow> string" where
  "lld n = (if n < 0 then ''-'' @ nat_dec (nat (- n)) else nat_dec (nat n))"

definition SetResponseField_num :: "string \<Rightarrow> int \<Rightarrow> CHttpResponseHdr \<Rightarrow> CHttpResponseHdr" where
  "SetResponseField_num label n r = r\<lparr> m_mapHeader := mput (cstr label) (lld n) (m_mapHeader r), m_isHdrUpdated := Some True \<rparr>"

definition SetFields :: "string \<Rightarrow> CHttpResponseHdr \<Rightarrow> CHttpResponseHdr" where
  "SetFields txt r = r\<lparr> m_strUserDefined := m_strUserDefined r @ cstr txt, m_isHdrUpdated := Some True \<rparr>"

definition header_end :: string where
  "header_end = [CHR 0x0D, CHR 0x0A]"

definition status_line :: "Http_StatsCode \<Rightarrow> string" where
  "status_line sc = ''HTTP/1.1 '' @ fst (status_text sc) @ '' '' @ snd (status_text sc)"

definition field_lines :: "(string, string) stdmap \<Rightarrow> string list" where
  "field_lines m = map (\<lambda>(k, v). k @ '': '' @ v) (filter (\<lambda>(_, v). v \<noteq> []) m)"

definition update_header :: "CHttpResponseHdr \<Rightarrow> CHttpResponseHdr outcome" where
  "update_header r = do {
     updated \<leftarrow> m_isHdrUpdated r;
     if updated then do {
       sc \<leftarrow> m_StatusCode r;
       Some (r\<lparr> m_strHeader := concat (map (\<lambda>l. l @ header_end) (status_line sc # field_lines (m_mapHeader r))) @ m_strUserDefined r,
         m_isHdrUpdated := Some False \<rparr>)
     } else Some r
   }"

definition Text_hdr :: "CHttpResponseHdr \<Rightarrow> (string \<times> CHttpResponseHdr) outcome" where
  "Text_hdr r = map_option (\<lambda>r. (cstr (m_strHeader r), r)) (update_header r)"

definition Length_hdr :: "CHttpResponseHdr \<Rightarrow> (nat \<times> CHttpResponseHdr) outcome" where
  "Length_hdr r = map_option (\<lambda>r. (length (m_strHeader r), r)) (update_header r)"

definition GetDefaultHTML :: "CHttpResponseHdr \<Rightarrow> string" where
  "GetDefaultHTML r = m_strDefaultHTML r"

subsection \<open>What the peer reads\<close>

definition line_ok :: "string \<Rightarrow> bool" where
  "line_ok s \<longleftrightarrow> NUL \<notin> set s \<and> CHR 0x0A \<notin> set s"

lemma header_lines_line:
  "line_ok l \<Longrightarrow> header_lines tok ((l @ header_end) @ rest) = (tok @ l @ [CHR 0x0D]) # header_lines [] rest"
  by (induction l arbitrary: tok) (auto simp: header_end_def line_ok_def)

lemma header_lines_concat:
  "list_all line_ok ls \<Longrightarrow>
   header_lines [] (concat (map (\<lambda>l. l @ header_end) ls) @ rest) = map (\<lambda>l. l @ [CHR 0x0D]) ls @ header_lines [] rest"
proof (induction ls)
  case (Cons l ls)
  then show ?case
    using header_lines_line [of l "[]" "concat (map (\<lambda>l. l @ header_end) ls) @ rest"] by simp
qed simp

lemma status_line_ok: "line_ok (status_line sc)"
proof -
  have "list_all (\<lambda>(x, a, b). line_ok (''HTTP/1.1 '' @ a @ '' '' @ b)) HttpStatusText"
    by code_simp
  moreover have "\<exists>a b. (sc, a, b) \<in> set HttpStatusText"
    by (cases sc) (simp_all add: HttpStatusText_def)
  moreover have "distinct (map fst HttpStatusText)"
    by code_simp
  ultimately show ?thesis
    by (auto simp: status_line_def status_text_def list_all_iff)
qed

definition fields_ok :: "(string, string) stdmap \<Rightarrow> bool" where
  "fields_ok m \<longleftrightarrow> list_all (\<lambda>(k, v). line_ok k \<and> line_ok v) m"

lemma field_lines_ok: "fields_ok m \<Longrightarrow> list_all line_ok (field_lines m)"
  by (induction m) (auto simp: fields_ok_def field_lines_def line_ok_def)

text \<open>
  the header text is made of the status and the fields. When a field was set, \<open>Text\<close> with the line break
  the sender adds has exactly these lines: the status, and, in the order of the names, every field that
  has a value; and asking again gives the same text.
\<close>

theorem response_text:
  assumes "m_StatusCode r = Some sc" and "m_isHdrUpdated r = Some True" and "fields_ok (m_mapHeader r)" and "m_strUserDefined r = []"
  shows "\<exists>txt r'. Text_hdr r = Some (txt, r') \<and> Text_hdr r' = Some (txt, r') \<and> Length_hdr r' = Some (length txt, r') \<and>
    header_lines [] (txt @ header_end) =
      map (\<lambda>l. l @ [CHR 0x0D]) (status_line sc # field_lines (m_mapHeader r) @ [[]])"
proof -
  let ?ls = "status_line sc # field_lines (m_mapHeader r)"
    and ?hdr = "concat (map (\<lambda>l. l @ header_end) (status_line sc # field_lines (m_mapHeader r)))"
  have ok: "list_all line_ok ?ls"
    using status_line_ok field_lines_ok [OF assms(3)] by simp
  define hdr where "hdr = ?hdr"
  have "no_nul hdr"
    using ok unfolding hdr_def by (auto simp: list_all_iff line_ok_def no_nul_def header_end_def)
  then have t: "cstr hdr = hdr"
    by simp
  have u: "update_header r = Some (r\<lparr> m_strHeader := hdr, m_isHdrUpdated := Some False \<rparr>)"
    using assms(1,2,4) by (simp add: update_header_def hdr_def)
  have "header_lines [] (hdr @ header_end) = map (\<lambda>l. l @ [CHR 0x0D]) (?ls @ [[]])"
    using header_lines_concat [OF ok, of header_end] unfolding hdr_def by (simp add: header_end_def)
  then show ?thesis
    by (simp add: Text_hdr_def Length_hdr_def u t) (simp add: update_header_def t)
qed

theorem response_text_witness:
  "\<exists>txt r'. Text_hdr (SetResponseField_num ''Content-Length'' 5 (SetStatusCode [] SC404 (copied_response_hdr None))) = Some (txt, r') \<and>
    header_lines [] (txt @ header_end) =
      map (\<lambda>l. l @ [CHR 0x0D]) (status_line SC404 # field_lines [(''Content-Length'', ''5'')] @ [[]])"
proof -
  let ?r = "SetResponseField_num ''Content-Length'' 5 (SetStatusCode [] SC404 (copied_response_hdr None))"
  have m: "m_mapHeader ?r = [(''Content-Length'', ''5'')]"
  proof -
    have "nat_dec 5 = ''5''"
      by code_simp
    then show ?thesis
      by (simp add: SetResponseField_num_def SetStatusCode_def copied_response_hdr_def Let_def lld_def no_nul_def)
  qed
  have "m_StatusCode ?r = Some SC404" "m_isHdrUpdated ?r = Some True" "fields_ok (m_mapHeader ?r)" "m_strUserDefined ?r = []"
    unfolding m by (simp_all add: SetResponseField_num_def SetStatusCode_def copied_response_hdr_def Let_def fields_ok_def line_ok_def)
  from response_text [OF this] show ?thesis
    unfolding m by blast
qed

text \<open>
  a status set after the text was asked for is not in it. Setting a status changes the default page but does not
  mark the text as old.
\<close>

theorem status_stale:
  assumes "Text_hdr r = Some (txt, r')"
  shows "\<exists>r2. Text_hdr (SetStatusCode strDate sc r') = Some (txt, r2) \<and> m_StatusCode r2 = Some sc"
proof -
  obtain u where u: "update_header r = Some u" "txt = cstr (m_strHeader u)" "r' = u"
    using assms by (auto simp: Text_hdr_def)
  then have "m_isHdrUpdated u = Some False"
    by (auto simp: update_header_def split: bind_split_asm if_splits)
  then show ?thesis
    using u by (simp add: Text_hdr_def update_header_def SetStatusCode_def Let_def)
qed

theorem status_stale_witness:
  "\<exists>r2. Text_hdr (SetStatusCode [] SC404 (snd (the (Text_hdr (SetStatusCode [] SC302 (new_response_hdr [])))))) =
      Some (fst (the (Text_hdr (SetStatusCode [] SC302 (new_response_hdr [])))), r2) \<and> m_StatusCode r2 = Some SC404"
proof -
  have "\<exists>x. Text_hdr (SetStatusCode [] SC302 (new_response_hdr [])) = Some x"
    by (simp add: Text_hdr_def update_header_def SetStatusCode_def new_response_hdr_def Let_def)
  then have "Text_hdr (SetStatusCode [] SC302 (new_response_hdr [])) =
      Some (fst (the (Text_hdr (SetStatusCode [] SC302 (new_response_hdr [])))), snd (the (Text_hdr (SetStatusCode [] SC302 (new_response_hdr [])))))"
    by (elim exE) (simp only: option.sel prod.collapse)
  then show ?thesis
    by (rule status_stale)
qed

lemma digits_nat_dec: "digits_value acc (nat_dec n @ s) = digits_value (acc * 10 ^ length (nat_dec n) + n) s"
proof (induction n arbitrary: acc s rule: nat_dec.induct)
  case (1 n)
  have d: "digits_value a (char_of (48 + k) # s) = digits_value (10 * a + k) s" if "k < 10" for a k s
    using that by (simp add: less_eq_char_def of_char_of)
  show ?case
  proof (cases "n < 10")
    case True
    then show ?thesis
      using d [of n acc s] by (subst (1 2) nat_dec.simps) (simp add: mult.commute del: digits_value.simps)
  next
    case False
    then have "nat_dec n = nat_dec (n div 10) @ [char_of (48 + n mod 10)]"
      by (subst nat_dec.simps) simp
    moreover have "10 * (acc * 10 ^ length (nat_dec (n div 10)) + n div 10) + n mod 10 =
        acc * 10 ^ Suc (length (nat_dec (n div 10))) + n"
      by (simp add: algebra_simps)
    ultimately show ?thesis
      using 1 [OF False, of acc "char_of (48 + n mod 10) # s"] d [of "n mod 10"]
      by (simp add: algebra_simps del: digits_value.simps)
  qed
qed

lemma nat_dec_first: "\<exists>c cs. nat_dec n = c # cs \<and> CHR ''0'' \<le> c \<and> c \<le> CHR ''9''"
proof (induction n rule: nat_dec.induct)
  case (1 n)
  then show ?case
    by (cases "n < 10"; subst nat_dec.simps) (auto simp: less_eq_char_def of_char_of)
qed

text \<open>
  a number set as a field is read back. What \<open>GetField\<close> and \<open>atoi\<close> make of a field set from a number is this number,
  whatever its sign and length.
\<close>

theorem numeric_field_round_trip: "atoi (field label (SetResponseField_num label n r)) = n"
proof -
  have v: "field label (SetResponseField_num label n r) = lld n"
    by (simp add: field_def SetResponseField_num_def)
  have d: "digits_value 0 (nat_dec k) = k" for k
    using digits_nat_dec [of 0 k "[]"] by simp
  obtain c cs where c: "nat_dec (nat n) = c # cs" "CHR ''0'' \<le> c" "c \<le> CHR ''9''"
    using nat_dec_first by blast
  then have "\<not> is_ws c" "c \<noteq> CHR 0x0B" "c \<noteq> CHR 0x0C" "c \<noteq> CHR ''-''" "c \<noteq> CHR ''+''"
    by (auto simp: is_ws_def less_eq_char_def)
  then show ?thesis
    unfolding v using d [of "nat n"] d [of "nat (- n)"] c(1) by (auto simp: atoi_def lld_def is_ws_def)
qed

end
