(* ===== verification/Http1engine.thy ===== *)
theory Http1engine
  imports Http1ops Httpcomm Http2parse
begin

section \<open>The HTTP/1.1 engine\<close>

text \<open>
  The object \<open>CHttp\<close> around its parser (http.h, http.cpp) in the asynchronous build: the buffers between the
  socket and the engine, the body, the replies, and the states a request goes through from its header to
  the end of the response. Parameters are the extensions, the document (\<open>Htdoc::Response\<close>), the tunnel to a server behind, and the
  values made of the time and random numbers. Without TLS a call of \<open>send\<close> for no octets returns 0.
\<close>

subsection \<open>State\<close>

datatype send_event = Sent nat | Send_again | Send_failed

record engine =
  m_req :: CHttp
  m_enabled_keep_alive :: bool
  m_wwwauth_scheme :: AUTH_SCHEME
  m_proxyauth_scheme :: AUTH_SCHEME
  m_response_header :: CHttpResponseHdr
  m_set_cookies :: "(string, string) stdmap"
  m_session_var_uid :: string
  GET_VARS :: "bytes \<rightharpoonup> bytes"
  POST_VARS :: "bytes \<rightharpoonup> bytes"
  COOKIE_VARS :: "bytes \<rightharpoonup> bytes"
  m_cgi_data :: bytes
  m_http_doc :: bool
  m_is_http2 :: bool
  h2_calls :: "h1_call list"
  m_recv_buf :: bytes
  m_send_buf :: bytes
  epoll_out :: bool
  sock_in :: "recv_event list"
  sock_send :: "send_event list"
  sock_out :: bytes

record engine_env =
  parse_env :: http_env
  now_date :: string
  digest_nonce :: string
  digest_opaque :: "string \<Rightarrow> string"
  m_enable_http_tunneling :: bool
  ext_request :: "(engine \<Rightarrow> engine \<times> bool) option list"
  ext_response :: "(engine \<Rightarrow> engine) option list"
  ext_finish :: "(engine \<Rightarrow> engine) option list"
  ext_tunneling :: "(engine \<Rightarrow> engine \<times> bool) option list"
  doc_response :: "engine \<Rightarrow> engine \<times> bool"
  tunnel_processing :: "engine \<Rightarrow> engine \<times> bool"

text \<open>The number of a state, by which states are compared.\<close>

definition state_no :: "Http_State \<Rightarrow> nat" where
  "state_no st = (case st of
     httpReqHeader \<Rightarrow> 0 | httpReqData \<Rightarrow> 1 | httpAuthentication \<Rightarrow> 2 | httpResponse \<Rightarrow> 3 | httpResponding \<Rightarrow> 4
   | httpRespondingExtensionComplete1 \<Rightarrow> 5 | httpRespondingExtensionComplete2 \<Rightarrow> 6 | httpRespondingDocComplete \<Rightarrow> 7
   | httpResponseComplete \<Rightarrow> 8 | httpTunnling \<Rightarrow> 9 | httpTunnlingRelaying \<Rightarrow> 10 | httpTunnlingComplete \<Rightarrow> 11 | httpComplete \<Rightarrow> 12)"

definition http_state :: "engine \<Rightarrow> Http_State" where
  "http_state e = m_http_state (m_req e)"

definition to_state :: "Http_State \<Rightarrow> engine \<Rightarrow> engine" where
  "to_state st e = e\<lparr> m_req := (m_req e)\<lparr> m_http_state := st \<rparr> \<rparr>"

text \<open>The constructor: whether the connection may stay open depends on the requests and the time that are left.\<close>

definition keep_alive_left :: "u32 \<Rightarrow> int \<Rightarrow> int \<Rightarrow> bool" where
  "keep_alive_left tickets timeout age \<longleftrightarrow> \<not> (tickets = 1 \<or> timeout = 0 \<or> age \<ge> timeout)"

definition new_engine :: "engine_env \<Rightarrow> u32 \<Rightarrow> int \<Rightarrow> int \<Rightarrow> string \<Rightarrow> u16 \<Rightarrow> string \<Rightarrow> AUTH_SCHEME \<Rightarrow> AUTH_SCHEME \<Rightarrow> bool \<Rightarrow> engine" where
  "new_engine env tickets timeout age servername serverport clientip wwwauth proxyauth http2 =
     (let keep_alive = keep_alive_left tickets timeout age
      in \<lparr> m_req = new_CHttp keep_alive servername serverport clientip, m_enabled_keep_alive = keep_alive,
           m_wwwauth_scheme = wwwauth, m_proxyauth_scheme = proxyauth,
           m_response_header = (let h = new_response_hdr (now_date env)
             in if keep_alive then h else h\<lparr> m_mapHeader := mput ''Connection'' ''keep-alive, close'' (m_mapHeader h) \<rparr>),
           m_set_cookies = [], m_session_var_uid = [], GET_VARS = Map.empty, POST_VARS = Map.empty, COOKIE_VARS = Map.empty,
           m_cgi_data = [], m_http_doc = False, m_is_http2 = http2, h2_calls = [], m_recv_buf = [], m_send_buf = [], epoll_out = False,
           sock_in = [], sock_send = [], sock_out = [] \<rparr>)"

subsection \<open>The buffers\<close>

text \<open>What \<open>AsyncSend\<close> does after its loop: the socket is watched for output as long as something waits.\<close>

definition watch :: "engine \<Rightarrow> engine" where
  "watch e = e\<lparr> epoll_out := (m_send_buf e \<noteq> []) \<rparr>"

primrec send_loop :: "send_event list \<Rightarrow> engine \<Rightarrow> int \<times> engine" where
  "send_loop [] e = (if m_send_buf e = [] then (-1, e\<lparr> sock_send := [] \<rparr>) else (0, watch (e\<lparr> sock_send := [] \<rparr>)))"
| "send_loop (ev # evs) e =
     (if m_send_buf e = [] then (-1, e\<lparr> sock_send := ev # evs \<rparr>)
      else case ev of
        Sent n \<Rightarrow> send_loop evs (e\<lparr> sock_out := sock_out e @ take (max 1 n) (m_send_buf e), m_send_buf := drop (max 1 n) (m_send_buf e) \<rparr>)
      | Send_again \<Rightarrow> (0, watch (e\<lparr> sock_send := evs \<rparr>))
      | Send_failed \<Rightarrow> (-1, watch (e\<lparr> sock_send := evs \<rparr>)))"

definition AsyncSend :: "engine \<Rightarrow> int \<times> engine" where
  "AsyncSend e = (if m_send_buf e = [] then (0, e) else send_loop (sock_send e) e)"

definition AsyncHttpFlush :: "engine \<Rightarrow> nat \<times> engine" where
  "AsyncHttpFlush e = (let e = (if m_send_buf e \<noteq> [] then snd (AsyncSend e) else e) in (length (m_send_buf e), e))"

definition AsyncHttpSend :: "bytes \<Rightarrow> engine \<Rightarrow> engine" where
  "AsyncHttpSend buf e = (if buf \<noteq> [] then snd (AsyncSend (e\<lparr> m_send_buf := m_send_buf e @ buf \<rparr>)) else e)"

primrec recv_events :: "recv_event list \<Rightarrow> engine \<Rightarrow> int \<times> engine" where
  "recv_events [] e = (0, e\<lparr> sock_in := [] \<rparr>)"
| "recv_events (ev # evs) e = (case ev of
     Chunk b \<Rightarrow> if b = [] then (-1, e\<lparr> sock_in := evs \<rparr>) else recv_events evs (e\<lparr> m_recv_buf := m_recv_buf e @ b \<rparr>)
   | Would_block \<Rightarrow> (0, e\<lparr> sock_in := evs \<rparr>)
   | Recv_failed \<Rightarrow> (-1, e\<lparr> sock_in := evs \<rparr>))"

definition Http1_AsyncRecv :: "engine \<Rightarrow> int \<times> engine" where
  "Http1_AsyncRecv e = recv_events (sock_in e) e"

definition AsyncHttpRecv :: "nat \<Rightarrow> engine \<Rightarrow> bytes \<times> engine" where
  "AsyncHttpRecv len e = (take len (m_recv_buf e), e\<lparr> m_recv_buf := drop len (m_recv_buf e) \<rparr>)"

text \<open>A line with its line feed, or as much of it as the caller has room for.\<close>

definition AsyncProtRecv :: "nat \<Rightarrow> engine \<Rightarrow> bytes \<times> engine" where
  "AsyncProtRecv len e =
     (let line = length (takeWhile (\<lambda>b. b \<noteq> 0x0A) (m_recv_buf e));
          n = (if line < length (m_recv_buf e) then min len (Suc line) else min len (length (m_recv_buf e)))
      in (take n (m_recv_buf e), e\<lparr> m_recv_buf := drop n (m_recv_buf e) \<rparr>))"

subsection \<open>The body\<close>

text \<open>The rest of a form, or of a form with files piece by piece; nothing is taken of a form of 4 MiB and more.\<close>

function multipart_loop :: "nat \<Rightarrow> bytes \<Rightarrow> engine \<Rightarrow> bytes \<times> engine" where
  "multipart_loop content_length data e =
     (let (rbuf, e') = AsyncHttpRecv (min 4095 (content_length - length data)) e
      in if rbuf = [] then (data, e') else multipart_loop content_length (data @ rbuf) e')"
  by pat_completeness auto
termination
  by (relation "measure (\<lambda>(n, data, e). length (m_recv_buf e))") (auto simp: AsyncHttpRecv_def)

declare multipart_loop.simps [simp del]

definition AsyncRecvPostData :: "engine \<Rightarrow> engine" where
  "AsyncRecvPostData e =
     (let c = m_req e; len = m_content_length c in
      if len > 0 then
        (if m_content_type c = application_x_www_form_urlencoded then
           if len < int MAX_APPLICATION_X_WWW_FORM_URLENCODED_LEN then
             let (post_data, e) = AsyncHttpRecv (nat (len - int (length (m_postdata c)))) e;
                 c = c\<lparr> m_postdata := m_postdata c @ cstr (of_bytes post_data) \<rparr>;
                 e = e\<lparr> m_req := c \<rparr>
             in if int (length (m_postdata c)) = len then to_state httpAuthentication e else e
           else e
         else
           let (data, e) = multipart_loop (nat len) (case m_postdata_ex c of None \<Rightarrow> [] | Some b \<Rightarrow> b) e;
               e = e\<lparr> m_req := (m_req e)\<lparr> m_postdata_ex := Some data \<rparr> \<rparr>
           in if int (length data) = len then to_state httpAuthentication e else e)
      else if len = 0 then to_state httpAuthentication e else e)"


subsection \<open>Replies\<close>

definition HttpSend1 :: "bytes \<Rightarrow> engine \<Rightarrow> engine" where
  "HttpSend1 buf e = AsyncHttpSend buf e"

definition cookie_lines :: "(string, string) stdmap \<Rightarrow> string" where
  "cookie_lines m = concat (map (\<lambda>(_, v). if v \<noteq> [] then ''Set-Cookie: '' @ v @ CRLF else []) m)"

definition SendHeader1 :: "string \<Rightarrow> engine \<Rightarrow> engine" where
  "SendHeader1 buf e =
     (let strHeader = cstr buf @ cookie_lines (m_set_cookies e) @
            (if m_session_var_uid e \<noteq> [] then ''Set-Cookie: __heaphttpd_session__='' @ m_session_var_uid e @ CRLF else []) @ CRLF
      in if m_is_http2 e then e\<lparr> h2_calls := h2_calls e @ [SendHeader strHeader] \<rparr>
         else HttpSend1 (to_bytes strHeader)
           (if find_sub (CRLF @ ''Content-Length:'') (cstr strHeader) = None
            then e\<lparr> m_req := (m_req e)\<lparr> m_keep_alive := False \<rparr> \<rparr> else e))"

definition SendContent1 :: "bytes \<Rightarrow> engine \<Rightarrow> engine" where
  "SendContent1 buf e = (if m_is_http2 e then e\<lparr> h2_calls := h2_calls e @ [SendContent buf] \<rparr> else HttpSend1 buf e)"

text \<open>The page of a status, with one more field for the two authentications, and the end of the request.\<close>

definition default_reply :: "engine_env \<Rightarrow> Http_StatsCode \<Rightarrow> (string \<times> string) list \<Rightarrow> engine \<Rightarrow> engine outcome" where
  "default_reply env sc fs e = do {
     let header = SetStatusCode (now_date env) sc (copied_response_hdr (Some (m_mapHeader (m_response_header e))));
     header \<leftarrow> fold (\<lambda>(k, v) h. do { h \<leftarrow> h; SetResponseField (now_date env) k v h }) (fs @ [(''Content-Type'', ''text/html'')]) (Some header);
     let header = SetResponseField_num ''Content-Length'' (int (length (GetDefaultHTML header))) header;
     (txt, header) \<leftarrow> Text_hdr header;
     Some (SendContent1 (to_bytes (GetDefaultHTML header)) (SendHeader1 txt e))
   }"

definition reply_done :: "engine_env \<Rightarrow> Http_StatsCode \<Rightarrow> engine \<Rightarrow> engine outcome" where
  "reply_done env sc e = map_option (to_state httpComplete) (default_reply env sc [] e)"

subsection \<open>The response\<close>

text \<open>The variables of the query, of the form and of the cookies, and what a CGI program is given.\<close>

definition session_var :: bytes where
  "session_var = to_bytes ''__heaphttpd_session__''"

definition request_vars :: "engine \<Rightarrow> engine outcome" where
  "request_vars e = do {
     let c = m_req e;
     gv \<leftarrow> NIU_POST_GET_VARS (to_bytes (cstr (m_querystring c)));
     pv \<leftarrow> NIU_POST_GET_VARS (to_bytes (cstr (m_postdata c)));
     let cv = COOKIE_VARS e ++ NIU_COOKIE_VARS (to_bytes (cstr (m_cookie c)));
     Some (e\<lparr> GET_VARS := GET_VARS e ++ gv, POST_VARS := POST_VARS e ++ pv, COOKIE_VARS := cv,
              m_session_var_uid := (case cv session_var of None \<Rightarrow> m_session_var_uid e | Some uid \<Rightarrow> of_bytes uid) \<rparr>)
   }"

definition cgi_data :: "engine \<Rightarrow> engine outcome" where
  "cgi_data e = do {
     let c = m_req e;
     buf \<leftarrow> (if m_content_type c = multipart_form_data then m_postdata_ex c else Some (to_bytes (m_postdata c)));
     Some (e\<lparr> m_cgi_data := buf, m_req := SetMeta ''CONTENT_LENGTH'' (lld (int (length (m_postdata c)))) c \<rparr>)
   }"

text \<open>The hooks of the extensions, in their order; a library without the function is passed over.\<close>

primrec request_hooks :: "(engine \<Rightarrow> engine \<times> bool) option list \<Rightarrow> bool \<Rightarrow> engine \<Rightarrow> engine \<times> bool" where
  "request_hooks [] skip e = (e, skip)"
| "request_hooks (h # hs) skip e =
     (case h of None \<Rightarrow> request_hooks hs skip e | Some f \<Rightarrow> let (e, s) = f e in request_hooks hs (s \<or> skip) e)"

primrec run_hooks :: "(engine \<Rightarrow> engine) option list \<Rightarrow> engine \<Rightarrow> engine" where
  "run_hooks [] e = e"
| "run_hooks (h # hs) e = run_hooks hs (case h of None \<Rightarrow> e | Some f \<Rightarrow> f e)"

definition response_begin :: "engine \<Rightarrow> engine outcome" where
  "response_begin e =
     (if http_state e = httpResponse then do { e \<leftarrow> request_vars e; e \<leftarrow> cgi_data e; Some (to_state httpResponding e) }
      else Some e)"

definition response_request :: "engine_env \<Rightarrow> engine \<Rightarrow> engine \<times> bool" where
  "response_request env e =
     (if http_state e = httpResponding then
        let (e, skip) = request_hooks (ext_request env) False e in (to_state httpRespondingExtensionComplete1 e, skip)
      else (e, False))"

definition response_document :: "engine_env \<Rightarrow> engine \<Rightarrow> engine" where
  "response_document env e =
     (let e = (if http_state e = httpRespondingExtensionComplete1 then e\<lparr> m_http_doc := True \<rparr> else e);
          e = (if http_state e = httpRespondingExtensionComplete1
               then to_state httpRespondingExtensionComplete2 (run_hooks (ext_response env) e) else e)
      in if http_state e = httpRespondingExtensionComplete2 then
           let (e, complete) = doc_response env e in if complete then to_state httpRespondingDocComplete e else e
         else e)"

definition response_end :: "engine_env \<Rightarrow> engine \<Rightarrow> engine" where
  "response_end env e =
     (let e = (if http_state e = httpRespondingDocComplete \<and> m_is_http2 e
               then e\<lparr> h2_calls := h2_calls e @ [SendEmptyContent, SendPushPromiseResponses] \<rparr> else e);
          e = (if http_state e = httpRespondingDocComplete
               then to_state httpResponseComplete (run_hooks (ext_finish env) e) else e)
      in if http_state e = httpResponseComplete then e\<lparr> m_http_doc := False \<rparr> else e)"

definition Response1 :: "engine_env \<Rightarrow> engine \<Rightarrow> (int \<times> engine) outcome" where
  "Response1 env e = do {
     e \<leftarrow> response_begin e;
     let (e, skip) = response_request env e;
     Some (if skip then (-1, e) else (0, response_end env (response_document env e)))
   }"

definition Tunneling :: "engine_env \<Rightarrow> engine \<Rightarrow> (int \<times> engine) outcome" where
  "Tunneling env e = do {
     let (e, stopped) = (if http_state e = httpTunnling
        then let (e, stopped) = request_hooks (ext_tunneling env) False e in (to_state httpTunnlingRelaying e, stopped)
        else (e, False));
     if stopped then map_option (Pair (-1)) (reply_done env SC405 e)
     else if state_no httpTunnlingRelaying \<le> state_no (http_state e) then
       let (e, complete) = tunnel_processing env e in Some (0, if complete then to_state httpComplete e else e)
     else Some (0, e)
   }"

subsection \<open>The reply to a request\<close>

definition WWW_Realm :: string where "WWW_Realm = ''User or Administrator''"
definition Proxy_Realm :: string where "Proxy_Realm = ''Proxy User or Administrator''"

definition quoted :: "string \<Rightarrow> string" where
  "quoted s = [CHR 0x22] @ s @ [CHR 0x22]"

definition challenge :: "engine_env \<Rightarrow> AUTH_SCHEME \<Rightarrow> string \<Rightarrow> string" where
  "challenge env scheme realm = (case scheme of
     asBasic \<Rightarrow> ''Basic realm='' @ quoted realm
   | asDigest \<Rightarrow> ''Digest realm='' @ quoted realm @ '', qop='' @ quoted ''auth,auth-int'' @ '', nonce='' @ quoted (digest_nonce env) @
       '', opaque='' @ quoted (digest_opaque env realm)
   | asNone \<Rightarrow> [])"

definition responding :: "engine \<Rightarrow> bool" where
  "responding e = (let s = state_no (http_state e) in state_no httpResponse \<le> s \<and> s \<le> state_no httpResponseComplete)"

definition tunnelling :: "engine \<Rightarrow> bool" where
  "tunnelling e = (let s = state_no (http_state e) in state_no httpTunnling \<le> s \<and> s \<le> state_no httpTunnlingComplete)"

text \<open>The first part: a reply that asks for credentials, or the state after authentication.\<close>

definition authenticate :: "engine_env \<Rightarrow> engine \<Rightarrow> (Http_Connection option \<times> engine) outcome" where
  "authenticate env e =
     (if http_state e = httpAuthentication then
        if m_http_tunneling_connection (m_req e) = HTTP_Tunneling_None then
          if (m_wwwauth_scheme e = asBasic \<or> m_wwwauth_scheme e = asDigest) \<and> \<not> m_passed_wwwauth (m_req e)
          then map_option (\<lambda>e. (Some httpContinue, to_state httpComplete e))
            (default_reply env SC401 [(''WWW-Authenticate'', challenge env (m_wwwauth_scheme e) WWW_Realm)] e)
          else Some (None, to_state httpResponse e)
        else
          if (m_proxyauth_scheme e = asBasic \<or> m_proxyauth_scheme e = asDigest) \<and> \<not> m_passed_proxyauth (m_req e)
          then map_option (\<lambda>e. (Some httpContinue, to_state httpComplete e))
            (default_reply env SC407 [(''Proxy-Authenticate'', challenge env (m_proxyauth_scheme e) Proxy_Realm)] e)
          else Some (None, to_state httpTunnling e)
      else Some (None, e))"

definition connection_after :: "engine \<Rightarrow> Http_Connection" where
  "connection_after e = (if m_keep_alive (m_req e) \<and> m_enabled_keep_alive e then httpKeepAlive else httpClose)"

definition reply_result :: "engine \<Rightarrow> Http_Connection \<times> engine" where
  "reply_result e = (if http_state e \<noteq> httpComplete then httpContinue else connection_after e, e)"

definition respond :: "engine_env \<Rightarrow> engine \<Rightarrow> (Http_Connection \<times> engine) outcome" where
  "respond env e =
     (if m_http_method (m_req e) = hmPut \<or> m_http_method (m_req e) = hmDelete
      then map_option (Pair httpClose) (reply_done env SC405 e)
      else do {
        (r, e) \<leftarrow> Response1 env e;
        if r < 0 then map_option (Pair httpClose) (reply_done env SC500 e)
        else if state_no (http_state e) < state_no httpResponseComplete then Some (httpContinue, e)
        else Some (reply_result (if http_state e = httpResponseComplete then to_state httpComplete e else e))
      })"

definition tunnel :: "engine_env \<Rightarrow> engine \<Rightarrow> (Http_Connection \<times> engine) outcome" where
  "tunnel env e =
     (let kind = m_http_tunneling_connection (m_req e)
      in if \<not> m_enable_http_tunneling env \<and> (kind = HTTP_Tunneling_Without_CONNECT \<or> kind = HTTP_Tunneling_Without_CONNECT_SSL)
         then map_option reply_result (reply_done env SC404 e)
         else if \<not> m_enable_http_tunneling env \<and> kind = HTTP_Tunneling_With_CONNECT
         then map_option reply_result (reply_done env SC405 e)
         else if m_enable_http_tunneling env \<and>
           (kind = HTTP_Tunneling_Without_CONNECT \<or> kind = HTTP_Tunneling_Without_CONNECT_SSL \<or> kind = HTTP_Tunneling_With_CONNECT)
         then do {
           (r, e) \<leftarrow> Tunneling env e;
           Some (if state_no (http_state e) < state_no httpComplete then (httpContinue, e) else reply_result e)
         }
         else map_option reply_result (reply_done env SC404 e))"

definition ResponseReply :: "engine_env \<Rightarrow> engine \<Rightarrow> (Http_Connection \<times> engine) outcome" where
  "ResponseReply env e = do {
     (r, e) \<leftarrow> authenticate env e;
     case r of
       Some conn \<Rightarrow> Some (conn, e)
     | None \<Rightarrow>
         if responding e \<or> tunnelling e then
           if m_http_tunneling_connection (m_req e) = HTTP_Tunneling_None then respond env e else tunnel env e
         else Some (reply_result e)
   }"

subsection \<open>A turn of the engine\<close>

definition DataParse :: "engine_env \<Rightarrow> engine \<Rightarrow> (Http_Connection \<times> engine) outcome" where
  "DataParse env e =
     (if http_state e = httpReqData then
        if m_content_length (m_req e) < 0 then map_option (Pair httpClose) (default_reply env SC411 [] e)
        else Some (httpContinue, AsyncRecvPostData e)
      else Some (httpContinue, e))"

function header_loop :: "engine_env \<Rightarrow> engine \<Rightarrow> Http_Connection \<Rightarrow> (Http_Connection \<times> engine) outcome" where
  "header_loop env e conn =
     (if http_state e \<noteq> httpReqHeader then Some (conn, e)
      else let (sz_http_data, e') = AsyncProtRecv 4095 e
        in if sz_http_data = [] then Some (httpContinue, e')
           else case LineParse (parse_env env) (Pair httpContinue) httpContinue (of_bytes sz_http_data) (m_req e') of
             None \<Rightarrow> None
           | Some (conn, c) \<Rightarrow> header_loop env (e'\<lparr> m_req := c \<rparr>) conn)"
  by pat_completeness auto
termination
  by (relation "measure (\<lambda>(env, e, conn). length (m_recv_buf e))") (auto simp: AsyncProtRecv_def Let_def split: if_splits)

declare header_loop.simps [simp del]

definition body_turn :: "engine_env \<Rightarrow> Http_Connection \<times> engine \<Rightarrow> (Http_Connection \<times> engine) outcome" where
  "body_turn env r = (let (conn, e) = r in
     if http_state e = httpReqData then
       if m_content_length (m_req e) > 0 then DataParse env e else Some (conn, to_state httpAuthentication e)
     else Some (conn, e))"

definition reply_turn :: "engine_env \<Rightarrow> Http_Connection \<times> engine \<Rightarrow> (Http_Connection \<times> engine) outcome" where
  "reply_turn env r = (let (conn, e) = r in
     if http_state e = httpAuthentication \<or> responding e \<or> tunnelling e then ResponseReply env e else Some (conn, e))"

definition flush_turn :: "Http_Connection \<times> engine \<Rightarrow> Http_Connection \<times> engine" where
  "flush_turn r = (let (conn, e) = r in
     if http_state e = httpComplete then
       let (left, e) = AsyncHttpFlush e in (if left = 0 then connection_after e else httpContinue, e)
     else (conn, e))"

definition Http1_AsyncProcessing :: "engine_env \<Rightarrow> engine \<Rightarrow> (Http_Connection \<times> engine) outcome" where
  "Http1_AsyncProcessing env e = do {
     r \<leftarrow> header_loop env e httpKeepAlive;
     r \<leftarrow> body_turn env r;
     r \<leftarrow> reply_turn env r;
     Some (flush_turn r)
   }"

text \<open>For the instances: a server without extensions whose documents are one word, and a new connection to it.\<close>

definition word_env :: engine_env where
  "word_env = \<lparr> parse_env = plain_env, now_date = ''now'', digest_nonce = ''n'', digest_opaque = (\<lambda>_. ''o''),
     m_enable_http_tunneling = False, ext_request = [None], ext_response = [], ext_finish = [], ext_tunneling = [],
     doc_response = (\<lambda>e. (SendContent1 [1, 2] e, True)), tunnel_processing = (\<lambda>e. (e, True)) \<rparr>"

definition word_engine :: "AUTH_SCHEME \<Rightarrow> engine" where
  "word_engine scheme = new_engine word_env 10 60 0 ''localhost'' 80 ''::1'' scheme scheme False"

lemma word_engine_simps [simp]:
  "http_state (word_engine s) = httpReqHeader" "m_wwwauth_scheme (word_engine s) = s" "m_proxyauth_scheme (word_engine s) = s"
  "\<not> m_passed_wwwauth (m_req (word_engine s))" "\<not> m_passed_proxyauth (m_req (word_engine s))"
  "m_send_buf (word_engine s) = []" "sock_out (word_engine s) = []" "m_recv_buf (word_engine s) = []" "\<not> m_is_http2 (word_engine s)"
  "m_postdata_ex (m_req (word_engine s)) = None" "m_line_text (m_req (word_engine s)) = []"
  "m_http_method (m_req (word_engine s)) = hmGet" "m_content_length (m_req (word_engine s)) = 0"
  "m_http_tunneling_connection (m_req (word_engine s)) = HTTP_Tunneling_None" "parse_env word_env = plain_env"
  by (simp_all add: word_engine_def new_engine_def keep_alive_left_def new_CHttp_def SetMeta_def http_state_def word_env_def)

end
