(* ===== verification/Http1serve.thy ===== *)
theory Http1serve
  imports Http1engine
begin

section \<open>How requests are served\<close>

text \<open>
  The properties of the HTTP/1.1 engine: the order of what is sent, the body and the header as they are
  cut out of what has arrived, the credentials a request needs, the pages of a status.
\<close>

subsection \<open>What is sent\<close>

text \<open>What was put into the buffers: what the socket has taken and what waits.\<close>

definition out :: "engine \<Rightarrow> bytes" where
  "out e = sock_out e @ m_send_buf e"

definition sending_done :: "engine \<Rightarrow> engine \<Rightarrow> bool" where
  "sending_done e e' \<longleftrightarrow>
     e' = e\<lparr> sock_out := sock_out e', m_send_buf := m_send_buf e', sock_send := sock_send e', epoll_out := epoll_out e' \<rparr> \<and>
     out e' = out e \<and> prefix (sock_out e) (sock_out e')"

lemma sending_done_refl [simp]: "sending_done e e"
  by (simp add: sending_done_def)

lemma sending_done_trans:
  assumes "sending_done a b" and "sending_done b c"
  shows "sending_done a c"
proof -
  let ?set = "\<lambda>x. \<lambda>y. y\<lparr> sock_out := sock_out x, m_send_buf := m_send_buf x, sock_send := sock_send x, epoll_out := epoll_out x \<rparr>"
  have eq: "b = ?set b a" "c = ?set c b"
    using assms by (simp_all only: sending_done_def)
  have "c = ?set c (?set b a)"
    by (subst eq(1) [symmetric]) (rule eq(2))
  then have "c = ?set c a"
    by simp
  then show ?thesis
    using assms unfolding sending_done_def by (blast intro: prefix_order.trans trans)
qed

lemma sending_done_sel:
  assumes "sending_done e e'"
    and "\<And>e a b c d. f (e\<lparr> sock_out := a, m_send_buf := b, sock_send := c, epoll_out := d \<rparr>) = f e"
  shows "f e' = f e"
proof -
  have "e' = e\<lparr> sock_out := sock_out e', m_send_buf := m_send_buf e', sock_send := sock_send e', epoll_out := epoll_out e' \<rparr>"
    using assms(1) by (simp only: sending_done_def)
  from arg_cong [OF this, of f] show ?thesis
    by (simp only: assms(2))
qed

lemma sending_done_loop: "sending_done e (snd (send_loop evs e))"
proof (induction evs arbitrary: e)
  case Nil
  show ?case
    by (simp add: sending_done_def watch_def out_def)
next
  case (Cons ev evs)
  show ?case
  proof (cases "m_send_buf e = []")
    case True
    then show ?thesis by (simp add: sending_done_def out_def)
  next
    case False
    show ?thesis
    proof (cases ev)
      case (Sent n)
      let ?e = "e\<lparr> sock_out := sock_out e @ take (max 1 n) (m_send_buf e), m_send_buf := drop (max 1 n) (m_send_buf e) \<rparr>"
      have "sending_done e ?e"
        by (simp add: sending_done_def out_def)
      from sending_done_trans [OF this Cons.IH] show ?thesis
        using False Sent by simp
    qed (use False in \<open>simp_all add: sending_done_def watch_def out_def\<close>)
  qed
qed

lemma sending_done_AsyncSend: "sending_done e (snd (AsyncSend e))"
  by (simp add: AsyncSend_def sending_done_loop)

lemma sending_done_out: "sending_done e e' \<Longrightarrow> out e' = out e" "sending_done e e' \<Longrightarrow> prefix (sock_out e) (sock_out e')"
  by (simp_all add: sending_done_def)

lemmas sending_done_same =
  sending_done_sel [of _ _ m_req] sending_done_sel [of _ _ m_recv_buf] sending_done_sel [of _ _ m_is_http2]
  sending_done_sel [of _ _ h2_calls] sending_done_sel [of _ _ m_enabled_keep_alive] sending_done_sel [of _ _ sock_in]
  sending_done_sel [of _ _ m_response_header] sending_done_sel [of _ _ m_wwwauth_scheme]
  sending_done_sel [of _ _ m_proxyauth_scheme] sending_done_sel [of _ _ m_set_cookies]
  sending_done_sel [of _ _ m_session_var_uid] sending_done_sel [of _ _ http_state, unfolded http_state_def, folded http_state_def]

text \<open>What waits is always watched for.\<close>

definition watched :: "engine \<Rightarrow> bool" where
  "watched e \<longleftrightarrow> (m_send_buf e \<noteq> [] \<longrightarrow> epoll_out e)"

lemma watched_loop: "watched (snd (send_loop evs e))"
proof (induction evs arbitrary: e)
  case (Cons ev evs)
  then show ?case by (cases ev) (auto simp: watched_def watch_def)
qed (auto simp: watched_def watch_def)

lemma watched_AsyncSend: "watched e \<Longrightarrow> watched (snd (AsyncSend e))"
  by (simp add: AsyncSend_def watched_loop)

lemma AsyncHttpSend_done:
  "out (AsyncHttpSend buf e) = out e @ buf" "watched e \<Longrightarrow> watched (AsyncHttpSend buf e)"
  "sending_done (e\<lparr> m_send_buf := m_send_buf e @ buf \<rparr>) (AsyncHttpSend buf e)"
proof -
  show d: "sending_done (e\<lparr> m_send_buf := m_send_buf e @ buf \<rparr>) (AsyncHttpSend buf e)"
    by (cases "buf = []") (simp_all add: AsyncHttpSend_def sending_done_AsyncSend)
  show "out (AsyncHttpSend buf e) = out e @ buf"
    using sending_done_out(1) [OF d] by (simp add: out_def)
  show "watched (AsyncHttpSend buf e)" if "watched e"
    using that watched_loop by (simp add: AsyncHttpSend_def AsyncSend_def)
qed

lemma AsyncHttpSend_same:
  "m_req (AsyncHttpSend buf e) = m_req e" "m_recv_buf (AsyncHttpSend buf e) = m_recv_buf e"
  "m_is_http2 (AsyncHttpSend buf e) = m_is_http2 e" "h2_calls (AsyncHttpSend buf e) = h2_calls e"
  "m_enabled_keep_alive (AsyncHttpSend buf e) = m_enabled_keep_alive e"
  using sending_done_same(1-5) [OF AsyncHttpSend_done(3) [of e buf]] by simp_all

subsection \<open>Nobody is served without credentials\<close>

text \<open>What the parser leaves alone when no credentials are good: the state and what was passed.\<close>

definition rejects :: "http_env \<Rightarrow> bool" where
  "rejects env \<longleftrightarrow> (\<forall>scheme txt m. \<not> fst (WWW_Auth env scheme txt m))"

definition locked :: "CHttp \<Rightarrow> Http_State \<times> bool \<times> bool" where
  "locked c = (m_http_state c, m_passed_wwwauth c, m_passed_proxyauth c)"

named_theorems locked_simps

lemma locked_set [locked_simps]:
  "locked (SetMeta a v c) = locked c" "locked (SetField a v c) = locked c" "locked (add_header_content s c) = locked c"
  "locked (set_backend h d c) = locked c" "locked (set_backup1 h c) = locked c" "locked (set_backup2 h c) = locked c"
  "locked (reverse_urls p r c) = locked c" "locked (store_field s c) = locked c" "locked (connection_field s c) = locked c"
  "locked (upgrade_field s c) = locked c" "locked (length_field s c) = locked c" "locked (host_field s c) = locked c"
  "locked (cache_field l vs s c) = locked c" "locked (type_field s c) = locked c"
  by (simp_all add: locked_def SetMeta_def SetField_def add_header_content_def set_backend_def set_backup1_def set_backup2_def
      reverse_urls_def store_field_def connection_field_def upgrade_field_def length_field_def host_field_def cache_field_def
      type_field_def Let_def split_beta)

lemma locked_updates [locked_simps]:
  "locked (c\<lparr> m_http_tunneling_connection := x \<rparr>) = locked c" "locked (c\<lparr> m_http_tunneling_url := u \<rparr>) = locked c"
  "locked (c\<lparr> m_http_method := m \<rparr>) = locked c" "locked (c\<lparr> m_resource := r, m_querystring := q, m_uri := u \<rparr>) = locked c"
  "locked (c\<lparr> m_cookie := v \<rparr>) = locked c" "locked (c\<lparr> m_line_text := t \<rparr>) = locked c"
  by (simp_all add: locked_def)

lemma locked_auth:
  assumes "rejects env"
  shows "locked (basic_auth (WWW_Auth env) s c) = locked c" "locked (digest_auth (WWW_Auth env) s c) = locked c"
    "locked (proxy_auth (WWW_Auth env) scheme l s c) = locked c"
  using assms by (simp_all add: locked_def rejects_def basic_auth_def digest_auth_def proxy_auth_def SetMeta_def Let_def split_beta)

lemma locked_header_field: "rejects env \<Longrightarrow> locked (header_field env s c) = locked c"
  unfolding header_field_def special_field_def by (simp add: Let_def locked_auth locked_simps)

lemma locked_reverse_hosts: "reverse_hosts n p c = Some (s, c') \<Longrightarrow> locked c' = locked c"
  by (cases "till_host_end p"; auto simp: reverse_hosts_def Let_def locked_simps fits_def split: list.splits if_splits bind_split_asm)

lemma locked_ParseMethod:
  assumes "ParseMethod env s c = Some (s', c')"
  shows "locked c' = locked c"
proof -
  have *: "locked c' = locked c" if "absolute_url env n m p c = Some (s, c')" for n m p s c'
    using that locked_reverse_hosts
    by (auto simp: absolute_url_def Let_def locked_simps split: bind_split_asm if_splits prod.splits)
  have **: "locked c' = locked c" if "local_path n s c = Some c'" for n s c'
    using that by (auto simp: local_path_def Let_def locked_simps split: bind_split_asm prod.splits)
  show ?thesis
    using assms * ** by (auto simp: ParseMethod_def Let_def locked_simps split: if_splits)
qed

lemma locked_header_line:
  assumes "rejects env"
  shows "header_line env l c = Some (Line_done c') \<Longrightarrow> locked c' = locked c"
    and "header_line env l c = Some (Header_done c') \<Longrightarrow> locked c' = (httpReqData, snd (locked c))"
  using locked_header_field [OF assms] locked_ParseMethod [of env]
  by (auto simp: header_line_def request_start_def Let_def locked_simps split: option.splits if_splits bind_split_asm)
    (auto simp: locked_def)

lemma locked_line_loop:
  assumes "rejects env"
  shows "line_loop env (Pair go) go s c = Some (r, c') \<Longrightarrow>
    snd (locked c') = snd (locked c) \<and> fst (locked c') \<in> {fst (locked c), httpReqData}"
proof (induction "length s" arbitrary: s c rule: less_induct)
  case less
  show ?case
  proof (cases "find_if (\<lambda>x. x = CHR 0x0A) s")
    case None
    then show ?thesis
      using less(2) by (subst (asm) line_loop.simps) (auto simp: locked_simps)
  next
    case (Some k)
    then have k: "k < length s"
      by (rule find_if_length)
    show ?thesis
    proof (cases "header_line env (take (Suc k) s) c")
      case None
      then show ?thesis
        using less(2) Some by (subst (asm) line_loop.simps) simp
    next
      case r: (Some r)
      show ?thesis
        using less(2) k Some r less(1) [of "drop (Suc k) s"] locked_header_line [OF assms, of "take (Suc k) s" c]
        by (subst (asm) line_loop.simps) (cases r; force simp: locked_simps)
    qed
  qed
qed

lemma locked_LineParse:
  assumes "rejects env" and "LineParse env (Pair go) go s c = Some (r, c')"
  shows "snd (locked c') = snd (locked c)" and "fst (locked c') \<in> {fst (locked c), httpReqData}"
  using locked_line_loop [OF assms(1), of go "m_line_text c @ cstr s" c r c'] assms(2) by (simp_all add: LineParse_def)

definition other_services :: "(engine \<Rightarrow> engine \<times> bool) \<Rightarrow> (engine \<Rightarrow> engine \<times> bool) option list \<Rightarrow> (engine \<Rightarrow> engine) option list \<Rightarrow>
    (engine \<Rightarrow> engine \<times> bool) \<Rightarrow> engine_env \<Rightarrow> engine_env" where
  "other_services doc request response back env =
     env\<lparr> doc_response := doc, ext_request := request, ext_response := response, ext_finish := response, ext_tunneling := request,
        tunnel_processing := back \<rparr>"

definition asks :: "AUTH_SCHEME \<Rightarrow> bool" where
  "asks scheme \<longleftrightarrow> scheme = asBasic \<or> scheme = asDigest"

definition locked_out :: "engine \<Rightarrow> bool" where
  "locked_out e \<longleftrightarrow> asks (m_wwwauth_scheme e) \<and> asks (m_proxyauth_scheme e) \<and> \<not> m_passed_wwwauth (m_req e) \<and>
     \<not> m_passed_proxyauth (m_req e) \<and> http_state e \<in> {httpReqHeader, httpReqData, httpAuthentication, httpComplete}"

lemma locked_out_iff:
  "locked_out e \<longleftrightarrow> asks (m_wwwauth_scheme e) \<and> asks (m_proxyauth_scheme e) \<and> snd (locked (m_req e)) = (False, False) \<and>
     fst (locked (m_req e)) \<in> {httpReqHeader, httpReqData, httpAuthentication, httpComplete}"
  by (auto simp: locked_out_def locked_def http_state_def)

lemma AsyncProtRecv_fields:
  assumes "AsyncProtRecv n e = (l, e')"
  shows "e' = e\<lparr> m_recv_buf := drop (length l) (m_recv_buf e) \<rparr>" and "l = take (length l) (m_recv_buf e)"
  using assms by (auto simp: AsyncProtRecv_def Let_def)

lemma locked_out_header_loop: "rejects (parse_env env) \<Longrightarrow> locked_out e \<Longrightarrow> header_loop env e conn = Some (r, e') \<Longrightarrow> locked_out e'"
proof (induction env e conn rule: header_loop.induct)
  case (1 env e conn)
  obtain l d where l: "AsyncProtRecv 4095 e = (l, d)"
    by force
  have d: "locked_out d" "m_req d = m_req e"
    using AsyncProtRecv_fields(1) [OF l] 1(3) by (simp_all add: locked_out_def http_state_def)
  show ?case
  proof (cases "http_state e = httpReqHeader \<and> l \<noteq> []")
    case False
    then show ?thesis
      using 1(3,4) l d by (subst (asm) header_loop.simps) (auto split: if_splits)
  next
    case True
    show ?thesis
    proof (cases "LineParse (parse_env env) (Pair httpContinue) httpContinue (of_bytes l) (m_req d)")
      case None
      then show ?thesis
        using 1(4) l d True by (subst (asm) header_loop.simps) simp
    next
      case (Some p)
      obtain k c where p: "p = (k, c)"
        by force
      have "locked_out (d\<lparr> m_req := c \<rparr>)"
        using locked_LineParse [OF 1(2) Some [unfolded p]] d(1) by (auto simp: locked_out_iff)
      then show ?thesis
        using 1(1) [OF _ refl l [symmetric] _ Some p [symmetric]] 1(2,4) True l Some p by (subst (asm) (2) header_loop.simps) simp
    qed
  qed
qed

lemma header_loop_services: "header_loop (other_services d r s t env) e conn = header_loop env e conn"
  by (induction env e conn rule: header_loop.induct)
    (subst (1 2) header_loop.simps, simp add: other_services_def split: option.split prod.split)

lemma default_reply_services: "default_reply (other_services d r s t env) sc fs e = default_reply env sc fs e"
  by (simp add: default_reply_def other_services_def)

lemma challenge_services: "challenge (other_services d r s t env) scheme realm = challenge env scheme realm"
  by (cases scheme) (simp_all add: challenge_def other_services_def)

lemma locked_out_to_state:
  "locked_out e \<Longrightarrow> st \<in> {httpReqHeader, httpReqData, httpAuthentication, httpComplete} \<Longrightarrow> locked_out (to_state st e)"
  by (simp add: locked_out_def to_state_def http_state_def)

lemma locked_out_same:
  assumes "locked_out e" and "m_wwwauth_scheme e' = m_wwwauth_scheme e" and "m_proxyauth_scheme e' = m_proxyauth_scheme e"
    and "locked (m_req e') = locked (m_req e)"
  shows "locked_out e'"
  using assms by (simp add: locked_out_iff)

lemma sending_keeps:
  assumes "sending_done e e'"
  shows "m_req e' = m_req e" "m_wwwauth_scheme e' = m_wwwauth_scheme e" "m_proxyauth_scheme e' = m_proxyauth_scheme e" "http_state e' = http_state e"
proof -
  show req: "m_req e' = m_req e" "m_wwwauth_scheme e' = m_wwwauth_scheme e" "m_proxyauth_scheme e' = m_proxyauth_scheme e"
    by (rule sending_done_sel [OF assms], simp)+
  show "http_state e' = http_state e"
    by (simp add: http_state_def req)
qed

lemma AsyncHttpSend_keeps:
  "m_wwwauth_scheme (AsyncHttpSend buf e) = m_wwwauth_scheme e" "m_proxyauth_scheme (AsyncHttpSend buf e) = m_proxyauth_scheme e"
  using sending_keeps [OF AsyncHttpSend_done(3) [of e buf]] by simp_all

lemma SendHeader1_keeps:
  "m_wwwauth_scheme (SendHeader1 s e) = m_wwwauth_scheme e" "m_proxyauth_scheme (SendHeader1 s e) = m_proxyauth_scheme e"
  "locked (m_req (SendHeader1 s e)) = locked (m_req e)"
  by (simp_all add: SendHeader1_def HttpSend1_def AsyncHttpSend_keeps AsyncHttpSend_same Let_def locked_def)

lemma SendContent1_keeps:
  "m_wwwauth_scheme (SendContent1 b e) = m_wwwauth_scheme e" "m_proxyauth_scheme (SendContent1 b e) = m_proxyauth_scheme e"
  "locked (m_req (SendContent1 b e)) = locked (m_req e)"
  by (simp_all add: SendContent1_def HttpSend1_def AsyncHttpSend_keeps AsyncHttpSend_same Let_def locked_def)

lemma locked_out_default_reply: "default_reply env sc fs e = Some e' \<Longrightarrow> locked_out e \<Longrightarrow> locked_out e'"
  by (erule locked_out_same; auto simp: default_reply_def SendHeader1_keeps SendContent1_keeps Let_def split: bind_split_asm)

text \<open>Without credentials the reply is made by \<open>authenticate\<close> alone.\<close>

lemma locked_out_reply:
  assumes "locked_out e" and "http_state e = httpAuthentication"
  shows "ResponseReply env e = map_option (\<lambda>e. (httpContinue, to_state httpComplete e))
    (if m_http_tunneling_connection (m_req e) = HTTP_Tunneling_None
     then default_reply env SC401 [(''WWW-Authenticate'', challenge env (m_wwwauth_scheme e) WWW_Realm)] e
     else default_reply env SC407 [(''Proxy-Authenticate'', challenge env (m_proxyauth_scheme e) Proxy_Realm)] e)"
  using assms unfolding ResponseReply_def authenticate_def locked_out_def asks_def
  by (cases "default_reply env SC401 [(''WWW-Authenticate'', challenge env (m_wwwauth_scheme e) WWW_Realm)] e";
      cases "default_reply env SC407 [(''Proxy-Authenticate'', challenge env (m_proxyauth_scheme e) Proxy_Realm)] e"; simp)

subsection \<open>The body arrives\<close>

lemma multipart_loop_all:
  "length data \<le> n \<Longrightarrow> multipart_loop n data e =
     (data @ take (n - length data) (m_recv_buf e), e\<lparr> m_recv_buf := drop (n - length data) (m_recv_buf e) \<rparr>)"
proof (induction n data e rule: multipart_loop.induct)
  case (1 n data e)
  define k where "k = min 4095 (n - length data)"
  have r: "AsyncHttpRecv (min 4095 (n - length data)) e = (take k (m_recv_buf e), e\<lparr> m_recv_buf := drop k (m_recv_buf e) \<rparr>)"
    by (simp add: AsyncHttpRecv_def k_def)
  show ?case
  proof (cases "take k (m_recv_buf e) = []")
    case True
    then have "n - length data = 0 \<or> m_recv_buf e = []"
      by (auto simp: k_def min_def split: if_splits)
    then show ?thesis
      using True r by (subst multipart_loop.simps) auto
  next
    case False
    let ?t = "take k (m_recv_buf e)"
    have k: "length data + k \<le> n"
      using 1(2) by (simp add: k_def min_def; arith)
    then have len: "length (data @ ?t) \<le> n"
      by simp
    have "multipart_loop n data e = multipart_loop n (data @ ?t) (e\<lparr> m_recv_buf := drop k (m_recv_buf e) \<rparr>)"
      using False r by (subst multipart_loop.simps) simp
    also have "\<dots> = (data @ take (n - length data) (m_recv_buf e), e\<lparr> m_recv_buf := drop (n - length data) (m_recv_buf e) \<rparr>)"
    proof (cases "length (m_recv_buf e) \<le> k")
      case True
      then show ?thesis
        using 1(1) [OF r [symmetric] refl False len] k by simp
    next
      case large: False
      have "?t @ take (n - (length data + k)) (drop k (m_recv_buf e)) = take (n - length data) (m_recv_buf e)"
        using take_add [of k "n - (length data + k)" "m_recv_buf e"] k by simp
      moreover have "drop (n - (length data + k)) (drop k (m_recv_buf e)) = drop (n - length data) (m_recv_buf e)"
        using k by simp
      ultimately show ?thesis
        using 1(1) [OF r [symmetric] refl False len] large by (simp add: min_def)
    qed
    finally show ?thesis .
  qed
qed

definition held :: "CHttp \<Rightarrow> bytes" where
  "held c = (case m_postdata_ex c of None \<Rightarrow> [] | Some b \<Rightarrow> b)"

text \<open>
  C10: the body of a form with files is cut out of the stream of octets. \<open>AsyncRecvPostData\<close> takes from the receive buffer
  exactly what is missing of the announced length, in order, leaves the octets behind it where they are, and goes on to the authentication
  exactly when the body is whole.
\<close>

theorem multipart_body_received:
  assumes "m_content_type (m_req e) = multipart_form_data" and "m_content_length (m_req e) = int n" and "0 < n"
    and "length (held (m_req e)) \<le> n" and "http_state e = httpReqData"
  defines "e' \<equiv> AsyncRecvPostData e" and "missing \<equiv> n - length (held (m_req e))"
  shows "held (m_req e') = held (m_req e) @ take missing (m_recv_buf e) \<and> m_recv_buf e' = drop missing (m_recv_buf e) \<and>
    http_state e' = (if missing \<le> length (m_recv_buf e) then httpAuthentication else httpReqData) \<and> out e' = out e"
  using assms(1-5) multipart_loop_all [OF assms(4), of e]
  by (cases "m_postdata_ex (m_req e)")
    (auto simp: e'_def missing_def AsyncRecvPostData_def held_def to_state_def http_state_def out_def Let_def)

definition multipart_engine :: "bytes \<Rightarrow> engine" where
  "multipart_engine buf = (let e = word_engine asNone in e\<lparr> m_recv_buf := buf, m_req := (m_req e)\<lparr> m_http_state := httpReqData,
     m_content_type := multipart_form_data, m_content_length := 3, m_postdata_ex := Some [1] \<rparr> \<rparr>)"

theorem multipart_body_received_witness:
  "let e = multipart_engine [9, 8, 7]; e' = AsyncRecvPostData e
   in held (m_req e') = [1] @ [9, 8] \<and> m_recv_buf e' = [7] \<and> http_state e' = httpAuthentication"
  using multipart_body_received [of "multipart_engine [9, 8, 7]" 3]
  by (simp add: Let_def multipart_engine_def held_def http_state_def)

lemma multipart_loop_frame:
  "multipart_loop n data e = (d, e') \<Longrightarrow> e' = e\<lparr> m_recv_buf := m_recv_buf e' \<rparr>"
proof (induction n data e rule: multipart_loop.induct)
  case (1 n data e)
  obtain r where r: "AsyncHttpRecv (min 4095 (n - length data)) e = (take r (m_recv_buf e), e\<lparr> m_recv_buf := drop r (m_recv_buf e) \<rparr>)"
    by (simp add: AsyncHttpRecv_def)
  show ?case
    using 1(2) 1(1) [OF r [symmetric] refl] r by (subst (asm) multipart_loop.simps) (auto split: if_splits)
qed

lemma locked_out_recv:
  assumes "locked_out e"
  shows "locked_out (AsyncRecvPostData e)"
proof -
  have loop: "m_req d = m_req e \<and> m_wwwauth_scheme d = m_wwwauth_scheme e \<and> m_proxyauth_scheme d = m_proxyauth_scheme e"
    if "multipart_loop n data e = (x, d)" for n data x d
    using arg_cong [OF multipart_loop_frame [OF that], of m_req] arg_cong [OF multipart_loop_frame [OF that], of m_wwwauth_scheme]
      arg_cong [OF multipart_loop_frame [OF that], of m_proxyauth_scheme] by simp
  show ?thesis
    using assms loop
    by (auto simp: AsyncRecvPostData_def Let_def AsyncHttpRecv_def locked_out_iff locked_def to_state_def split: prod.splits)
qed

lemma locked_out_DataParse: "DataParse env e = Some (r, d) \<Longrightarrow> locked_out e \<Longrightarrow> locked_out d"
  using locked_out_default_reply locked_out_recv by (auto simp: DataParse_def split: if_splits)

lemma DataParse_services: "DataParse (other_services d r s t env) e = DataParse env e"
  by (simp add: DataParse_def default_reply_services)

lemma locked_out_ResponseReply:
  assumes "locked_out e" and "http_state e = httpAuthentication"
  shows "ResponseReply env e = Some (k, d) \<Longrightarrow> locked_out d"
    and "ResponseReply (other_services doc r s t env) e = ResponseReply env e"
  using assms locked_out_default_reply locked_out_to_state [of _ httpComplete]
  by (auto simp: locked_out_reply default_reply_services challenge_services split: if_splits)

lemma locked_out_flush: "locked_out e \<Longrightarrow> AsyncHttpFlush e = (n, d) \<Longrightarrow> locked_out d"
  using locked_out_same [of e d] sending_keeps [OF sending_done_AsyncSend [of e]] by (auto simp: AsyncHttpFlush_def Let_def split: if_splits)

lemma locked_out_waits: "locked_out e \<Longrightarrow> \<not> responding e \<and> \<not> tunnelling e"
  by (auto simp: locked_out_def responding_def tunnelling_def state_no_def Let_def)

text \<open>
  C9: no service without credentials. When both authentications are asked for and no credentials are good, a turn of the engine is
  the same whatever the documents, the extensions and the tunnel would do, so none of them is reached, and the request stays before
  its response or is complete.
\<close>

theorem no_service_without_credentials:
  assumes "rejects (parse_env env)" and "locked_out e" and "Http1_AsyncProcessing env e = Some (conn, e')"
  shows "locked_out e' \<and> Http1_AsyncProcessing (other_services doc request response back env) e = Some (conn, e')"
proof -
  let ?o = "other_services doc request response back env"
  obtain k1 e1 k2 e2 k3 e3 where 1: "header_loop env e httpKeepAlive = Some (k1, e1)" and 2: "body_turn env (k1, e1) = Some (k2, e2)"
    and 3: "reply_turn env (k2, e2) = Some (k3, e3)" and 4: "flush_turn (k3, e3) = (conn, e')"
    using assms(3) by (auto simp: Http1_AsyncProcessing_def split: bind_split_asm)
  have l1: "locked_out e1"
    using locked_out_header_loop [OF assms(1,2) 1] .
  have l2: "locked_out e2" "body_turn ?o (k1, e1) = Some (k2, e2)"
    using 2 l1 locked_out_DataParse [of env e1] locked_out_to_state [of e1 httpAuthentication]
    by (auto simp: body_turn_def DataParse_services split: if_splits)
  have l3: "locked_out e3" "reply_turn ?o (k2, e2) = Some (k3, e3)"
    using 3 l2(1) locked_out_ResponseReply [OF l2(1)] locked_out_waits [OF l2(1)] by (auto simp: reply_turn_def split: if_splits)
  have "locked_out e'"
    using 4 l3(1) locked_out_flush [OF l3(1)] by (auto simp: flush_turn_def split: if_splits prod.splits)
  moreover have "header_loop ?o e httpKeepAlive = Some (k1, e1)"
    using 1 by (simp add: header_loop_services)
  ultimately show ?thesis
    using l2(2) l3(2) 4 by (simp add: Http1_AsyncProcessing_def)
qed

subsection \<open>The page of a status\<close>

definition reply_fields :: "engine_env \<Rightarrow> Http_StatsCode \<Rightarrow> (string \<times> string) list \<Rightarrow> engine \<Rightarrow> (string, string) stdmap" where
  "reply_fields env sc fs e =
     (let h = SetStatusCode (now_date env) sc (copied_response_hdr (Some (m_mapHeader (m_response_header e))))
      in mput ''Content-Length'' (lld (int (length (m_strDefaultHTML h))))
        (fold (\<lambda>(k, v). mput (cstr k) (cstr v)) (fs @ [(''Content-Type'', ''text/html'')]) (m_mapHeader h)))"

definition reply_page :: "engine_env \<Rightarrow> Http_StatsCode \<Rightarrow> engine \<Rightarrow> string" where
  "reply_page env sc e = m_strDefaultHTML (SetStatusCode (now_date env) sc (copied_response_hdr (Some (m_mapHeader (m_response_header e)))))"

definition reply_header :: "engine_env \<Rightarrow> Http_StatsCode \<Rightarrow> (string \<times> string) list \<Rightarrow> engine \<Rightarrow> string" where
  "reply_header env sc fs e = concat (map (\<lambda>l. l @ header_end) (status_line sc # field_lines (reply_fields env sc fs e)))"

lemma set_fields:
  assumes "list_all (\<lambda>(k, v). \<not> strcaseeq k ''Location'') fs"
  shows "fold (\<lambda>(k, v) h. do { h \<leftarrow> h; SetResponseField d k v h }) fs (Some h) =
    Some (h\<lparr> m_mapHeader := fold (\<lambda>(k, v). mput (cstr k) (cstr v)) fs (m_mapHeader h),
      m_isHdrUpdated := (if fs = [] then m_isHdrUpdated h else Some True) \<rparr>)"
  using assms by (induction fs arbitrary: h) (auto simp: SetResponseField_def Let_def)

lemma default_reply_sends:
  assumes "list_all (\<lambda>(k, v). \<not> strcaseeq k ''Location'') fs"
  shows "default_reply env sc fs e =
    Some (SendContent1 (to_bytes (reply_page env sc e)) (SendHeader1 (cstr (reply_header env sc fs e)) e))"
proof -
  have l: "list_all (\<lambda>(k, v). \<not> strcaseeq k ''Location'') (fs @ [(''Content-Type'', ''text/html'')])"
  proof -
    have "\<not> strcaseeq ''Content-Type'' ''Location''"
      by code_simp
    then show ?thesis
      using assms by simp
  qed
  have "m_strUserDefined (SetStatusCode d sc (copied_response_hdr m)) = []" "m_StatusCode (SetStatusCode d sc (copied_response_hdr m)) = Some sc" for d m
    by (simp_all add: SetStatusCode_def copied_response_hdr_def Let_def)
  then show ?thesis
    unfolding default_reply_def Let_def set_fields [OF l]
    by (simp add: SetResponseField_num_def Text_hdr_def update_header_def GetDefaultHTML_def reply_page_def reply_header_def reply_fields_def Let_def)
qed

lemma status_lines: "status_line SC401 = ''HTTP/1.1 401 Unauthorized''" "status_line SC407 = ''HTTP/1.1 407 Proxy Authentication Required''"
  by code_simp+

lemma challenge_sent:
  "default_reply env SC401 [(''WWW-Authenticate'', v)] e =
    Some (SendContent1 (to_bytes (reply_page env SC401 e)) (SendHeader1 (cstr (reply_header env SC401 [(''WWW-Authenticate'', v)] e)) e))"
proof (rule default_reply_sends)
  have "\<not> strcaseeq ''WWW-Authenticate'' ''Location''"
    by code_simp
  then show "list_all (\<lambda>(k, v). \<not> strcaseeq k ''Location'') [(''WWW-Authenticate'', v)]"
    by simp
qed

definition cookies_and_end :: "engine \<Rightarrow> string" where
  "cookies_and_end e = cookie_lines (m_set_cookies e) @
     (if m_session_var_uid e \<noteq> [] then ''Set-Cookie: __heaphttpd_session__='' @ m_session_var_uid e @ CRLF else []) @ CRLF"

lemma SendHeader1_out: "\<not> m_is_http2 e \<Longrightarrow> out (SendHeader1 s e) = out e @ to_bytes (cstr s @ cookies_and_end e)"
  by (simp add: SendHeader1_def HttpSend1_def Let_def AsyncHttpSend_done cookies_and_end_def) (simp add: out_def)

lemma SendContent1_out: "\<not> m_is_http2 e \<Longrightarrow> out (SendContent1 b e) = out e @ b"
  by (simp add: SendContent1_def HttpSend1_def AsyncHttpSend_done)

lemma SendHeader1_plain: "m_is_http2 (SendHeader1 s e) = m_is_http2 e"
  by (simp add: SendHeader1_def HttpSend1_def Let_def AsyncHttpSend_same)

lemma out_to_state [simp]: "out (to_state st e) = out e"
  by (simp add: out_def to_state_def)

text \<open>
  who may not pass is told how to. Over a plain connection the reply to a request without good credentials is the status 401, the fields of
  the response, among them the challenge of the scheme and the length of the page, and the page; the request is then complete.
\<close>

theorem unauthorised_told:
  fixes env :: engine_env
  assumes "http_state e = httpAuthentication" and "m_http_tunneling_connection (m_req e) = HTTP_Tunneling_None"
    and "asks (m_wwwauth_scheme e)" and "\<not> m_passed_wwwauth (m_req e)" and "\<not> m_is_http2 e"
  defines "fs \<equiv> reply_fields env SC401 [(''WWW-Authenticate'', challenge env (m_wwwauth_scheme e) WWW_Realm)] e"
  shows "\<exists>e'. ResponseReply env e = Some (httpContinue, e') \<and> http_state e' = httpComplete \<and>
    out e' = out e @ to_bytes (cstr (concat (map (\<lambda>l. l @ header_end) (''HTTP/1.1 401 Unauthorized'' # field_lines fs)))) @
      to_bytes (cookies_and_end e) @ to_bytes (reply_page env SC401 e) \<and>
    mfind fs ''WWW-Authenticate'' = Some (cstr (challenge env (m_wwwauth_scheme e) WWW_Realm)) \<and>
    mfind fs ''Content-Length'' = Some (lld (int (length (reply_page env SC401 e))))"
proof -
  let ?fs = "[(''WWW-Authenticate'', challenge env (m_wwwauth_scheme e) WWW_Realm)]"
  define d where "d = SendContent1 (to_bytes (reply_page env SC401 e)) (SendHeader1 (cstr (reply_header env SC401 ?fs e)) e)"
  have "ResponseReply env e = Some (httpContinue, to_state httpComplete d)"
    using assms(1-4) challenge_sent [of env "challenge env (m_wwwauth_scheme e) WWW_Realm" e] by (auto simp: ResponseReply_def authenticate_def asks_def d_def)
  moreover have "out (to_state httpComplete d) = out e @ to_bytes (cstr (reply_header env SC401 ?fs e) @ cookies_and_end e) @ to_bytes (reply_page env SC401 e)"
    using assms(5) by (simp add: out_to_state d_def SendContent1_out SendHeader1_plain SendHeader1_out)
  ultimately show ?thesis
    by (simp add: http_state_def to_state_def fs_def reply_header_def status_lines)
      (simp add: reply_fields_def reply_page_def Let_def)
qed


theorem unauthorised_told_witness:
  "let e = to_state httpAuthentication (word_engine asBasic);
       fs = reply_fields word_env SC401 [(''WWW-Authenticate'', challenge word_env asBasic WWW_Realm)] e
   in \<exists>e'. ResponseReply word_env e = Some (httpContinue, e') \<and> http_state e' = httpComplete \<and>
     out e' = to_bytes (cstr (concat (map (\<lambda>l. l @ header_end) (''HTTP/1.1 401 Unauthorized'' # field_lines fs)))) @
       to_bytes (cookies_and_end e) @ to_bytes (reply_page word_env SC401 e) \<and>
     mfind fs ''WWW-Authenticate'' = Some (''Basic realm='' @ quoted ''User or Administrator'')"
proof -
  let ?e = "to_state httpAuthentication (word_engine asBasic)"
  have s: "http_state ?e = httpAuthentication" "m_http_tunneling_connection (m_req ?e) = HTTP_Tunneling_None" "m_wwwauth_scheme ?e = asBasic"
    "\<not> m_passed_wwwauth (m_req ?e)" "\<not> m_is_http2 ?e" "out ?e = []"
    by (simp_all add: to_state_def http_state_def out_def)
  have "cstr (challenge word_env asBasic WWW_Realm) = ''Basic realm='' @ quoted ''User or Administrator''"
    by code_simp
  then show ?thesis
    using unauthorised_told [OF s(1,2) _ s(4,5), of word_env, unfolded s(3,6) append_Nil] unfolding Let_def asks_def by auto
qed

lemma word_rejects: "rejects (parse_env word_env)"
  by (simp add: rejects_def plain_env_def)

theorem no_service_without_credentials_witness:
  "let e = to_state httpAuthentication (word_engine asBasic)
   in \<exists>conn e'. Http1_AsyncProcessing word_env e = Some (conn, e') \<and> locked_out e' \<and>
     Http1_AsyncProcessing (other_services (\<lambda>e. (e, False)) [] [] (\<lambda>e. (e, False)) word_env) e = Some (conn, e')"
proof -
  let ?e = "to_state httpAuthentication (word_engine asBasic)"
  have s: "http_state ?e = httpAuthentication" "m_http_tunneling_connection (m_req ?e) = HTTP_Tunneling_None" "m_wwwauth_scheme ?e = asBasic"
    "\<not> m_passed_wwwauth (m_req ?e)" "\<not> m_is_http2 ?e"
    by (simp_all add: to_state_def http_state_def)
  have l: "locked_out ?e"
    by (simp add: locked_out_def s asks_def) (simp add: to_state_def)
  obtain d where "ResponseReply word_env ?e = Some (httpContinue, d)"
    using locked_out_reply [OF l s(1), of word_env] s(2) by (simp add: challenge_sent)
  then have "Http1_AsyncProcessing word_env ?e = Some (flush_turn (httpContinue, d))"
    using s(1) by (simp add: Http1_AsyncProcessing_def header_loop.simps body_turn_def reply_turn_def)
  then obtain r where r: "Http1_AsyncProcessing word_env ?e = Some r"
    by blast
  show ?thesis
    unfolding Let_def using no_service_without_credentials [OF word_rejects l, of "fst r" "snd r"] r by (cases r) simp
qed

subsection \<open>The header is read\<close>

lemma line_loop_result:
  "line_loop env dp go s c = map_option (\<lambda>(fin, c). if fin then dp c else (go, c)) (line_loop env (Pair True) False s c)"
proof (induction env dp go s c rule: line_loop.induct)
  case (1 env dp go s c)
  show ?case
    by (subst (1 2) line_loop.simps) (use 1 in \<open>auto split: option.splits line_result.splits\<close>)
qed

lemma LineParse_result:
  "LineParse env dp go s c = map_option (\<lambda>(fin, c). if fin then dp c else (go, c)) (LineParse env (Pair True) False s c)"
  unfolding LineParse_def by (rule line_loop_result)

lemma state_header_field: "m_http_state (header_field env s c) = m_http_state c"
proof -
  have auth: "fst (locked (basic_auth a s c)) = fst (locked c)" "fst (locked (digest_auth a s c)) = fst (locked c)"
    "fst (locked (proxy_auth a scheme l s c)) = fst (locked c)" for a scheme l s c
    by (simp_all add: locked_def basic_auth_def digest_auth_def proxy_auth_def SetMeta_def Let_def split_beta)
  have "fst (locked (header_field env s c)) = fst (locked c)"
    unfolding header_field_def special_field_def by (simp add: Let_def auth locked_simps)
  then show ?thesis
    by (simp add: locked_def)
qed

lemma state_header_line:
  "header_line env l c = Some (Line_done c') \<Longrightarrow> m_http_state c' = m_http_state c"
  "header_line env l c = Some (Header_done c') \<Longrightarrow> m_http_state c' = httpReqData"
  using state_header_field locked_ParseMethod [of env]
  by (auto simp: header_line_def request_start_def Let_def SetMeta_def add_header_content_def locked_def
      split: option.splits if_splits bind_split_asm)

lemma state_line_loop:
  "line_loop env (Pair True) False s c = Some (fin, c') \<Longrightarrow> m_http_state c' = (if fin then httpReqData else m_http_state c)"
proof (induction "length s" arbitrary: s c rule: less_induct)
  case less
  show ?case
  proof (cases "find_if (\<lambda>x. x = CHR 0x0A) s")
    case None
    then show ?thesis
      using less(2) by (subst (asm) line_loop.simps) auto
  next
    case (Some k)
    then have k: "k < length s"
      by (rule find_if_length)
    show ?thesis
    proof (cases "header_line env (take (Suc k) s) c")
      case None
      then show ?thesis
        using less(2) Some by (subst (asm) line_loop.simps) simp
    next
      case r: (Some r)
      show ?thesis
        using less(2) k Some r less(1) [of "drop (Suc k) s"] state_header_line [of env "take (Suc k) s" c]
        by (subst (asm) line_loop.simps) (cases r; auto)
    qed
  qed
qed

lemma state_LineParse:
  "LineParse env (Pair True) False s c = Some (fin, c') \<Longrightarrow> m_http_state c' = (if fin then httpReqData else m_http_state c)"
  unfolding LineParse_def by (rule state_line_loop)

lemma line_loop_waits: "line_loop env (Pair True) False s c = Some (False, c') \<Longrightarrow> CHR 0x0A \<notin> set (m_line_text c')"
proof (induction "length s" arbitrary: s c rule: less_induct)
  case less
  show ?case
  proof (cases "find_if (\<lambda>x. x = CHR 0x0A) s")
    case None
    then have "CHR 0x0A \<notin> set s"
      by (auto simp: find_if_None)
    moreover have "c' = with_text s c"
      using less(2) None by (subst (asm) line_loop.simps) simp
    ultimately show ?thesis
      by simp
  next
    case (Some k)
    then have k: "k < length s"
      by (rule find_if_length)
    show ?thesis
      using less(2) k Some less(1) [of "drop (Suc k) s"]
      by (subst (asm) line_loop.simps) (auto split: option.splits line_result.splits)
  qed
qed

lemma line_loop_nothing: "CHR 0x0A \<notin> set (m_line_text c) \<Longrightarrow> LineParse env (Pair True) False [] c = Some (False, c)"
proof -
  assume "CHR 0x0A \<notin> set (m_line_text c)"
  then have "find_if (\<lambda>x. x = CHR 0x0A) (m_line_text c) = None"
    by (auto simp: find_if_None)
  then show ?thesis
    unfolding LineParse_def by (subst line_loop.simps) simp
qed

lemma header_loop_step:
  assumes "AsyncProtRecv 4095 e = (l, d)" and "http_state e = httpReqHeader"
  shows "header_loop env e conn = (if l = [] then Some (httpContinue, d)
    else case LineParse (parse_env env) (Pair httpContinue) httpContinue (of_bytes l) (m_req d) of
      None \<Rightarrow> None | Some (conn, c) \<Rightarrow> header_loop env (d\<lparr> m_req := c \<rparr>) conn)"
  using assms by (subst header_loop.simps) simp

lemma header_loop_stop: "http_state e \<noteq> httpReqHeader \<Longrightarrow> header_loop env e conn = Some (conn, e)"
  by (simp add: header_loop.simps)

lemma header_loop_parses:
  "http_state e = httpReqHeader \<Longrightarrow> no_nul (of_bytes (m_recv_buf e)) \<Longrightarrow> CHR 0x0A \<notin> set (m_line_text (m_req e)) \<Longrightarrow>
   header_loop env e conn = Some (k, e') \<Longrightarrow>
   \<exists>n. m_recv_buf e' = drop n (m_recv_buf e) \<and>
     LineParse (parse_env env) (Pair True) False (of_bytes (take n (m_recv_buf e))) (m_req e) = Some (http_state e' = httpReqData, m_req e') \<and>
     (http_state e' = httpReqData \<or> http_state e' = httpReqHeader \<and> m_recv_buf e' = [])"
proof (induction env e conn rule: header_loop.induct)
  case (1 env e conn)
  obtain l d where l: "AsyncProtRecv 4095 e = (l, d)"
    by force
  note d = AsyncProtRecv_fields [OF l]
  let ?buf = "m_recv_buf e" and ?P = "LineParse (parse_env env) (Pair True) False"
  show ?case
  proof (cases "l = []")
    case True
    then have "?buf = []"
      using l by (auto simp: AsyncProtRecv_def Let_def min_def split: if_splits)
    moreover have "e' = e"
      using 1(5) d(1) True by (simp add: header_loop_step [OF l 1(2)])
    ultimately show ?thesis
      using line_loop_nothing [OF 1(4)] 1(2) by (simp add: of_bytes_def)
  next
    case False
    obtain fin c where P: "?P (of_bytes l) (m_req d) = Some (fin, c)"
      using 1(5) False LineParse_result [of "parse_env env" "Pair httpContinue" httpContinue "of_bytes l" "m_req d"]
      by (cases "?P (of_bytes l) (m_req d)") (auto simp: header_loop_step [OF l 1(2)])
    have st: "m_http_state c = (if fin then httpReqData else httpReqHeader)"
      using state_LineParse [OF P] 1(2) by (simp add: http_state_def) (simp add: d(1))
    have L: "LineParse (parse_env env) (Pair httpContinue) httpContinue (of_bytes l) (m_req d) = Some (httpContinue, c)"
      using P by (simp add: LineParse_result [of _ "Pair httpContinue"])
    have step: "header_loop env (d\<lparr> m_req := c \<rparr>) httpContinue = Some (k, e')"
      using 1(5) False L by (simp add: header_loop_step [OF l 1(2)])
    have "m_recv_buf d = drop (length l) ?buf" and req: "m_req d = m_req e"
      by (subst d(1), simp)+
    then have buf: "?buf = l @ m_recv_buf d"
      by (metis append_take_drop_id d(2))
    show ?thesis
    proof (cases fin)
      case True
      then have "e' = d\<lparr> m_req := c \<rparr>"
        using step st by (simp add: header_loop_stop http_state_def)
      then show ?thesis
        using P True st buf req by (intro exI [of _ "length l"]) (simp add: http_state_def)
    next
      case wait: False
      have nul: "no_nul (of_bytes l)" "no_nul (of_bytes (m_recv_buf d))"
        using 1(3) by (simp_all add: buf)
      have "CHR 0x0A \<notin> set (m_line_text c)"
        using line_loop_waits P wait by (simp add: LineParse_def)
      then obtain n where n: "m_recv_buf e' = drop n (m_recv_buf d)"
          "?P (of_bytes (take n (m_recv_buf d))) c = Some (http_state e' = httpReqData, m_req e')"
          "http_state e' = httpReqData \<or> http_state e' = httpReqHeader \<and> m_recv_buf e' = []"
        using 1(1) [OF _ refl l [symmetric] False L refl _ _ _ step] 1(2) st wait nul(2) by (auto simp: http_state_def)
      have "no_nul (of_bytes (take n (m_recv_buf d)))"
        using nul(2) by (auto simp: no_nul_def of_bytes_def dest: in_set_takeD)
      then have "?P (of_bytes (take (length l + n) ?buf)) (m_req e) = Some (http_state e' = httpReqData, m_req e')"
        using LineParse_append [OF nul(1) _ P [unfolded req], where dp = "Pair True" and go = False] wait n(2) by (simp add: buf)
      then show ?thesis
        using n buf by (intro exI [of _ "length l + n"]) simp
    qed
  qed
qed

text \<open>
  the header is taken out of the stream of octets and nothing else. Whatever has arrived, the loop over the lines hands the parser a
  first part of it, in pieces that leave the parser as if it had seen that part whole; what remains is kept for the body when the header
  has ended, and nothing remains otherwise.
\<close>

theorem header_read:
  assumes "http_state e = httpReqHeader" and "no_nul (of_bytes (m_recv_buf e))" and "CHR 0x0A \<notin> set (m_line_text (m_req e))"
    and "header_loop env e conn = Some (k, e')"
  shows "\<exists>n. m_recv_buf e' = drop n (m_recv_buf e) \<and>
    LineParse (parse_env env) (Pair True) False (of_bytes (take n (m_recv_buf e))) (m_req e) = Some (http_state e' = httpReqData, m_req e') \<and>
    (http_state e' = httpReqData \<or> http_state e' = httpReqHeader \<and> m_recv_buf e' = [])"
  using assms by (rule header_loop_parses)

definition two_letters :: engine where
  "two_letters = word_engine asNone\<lparr> m_recv_buf := to_bytes ''GE'' \<rparr>"

theorem header_read_witness:
  "\<exists>k e' n. header_loop word_env two_letters httpKeepAlive = Some (k, e') \<and> m_recv_buf e' = drop n (to_bytes ''GE'') \<and>
    LineParse plain_env (Pair True) False (of_bytes (take n (to_bytes ''GE''))) (m_req two_letters) = Some (http_state e' = httpReqData, m_req e') \<and>
    (http_state e' = httpReqData \<or> http_state e' = httpReqHeader \<and> m_recv_buf e' = [])"
proof -
  let ?g = "to_bytes ''GE''"
  have s: "http_state two_letters = httpReqHeader" "m_recv_buf two_letters = ?g" "m_line_text (m_req two_letters) = []"
    by (simp_all add: two_letters_def http_state_def) (simp_all add: http_state_def [symmetric])
  have r: "AsyncProtRecv 4095 two_letters = (?g, two_letters\<lparr> m_recv_buf := [] \<rparr>)"
  proof -
    have "length (takeWhile (\<lambda>b. b \<noteq> 0x0A) ?g) = 2" "length ?g = 2"
      by code_simp+
    then show ?thesis
      by (simp add: AsyncProtRecv_def s(2))
  qed
  have t: "to_bytes ''GE'' \<noteq> []" "of_bytes ?g = ''GE''"
    by code_simp+
  obtain c where L: "LineParse plain_env (Pair httpContinue) httpContinue ''GE'' (m_req two_letters) = Some (httpContinue, c)"
    and st: "m_http_state c = httpReqHeader"
    using s(1,3) by (simp add: LineParse_def no_nul_def line_loop.simps http_state_def)
  let ?d = "two_letters\<lparr> m_recv_buf := [], m_req := c \<rparr>"
  have "AsyncProtRecv 4095 ?d = ([], ?d)"
    by (simp add: AsyncProtRecv_def)
  then have "header_loop word_env ?d httpContinue = Some (httpContinue, ?d)"
    using header_loop_step [of ?d "[]" ?d word_env] st by (simp add: http_state_def)
  then have h: "header_loop word_env two_letters httpKeepAlive = Some (httpContinue, ?d)"
    using header_loop_step [OF r s(1), of word_env httpKeepAlive] t L by simp
  have "no_nul (of_bytes (m_recv_buf two_letters))"
    unfolding s(2) t(2) by (simp add: no_nul_def)
  from header_read [OF s(1) this _ h] h show ?thesis
    unfolding s(2,3) by auto
qed

text \<open>
  a form with files but without a length crashes the server. When the header announces such a form and no length,
  no buffer was made for it, but its octets are handed to the CGI data through the null pointer.
\<close>

theorem multipart_without_length_undefined:
  assumes "header_loop env e httpKeepAlive = Some (k, d)" and "http_state d = httpReqData"
    and "m_content_type (m_req d) = multipart_form_data" and "m_content_length (m_req d) \<le> 0" and "m_postdata_ex (m_req d) = None"
    and "m_http_tunneling_connection (m_req d) = HTTP_Tunneling_None" and "m_http_method (m_req d) \<notin> {hmPut, hmDelete}"
    and "\<not> asks (m_wwwauth_scheme d) \<or> m_passed_wwwauth (m_req d)"
  shows "Http1_AsyncProcessing env e = None"
proof -
  let ?a = "to_state httpAuthentication d" and ?r = "to_state httpResponse d"
  have a: "authenticate env ?a = Some (None, ?r)"
    using assms(6,8) by (auto simp: authenticate_def to_state_def http_state_def asks_def)
  have "cgi_data e' = None" if "request_vars ?r = Some e'" for e'
    using that assms(3,5) by (auto simp: cgi_data_def request_vars_def to_state_def Let_def split: bind_split_asm)
  then have "Response1 env ?r = None"
    by (auto simp: Response1_def response_begin_def http_state_def to_state_def [of httpResponse] split: Option.bind_split)
  then have "ResponseReply env ?a = None"
    using a assms(6,7) by (simp add: ResponseReply_def respond_def responding_def state_no_def http_state_def to_state_def)
  then show ?thesis
    using assms(1,2,4) by (simp add: Http1_AsyncProcessing_def body_turn_def reply_turn_def) (simp add: http_state_def to_state_def)
qed

theorem multipart_without_length_undefined_witness:
  "let e = word_engine asNone in Http1_AsyncProcessing word_env (e\<lparr> m_req := (m_req e)\<lparr> m_http_state := httpReqData,
     m_content_type := multipart_form_data \<rparr> \<rparr>) = None"
proof -
  let ?e = "let e = word_engine asNone in e\<lparr> m_req := (m_req e)\<lparr> m_http_state := httpReqData, m_content_type := multipart_form_data \<rparr> \<rparr>"
  show ?thesis
    using multipart_without_length_undefined [of word_env ?e httpKeepAlive ?e]
    by (simp add: header_loop_stop http_state_def asks_def Let_def)
qed

subsection \<open>The send buffer\<close>

interpretation engine_queue: send_queue AsyncHttpSend "\<lambda>e. snd (AsyncSend e)" sock_out out watched
  by unfold_locales
    (auto simp: AsyncHttpSend_done sending_done_out [OF sending_done_AsyncSend] watched_AsyncSend
      intro: sending_done_out(2) [OF sending_done_AsyncSend]
        prefix_order.trans [OF _ sending_done_out(2) [OF AsyncHttpSend_done(3)]])

abbreviation send_ops :: "send_op list \<Rightarrow> engine \<Rightarrow> engine" where
  "send_ops \<equiv> run_sends AsyncHttpSend (\<lambda>e. snd (AsyncSend e))"

text \<open>
  C11: the send buffer is a queue. However calls that send and calls that go on sending are mixed and whatever the
  socket takes at a time, the octets it has taken and those that wait are together what was sent, in order; what the socket has once taken stays; and
  as long as something waits, the socket is watched.
\<close>

theorem send_buffer_queue:
  assumes "watched e"
  shows "out (send_ops xs e) = out e @ put_octets xs \<and> prefix (sock_out e) (sock_out (send_ops xs e)) \<and> watched (send_ops xs e) \<and>
    (m_send_buf (send_ops xs e) = [] \<longleftrightarrow> sock_out (send_ops xs e) = out e @ put_octets xs)"
  using engine_queue.run_queue [OF assms, of xs] by (auto simp: out_def)

theorem send_buffer_queue_witness:
  "let e = word_engine asNone\<lparr> sock_send := [Sent 2, Send_again, Sent 5, Send_again] \<rparr>
   in sock_out (send_ops [Put [1, 2, 3]] e) = [1, 2] \<and> out (send_ops [Put [1, 2, 3], Put [4], Go_on] e) = [1, 2, 3, 4] \<and>
      watched (send_ops [Put [1, 2, 3], Put [4], Go_on] e)"
proof -
  let ?e = "word_engine asNone\<lparr> sock_send := [Sent 2, Send_again, Sent 5, Send_again] \<rparr>"
  have w: "watched ?e" "out ?e = []"
    by (simp_all add: watched_def out_def)
  show ?thesis
    unfolding Let_def using send_buffer_queue [OF w(1), of "[Put [1, 2, 3], Put [4], Go_on]"]
    by (simp add: w(2) put_octets_def) (simp add: AsyncHttpSend_def AsyncSend_def watch_def)
qed

text \<open>
  a large form keeps its request waiting for ever. Of a form of 4 MiB and more nothing is read.
\<close>

theorem large_form_stalls:
  assumes "m_content_type (m_req e) = application_x_www_form_urlencoded" and "4 * 1024 * 1024 \<le> m_content_length (m_req e)"
  shows "AsyncRecvPostData e = e"
  using assms by (simp add: AsyncRecvPostData_def MAX_APPLICATION_X_WWW_FORM_URLENCODED_LEN_def Let_def)

end
