(* ===== verification/Session.thy ===== *)
theory Session
  imports Http1serve Stdmap
begin

section \<open>Sessions and the event loop\<close>

text \<open>
  A connection and its protocol object (session.h, session.cpp) and the loop over the events of all connections
  (session_group.h, session_group.cpp). The protocol object is reached through the interface \<open>IHttp\<close> only,
  the record \<open>IHttp_ops\<close>: the engine of \<open>Http1engine\<close> is one instance. A connection to a server
  behind is reached through the interface \<open>backend_session\<close>, the record \<open>backend_ops\<close>. What is left when a
  protocol object is deleted, the socket above all, has the type \<open>'k\<close>: the octets in the object's buffers are not part of it.
\<close>

subsection \<open>The session\<close>

record ('p, 'k) IHttp_ops =
  p_new :: "u32 \<Rightarrow> int \<Rightarrow> 'k \<Rightarrow> 'p"
  p_AsyncRecv :: "'p \<Rightarrow> int \<times> 'p"
  p_AsyncSend :: "'p \<Rightarrow> int \<times> 'p"
  p_AsyncProcessing :: "'p \<Rightarrow> (Http_Connection \<times> 'p) outcome"
  p_Processing :: "'p \<Rightarrow> (Http_Connection \<times> 'p) outcome"
  p_leaves :: "'p \<Rightarrow> 'k"
  p_backend_sockfd :: "'p \<Rightarrow> int option"

record ('p, 'k) Session =
  m_http_protocol_instance :: "'p option"
  m_left :: 'k
  m_connection_keep_alive_tickets :: u32
  m_first_connection_request_time :: int

definition CreateProtocol :: "('p, 'k) IHttp_ops \<Rightarrow> ('p, 'k) Session \<Rightarrow> ('p, 'k) Session" where
  "CreateProtocol ops s = (case m_http_protocol_instance s of
     None \<Rightarrow> s\<lparr> m_http_protocol_instance :=
       Some (p_new ops (m_connection_keep_alive_tickets s) (m_first_connection_request_time s) (m_left s)) \<rparr>
   | Some _ \<Rightarrow> s)"

definition new_Session :: "('p, 'k) IHttp_ops \<Rightarrow> u32 \<Rightarrow> int \<Rightarrow> 'k \<Rightarrow> ('p, 'k) Session" where
  "new_Session ops keep_alive_max clk k = CreateProtocol ops
     \<lparr> m_http_protocol_instance = None, m_left = k, m_connection_keep_alive_tickets = keep_alive_max, m_first_connection_request_time = clk \<rparr>"

text \<open>The instance goes, a ticket with it; without tickets or time the connection is to be closed.\<close>

definition instance_done :: "('p, 'k) IHttp_ops \<Rightarrow> int \<Rightarrow> int \<Rightarrow> Http_Connection \<Rightarrow> 'p \<Rightarrow> ('p, 'k) Session \<Rightarrow> Http_Connection \<times> ('p, 'k) Session" where
  "instance_done ops timeout clk conn p s =
     (let tickets = m_connection_keep_alive_tickets s;
          tickets = (if tickets > 0 then tickets - 1 else tickets)
      in (if tickets = 0 \<or> clk - m_first_connection_request_time s > timeout then httpClose else conn,
          s\<lparr> m_http_protocol_instance := None, m_left := p_leaves ops p, m_connection_keep_alive_tickets := tickets \<rparr>))"

definition Session_AsyncProcessing :: "('p, 'k) IHttp_ops \<Rightarrow> int \<Rightarrow> int \<Rightarrow> ('p, 'k) Session \<Rightarrow> (Http_Connection \<times> ('p, 'k) Session) outcome" where
  "Session_AsyncProcessing ops timeout clk s =
     (let s = CreateProtocol ops s
      in case m_http_protocol_instance s of
           None \<Rightarrow> Some (httpClose, s)
         | Some p \<Rightarrow> do {
             (conn, p) \<leftarrow> p_AsyncProcessing ops p;
             Some (if conn = httpClose \<or> conn = httpKeepAlive then instance_done ops timeout clk conn p s
                   else (conn, s\<lparr> m_http_protocol_instance := Some p \<rparr>))
           })"

definition Session_AsyncRecv :: "('p, 'k) IHttp_ops \<Rightarrow> ('p, 'k) Session \<Rightarrow> int \<times> ('p, 'k) Session" where
  "Session_AsyncRecv ops s = (case m_http_protocol_instance s of
     None \<Rightarrow> (-1, s)
   | Some p \<Rightarrow> let (r, p) = p_AsyncRecv ops p in (r, s\<lparr> m_http_protocol_instance := Some p \<rparr>))"

definition Session_AsyncSend :: "('p, 'k) IHttp_ops \<Rightarrow> ('p, 'k) Session \<Rightarrow> int \<times> ('p, 'k) Session" where
  "Session_AsyncSend ops s = (case m_http_protocol_instance s of
     None \<Rightarrow> (-1, s)
   | Some p \<Rightarrow> let (r, p) = p_AsyncSend ops p in (r, s\<lparr> m_http_protocol_instance := Some p \<rparr>))"

lemma created_tickets [simp]: "m_connection_keep_alive_tickets (CreateProtocol ops s) = m_connection_keep_alive_tickets s"
  "m_first_connection_request_time (CreateProtocol ops s) = m_first_connection_request_time s"
  by (simp_all add: CreateProtocol_def split: option.split)

lemma created_instance: "\<exists>p. m_http_protocol_instance (CreateProtocol ops s) = Some p"
  by (cases "m_http_protocol_instance s") (simp_all add: CreateProtocol_def)

lemma ticket_used:
  "fst (instance_done ops timeout t conn p s) \<noteq> httpClose \<Longrightarrow>
   unat (m_connection_keep_alive_tickets s) = Suc (unat (m_connection_keep_alive_tickets (snd (instance_done ops timeout t conn p s)))) \<and>
   0 < unat (m_connection_keep_alive_tickets (snd (instance_done ops timeout t conn p s)))"
  by (auto simp: instance_done_def Let_def word_gt_0 unat_gt_0 Suc_le_eq unat_sub_if' split: if_splits)

text \<open>
  The build without the event loop: one object after the other on the same connection. The times at which the loop looks at the clock
  are given; the number of objects that were used is counted.
\<close>

function Session_Processing :: "('p, 'k) IHttp_ops \<Rightarrow> int \<Rightarrow> (nat \<Rightarrow> int) \<Rightarrow> nat \<Rightarrow> ('p, 'k) Session \<Rightarrow> (nat \<times> ('p, 'k) Session) outcome" where
  "Session_Processing ops timeout clk n s =
     (let s1 = CreateProtocol ops s
      in case m_http_protocol_instance s1 of
           None \<Rightarrow> Some (n, s1)
         | Some p \<Rightarrow> (case p_Processing ops p of
             None \<Rightarrow> None
           | Some (conn, p) \<Rightarrow>
               if fst (instance_done ops timeout (clk n) conn p s1) = httpClose
               then Some (Suc n, snd (instance_done ops timeout (clk n) conn p s1))
               else Session_Processing ops timeout clk (Suc n) (snd (instance_done ops timeout (clk n) conn p s1))))"
  by pat_completeness auto
termination
  by (relation "measure (\<lambda>(ops, timeout, clk, n, s). unat (m_connection_keep_alive_tickets s))") (auto dest: ticket_used)

declare Session_Processing.simps [simp del]

subsection \<open>The event loop\<close>

record 'b backend_ops =
  b_async_processing :: "'b \<Rightarrow> 'b"
  b_async_recv :: "'b \<Rightarrow> int \<times> 'b"
  b_async_flush :: "'b \<Rightarrow> int \<times> 'b"

record ('p, 'k, 'b) Session_Group =
  m_session_list :: "(int, ('p, 'k) Session option) stdmap"
  m_backend_list :: "(int, 'b option) stdmap"
  epoll_fds :: "int list"
  closed_fds :: "int list"

record epoll_event =
  ev_fd :: int
  ev_in :: bool
  ev_out :: bool
  ev_err :: bool

definition new_Session_Group :: "('p, 'k, 'b) Session_Group" where
  "new_Session_Group = \<lparr> m_session_list = [], m_backend_list = [], epoll_fds = [], closed_fds = [] \<rparr>"

definition epoll_del :: "int \<Rightarrow> ('p, 'k, 'b) Session_Group \<Rightarrow> ('p, 'k, 'b) Session_Group" where
  "epoll_del fd g = g\<lparr> epoll_fds := removeAll fd (epoll_fds g) \<rparr>"

definition close_fd :: "int \<Rightarrow> ('p, 'k, 'b) Session_Group \<Rightarrow> ('p, 'k, 'b) Session_Group" where
  "close_fd fd g = g\<lparr> closed_fds := closed_fds g @ [fd] \<rparr>"

text \<open>\<open>Append\<close>; whether the kernel takes the descriptor is given.\<close>

definition Append :: "bool \<Rightarrow> int \<Rightarrow> ('p, 'k) Session \<Rightarrow> ('p, 'k, 'b) Session_Group \<Rightarrow> ('p, 'k, 'b) Session_Group" where
  "Append epoll_ok fd s g =
     (if epoll_ok then g\<lparr> epoll_fds := epoll_fds g @ [fd], m_session_list := mput fd (Some s) (m_session_list g) \<rparr> else g)"

definition Remove :: "('p, 'k) IHttp_ops \<Rightarrow> int \<Rightarrow> ('p, 'k, 'b) Session_Group \<Rightarrow> ('p, 'k, 'b) Session_Group" where
  "Remove ops fd g =
     (case mfind (m_session_list g) fd of
        None \<Rightarrow> g
      | Some entry \<Rightarrow>
          let g = (case Option.bind (Option.bind entry m_http_protocol_instance) (p_backend_sockfd ops) of
                     None \<Rightarrow> g
                   | Some back \<Rightarrow> if back = - 1 then g
                       else close_fd back (g\<lparr> m_backend_list := merase back (m_backend_list g) \<rparr>))
          in epoll_del fd (g\<lparr> m_session_list := merase fd (m_session_list g) \<rparr>))"

text \<open>What a session does when it may send or when something has come: what \<open>AsyncProcessing\<close> returns is not looked at.\<close>

definition session_turn ::
  "('p, 'k) IHttp_ops \<Rightarrow> int \<Rightarrow> int \<Rightarrow> (('p, 'k) Session \<Rightarrow> int \<times> ('p, 'k) Session) \<Rightarrow> int \<Rightarrow> ('p, 'k) Session \<Rightarrow>
    ('p, 'k, 'b) Session_Group \<Rightarrow> ('p, 'k, 'b) Session_Group outcome" where
  "session_turn ops timeout clk io fd s g =
     (let (r, s) = io s; g = g\<lparr> m_session_list := mput fd (Some s) (m_session_list g) \<rparr>
      in if r < 0 then Some (close_fd fd (Remove ops fd g))
         else do {
           (_, s) \<leftarrow> Session_AsyncProcessing ops timeout clk s;
           Some (g\<lparr> m_session_list := mput fd (Some s) (m_session_list g) \<rparr>)
         })"

definition backend_turn :: "'b backend_ops \<Rightarrow> ('b \<Rightarrow> int \<times> 'b) \<Rightarrow> int \<Rightarrow> ('p, 'k, 'b) Session_Group \<Rightarrow> ('p, 'k, 'b) Session_Group" where
  "backend_turn bops io fd g =
     (case mfind (m_backend_list g) fd of
        None \<Rightarrow> g
      | Some None \<Rightarrow> close_fd fd (epoll_del fd g)
      | Some (Some b) \<Rightarrow>
          let (r, b) = io b
          in if r < 0 then close_fd fd (epoll_del fd (g\<lparr> m_backend_list := mput fd (Some b) (m_backend_list g) \<rparr>))
             else g\<lparr> m_backend_list := mput fd (Some (b_async_processing bops b)) (m_backend_list g) \<rparr>)"

definition turn ::
  "('p, 'k) IHttp_ops \<Rightarrow> 'b backend_ops \<Rightarrow> int \<Rightarrow> int \<Rightarrow> (('p, 'k) Session \<Rightarrow> int \<times> ('p, 'k) Session) \<Rightarrow> ('b \<Rightarrow> int \<times> 'b) \<Rightarrow> int \<Rightarrow>
    ('p, 'k, 'b) Session_Group \<Rightarrow> ('p, 'k, 'b) Session_Group outcome" where
  "turn ops bops timeout clk io back_io fd g =
     (case mfind (m_session_list g) fd of
        Some (Some s) \<Rightarrow> session_turn ops timeout clk io fd s g
      | _ \<Rightarrow> Some (backend_turn bops back_io fd g))"

definition event_err :: "('p, 'k) IHttp_ops \<Rightarrow> int \<Rightarrow> ('p, 'k, 'b) Session_Group \<Rightarrow> ('p, 'k, 'b) Session_Group" where
  "event_err ops fd g =
     (let g = close_fd fd (epoll_del fd g)
      in case mfind (m_session_list g) fd of
           Some (Some s) \<Rightarrow> Remove ops fd g
         | _ \<Rightarrow> g\<lparr> m_backend_list := merase fd (m_backend_list g) \<rparr>)"

definition handle_event ::
  "('p, 'k) IHttp_ops \<Rightarrow> 'b backend_ops \<Rightarrow> int \<Rightarrow> int \<Rightarrow> epoll_event \<Rightarrow> ('p, 'k, 'b) Session_Group \<Rightarrow> ('p, 'k, 'b) Session_Group outcome" where
  "handle_event ops bops timeout clk ev g = do {
     g \<leftarrow> (if ev_out ev then turn ops bops timeout clk (Session_AsyncSend ops) (b_async_flush bops) (ev_fd ev) g else Some g);
     g \<leftarrow> (if ev_in ev then turn ops bops timeout clk (Session_AsyncRecv ops) (b_async_recv bops) (ev_fd ev) g else Some g);
     Some (if ev_err ev then event_err ops (ev_fd ev) g else g)
   }"


subsection \<open>The engine as a protocol object\<close>

text \<open>What is left of the engine is the socket: what has not been read from it, what it will take, what it has taken.\<close>

record socket =
  in_events :: "recv_event list"
  send_events :: "send_event list"
  taken_octets :: bytes

definition http1_protocol :: "engine_env \<Rightarrow> (engine \<Rightarrow> (Http_Connection \<times> engine) outcome) \<Rightarrow> int \<Rightarrow> int \<Rightarrow> AUTH_SCHEME \<Rightarrow>
    (engine, socket) IHttp_ops" where
  "http1_protocol env processing timeout clk scheme =
     \<lparr> p_new = (\<lambda>tickets first k. (new_engine env tickets timeout (clk - first) ''localhost'' 80 ''::1'' scheme scheme False)
         \<lparr> sock_in := in_events k, sock_send := send_events k, sock_out := taken_octets k \<rparr>),
       p_AsyncRecv = Http1_AsyncRecv, p_AsyncSend = AsyncSend, p_AsyncProcessing = Http1_AsyncProcessing env, p_Processing = processing,
       p_leaves = (\<lambda>e. \<lparr> in_events = sock_in e, send_events = sock_send e, taken_octets = sock_out e \<rparr>),
       p_backend_sockfd = (\<lambda>e. None) \<rparr>"

subsection \<open>Properties of the event loop\<close>

lemma merase_mput [simp]: "merase k (mput k v m) = merase k m"
  by (induction k v m rule: mput.induct) (auto simp: merase_def)

text \<open>
  C30: a connection is kept open, but the next request on it is lost. When a session has finished a response, with
  \<open>httpKeepAlive\<close> or \<open>httpClose\<close>, its protocol object is deleted and the session stays in the list with its socket open; the
  next event for the socket removes the session and closes the socket, and nothing was read from it.
\<close>

theorem keep_alive_lost:
  assumes "mfind (m_session_list g) fd = Some (Some s)" and "Session_AsyncRecv ops s = (r, s1)" and "0 \<le> r"
    and "p_AsyncProcessing ops (the (m_http_protocol_instance s1)) = Some (conn, p)" and "conn = httpKeepAlive \<or> conn = httpClose"
  defines "ev \<equiv> \<lparr> ev_fd = fd, ev_in = True, ev_out = False, ev_err = False \<rparr>"
  shows "\<exists>g1 s2. handle_event ops bops timeout clk ev g = Some g1 \<and> mfind (m_session_list g1) fd = Some (Some s2) \<and>
    closed_fds g1 = closed_fds g \<and> m_left s2 = p_leaves ops p \<and>
    handle_event ops bops timeout clk ev g1 =
      Some (close_fd fd (epoll_del fd (g1\<lparr> m_session_list := merase fd (m_session_list g1) \<rparr>)))"
proof -
  have s1: "m_http_protocol_instance s1 \<noteq> None"
    using assms(2,3) by (auto simp: Session_AsyncRecv_def split: option.splits prod.splits)
  then have c: "CreateProtocol ops s1 = s1"
    by (auto simp: CreateProtocol_def)
  define s2 where "s2 = snd (instance_done ops timeout clk conn p s1)"
  have s2: "Session_AsyncProcessing ops timeout clk s1 = Some (fst (instance_done ops timeout clk conn p s1), s2)"
    "m_http_protocol_instance s2 = None" "m_left s2 = p_leaves ops p"
    using s1 assms(4,5) by (auto simp: Session_AsyncProcessing_def c s2_def instance_done_def Let_def)
  define g1 where "g1 = g\<lparr> m_session_list := mput fd (Some s2) (mput fd (Some s1) (m_session_list g)) \<rparr>"
  have "handle_event ops bops timeout clk ev g = Some g1"
    using assms(1-3) s2(1) by (simp add: handle_event_def ev_def turn_def session_turn_def g1_def)
  moreover have f: "mfind (m_session_list g1) fd = Some (Some s2)"
    by (simp add: g1_def)
  moreover have "handle_event ops bops timeout clk ev g1 =
      Some (close_fd fd (epoll_del fd (g1\<lparr> m_session_list := merase fd (m_session_list g1) \<rparr>)))"
    using f s2(2) by (simp add: handle_event_def ev_def turn_def session_turn_def Session_AsyncRecv_def Remove_def)
  ultimately show ?thesis
    using s2(3) by (simp add: g1_def)
qed


text \<open>The witness of it: an engine that has sent everything of its response.\<close>

definition done_engine :: engine where
  "done_engine = to_state httpComplete (word_engine asNone\<lparr> sock_in := [Would_block, Chunk [0x47], Would_block] \<rparr>)"

definition done_session :: "(engine, socket) Session" where
  "done_session = \<lparr> m_http_protocol_instance = Some done_engine, m_left = \<lparr> in_events = [], send_events = [], taken_octets = [] \<rparr>,
     m_connection_keep_alive_tickets = 10, m_first_connection_request_time = 0 \<rparr>"

definition one_session :: "(engine, socket, unit) Session_Group" where
  "one_session = Append True 5 done_session new_Session_Group"

abbreviation word_protocol :: "(engine, socket) IHttp_ops" where
  "word_protocol \<equiv> http1_protocol word_env (\<lambda>e. None) 60 0 asNone"

definition no_backends :: "unit backend_ops" where
  "no_backends = \<lparr> b_async_processing = (\<lambda>b. b), b_async_recv = (\<lambda>b. (0, b)), b_async_flush = (\<lambda>b. (0, b)) \<rparr>"

definition read_engine :: engine where
  "read_engine = done_engine\<lparr> sock_in := [Chunk [0x47], Would_block] \<rparr>"

lemma done_recv:
  "Session_AsyncRecv word_protocol done_session = (0, done_session\<lparr> m_http_protocol_instance := Some read_engine \<rparr>)"
  by (simp add: Session_AsyncRecv_def done_session_def http1_protocol_def Http1_AsyncRecv_def done_engine_def read_engine_def to_state_def)

lemma read_processing: "p_AsyncProcessing word_protocol read_engine = Some (httpKeepAlive, read_engine)"
proof -
  have "http_state read_engine = httpComplete" "m_send_buf read_engine = []" "connection_after read_engine = httpKeepAlive"
    by (simp_all add: read_engine_def done_engine_def to_state_def http_state_def connection_after_def)
      (simp_all add: word_engine_def new_engine_def keep_alive_left_def new_CHttp_def SetMeta_def)
  then show ?thesis
    by (simp add: http1_protocol_def Http1_AsyncProcessing_def header_loop_stop body_turn_def reply_turn_def flush_turn_def
        AsyncHttpFlush_def responding_def tunnelling_def state_no_def)
qed

lemma one_session_find: "mfind (m_session_list one_session) 5 = Some (Some done_session)" "closed_fds one_session = []"
  by (simp_all add: one_session_def Append_def new_Session_Group_def)

theorem keep_alive_lost_witness:
  "let ev = \<lparr> ev_fd = 5, ev_in = True, ev_out = False, ev_err = False \<rparr>
   in \<exists>g1 s2. handle_event word_protocol no_backends 60 0 ev one_session = Some g1 \<and>
     mfind (m_session_list g1) 5 = Some (Some s2) \<and> closed_fds g1 = [] \<and> in_events (m_left s2) = [Chunk [0x47], Would_block] \<and>
     handle_event word_protocol no_backends 60 0 ev g1 =
       Some (close_fd 5 (epoll_del 5 (g1\<lparr> m_session_list := merase 5 (m_session_list g1) \<rparr>)))"
proof -
  have p: "p_AsyncProcessing word_protocol (the (m_http_protocol_instance (done_session\<lparr> m_http_protocol_instance := Some read_engine \<rparr>))) =
      Some (httpKeepAlive, read_engine)"
    using read_processing by simp
  have "in_events (p_leaves word_protocol read_engine) = [Chunk [0x47], Would_block]"
    by (simp add: http1_protocol_def read_engine_def)
  then show ?thesis
    using keep_alive_lost [OF one_session_find(1) done_recv _ p, of no_backends 60 0] one_session_find(2) by (auto simp: Let_def)
qed





lemma group_fields [simp]:
  "m_session_list (epoll_del fd g) = m_session_list g" "closed_fds (epoll_del fd g) = closed_fds g"
  "m_session_list (close_fd fd g) = m_session_list g" "closed_fds (close_fd fd g) = closed_fds g @ [fd]"
  by (simp_all add: epoll_del_def close_fd_def)









text \<open>
  the number of requests on one connection is bounded and the loop ends. Without the event loop a session that starts with n tickets
  uses at most n protocol objects, one at least, if every object ends its processing.
\<close>

theorem requests_bounded:
  assumes "\<And>p. p_Processing ops p \<noteq> None"
  shows "\<exists>m s'. Session_Processing ops timeout clk n s = Some (m, s') \<and> n < m \<and>
    m \<le> n + max 1 (unat (m_connection_keep_alive_tickets s))"
  using assms
proof (induction ops timeout clk n s rule: Session_Processing.induct)
  case (1 ops timeout clk n s)
  obtain p where p: "m_http_protocol_instance (CreateProtocol ops s) = Some p"
    using created_instance [of ops s] by blast
  obtain conn q where q: "p_Processing ops p = Some (conn, q)"
    using 1(2) [of p] by auto
  let ?d = "instance_done ops timeout (clk n) conn q (CreateProtocol ops s)"
  show ?case
  proof (cases "fst ?d = httpClose")
    case True
    then show ?thesis
      using p q by (subst Session_Processing.simps) (auto simp: max_def)
  next
    case False
    have "Session_Processing ops timeout clk n s = Session_Processing ops timeout clk (Suc n) (snd ?d)"
      using p q False by (subst Session_Processing.simps) simp
    then show ?thesis
      using 1(1) [OF refl p q refl False 1(2)] ticket_used [OF False] by auto
  qed
qed

theorem requests_bounded_witness:
  "\<exists>m s'. Session_Processing (http1_protocol word_env (\<lambda>e. Some (httpKeepAlive, e)) 60 0 asNone) 60 (\<lambda>_. 0) 0 done_session = Some (m, s') \<and>
    0 < m \<and> m \<le> 10"
  using requests_bounded [of "http1_protocol word_env (\<lambda>e. Some (httpKeepAlive, e)) 60 0 asNone" 60 "\<lambda>_. 0" 0 done_session]
  by (simp add: http1_protocol_def done_session_def)

end
