(* ===== verification/Http_client.thy ===== *)
theory Http_client
  imports Http1parse
begin

section \<open>The response of a server behind\<close>

text \<open>
  \<open>http_client\<close> and \<open>http_chunk\<close> (http_client.h, http_client.cpp): the response of a server behind, relayed to the client while its header
  and its framing are read. What \<open>client_send\<close> answers is given, one value for each call and success from
  then on; the octets it takes are collected. Given as well are the configuration, whether the request was HEAD, the
  seconds that are left until a date, and what stands in the buffer behind the octets that are used.
\<close>

subsection \<open>State\<close>

datatype HTTP_Client_Parse_State = Parse_Header | Parse_Content | Chunk_Header | Chunk_Content | Chunk_Footer

record relay =
  client_out :: bytes
  client_ok :: "bool list"
  closed_by_force :: bool

definition client_send :: "bytes \<Rightarrow> relay \<Rightarrow> bool \<times> relay" where
  "client_send b r = (case client_ok r of
     [] \<Rightarrow> (True, r\<lparr> client_out := client_out r @ b \<rparr>)
   | ok # oks \<Rightarrow> (ok, r\<lparr> client_out := (if ok then client_out r @ b else client_out r), client_ok := oks \<rparr>))"

record http_chunk =
  m_chunk_len :: u32
  m_sent_chunk :: u32
  ck_state :: HTTP_Client_Parse_State

definition new_http_chunk :: http_chunk where
  "new_http_chunk = \<lparr> m_chunk_len = 0, m_sent_chunk = 0, ck_state = Chunk_Header \<rparr>"

subsection \<open>Chunks\<close>

text \<open>\<open>sscanf\<close> with \<open>%x\<close>: blanks, a sign, a prefix, digits; the number saturates at 64 bits and is cut to 32.\<close>

definition is_hex :: "char \<Rightarrow> bool" where
  "is_hex c \<longleftrightarrow> CHR ''0'' \<le> c \<and> c \<le> CHR ''9'' \<or> CHR ''a'' \<le> c \<and> c \<le> CHR ''f'' \<or> CHR ''A'' \<le> c \<and> c \<le> CHR ''F''"

definition hex_of :: "char \<Rightarrow> int" where
  "hex_of c = (if c \<le> CHR ''9'' then of_char c - 48 else if c \<le> CHR ''F'' then of_char c - 55 else of_char c - 87)"

definition sscanf_x :: "string \<Rightarrow> u32 option" where
  "sscanf_x s =
     (let s = dropWhile (\<lambda>c. is_ws c \<or> c = CHR 0x0B \<or> c = CHR 0x0C) (cstr s);
          neg = (take 1 s = ''-''); s = (if take 1 s = ''-'' \<or> take 1 s = ''+'' then drop 1 s else s);
          zero = (take 1 s = ''0''); s = (if take 2 s = ''0x'' \<or> take 2 s = ''0X'' then drop 2 s else s);
          digits = takeWhile is_hex s; v = foldl (\<lambda>a c. 16 * a + hex_of c) 0 digits
      in if digits = [] \<and> \<not> zero then None
         else Some (if v \<ge> 2 ^ 64 then - 1 else if neg then - word_of_int v else word_of_int v))"

definition crlf :: bytes where "crlf = [0x0D, 0x0A]"

text \<open>The octets of a chunk with the line end behind them, as far as they are there.\<close>

definition send_chunk :: "http_chunk \<Rightarrow> bytes \<Rightarrow> relay \<Rightarrow> bool \<times> http_chunk \<times> bytes \<times> relay" where
  "send_chunk k buf r =
     (let left = unat (m_chunk_len k - m_sent_chunk k);
          should_send_len = (if length buf > left then left else length buf);
          (ok, r) = client_send (take should_send_len buf) r
      in if \<not> ok then (False, k, buf, r)
         else let sent = m_sent_chunk k + word_of_nat should_send_len
           in (True, if sent = m_chunk_len k then \<lparr> m_chunk_len = 0, m_sent_chunk = 0, ck_state = Chunk_Header \<rparr> else k\<lparr> m_sent_chunk := sent \<rparr>,
               drop should_send_len buf, r))"

datatype 's chunk_result = Stop bool 's | Go_round 's

text \<open>The lines behind the last chunk: the response ends with an empty one.\<close>

definition chunk_footer :: "http_chunk \<Rightarrow> bytes \<Rightarrow> relay \<Rightarrow> (http_chunk \<times> bytes \<times> relay) chunk_result" where
  "chunk_footer k buf r =
     (case find_bytes (crlf @ crlf) buf of
        None \<Rightarrow> Stop True (k, buf, r)
      | Some pos \<Rightarrow>
          let (ok, r) = client_send (take (pos + 4) buf) r
          in Stop False (k, if ok then drop (pos + 4) buf else buf, r))"

definition chunk_header :: "http_chunk \<Rightarrow> bytes \<Rightarrow> relay \<Rightarrow> (http_chunk \<times> bytes \<times> relay) chunk_result" where
  "chunk_header k buf r =
     (case find_bytes crlf buf of
        None \<Rightarrow> Stop True (k, buf, r)
      | Some pos \<Rightarrow>
          (case sscanf_x (of_bytes (take (min pos 31) buf)) of
             None \<Rightarrow> Stop False (k, buf, r)
           | Some chunk_len \<Rightarrow>
               if chunk_len > 0 then
                 let k = k\<lparr> m_chunk_len := chunk_len + 2 \<rparr>; (ok, r) = client_send (take (pos + 2) buf) r
                 in if \<not> ok then Stop False (k, buf, r)
                    else let buf = drop (pos + 2) buf; k = k\<lparr> ck_state := Chunk_Content \<rparr>
                      in if buf = [] then Go_round (k, buf, r)
                         else (case send_chunk k buf r of (ok, s) \<Rightarrow> if ok then Go_round s else Stop False s)
               else
                 let k = k\<lparr> m_chunk_len := 0 \<rparr>; (ok, r) = client_send (take pos buf) r
                 in if \<not> ok then Stop False (k, buf, r)
                    else chunk_footer (k\<lparr> ck_state := Chunk_Footer \<rparr>) (drop pos buf) r))"

definition chunk_round :: "http_chunk \<Rightarrow> bytes \<Rightarrow> relay \<Rightarrow> (http_chunk \<times> bytes \<times> relay) chunk_result" where
  "chunk_round k buf r =
     (if ck_state k = Chunk_Header then chunk_header k buf r
      else if ck_state k = Chunk_Content then (case send_chunk k buf r of (ok, s) \<Rightarrow> if ok then Go_round s else Stop False s)
      else chunk_footer k buf r)"


definition chunk_turns :: "http_chunk \<Rightarrow> nat" where
  "chunk_turns k = (if ck_state k = Chunk_Content then 1 else 0)"

lemma client_send_lossless:
  "client_send b r = (ok, r') \<Longrightarrow> client_out r' = (if ok then client_out r @ b else client_out r) \<and> (client_ok r = [] \<longrightarrow> ok \<and> client_ok r' = [])"
  by (auto simp: client_send_def split: list.splits)

lemma send_chunk_turn:
  assumes "send_chunk k buf r = (True, k', buf', r')" and "buf \<noteq> []" and "ck_state k = Chunk_Content"
  shows "2 * length buf' + chunk_turns k' < 2 * length buf + chunk_turns k"
proof (cases "m_chunk_len k - m_sent_chunk k = 0")
  case True
  then have "m_sent_chunk k = m_chunk_len k"
    by simp
  then show ?thesis
    using assms by (auto simp: send_chunk_def Let_def chunk_turns_def split: prod.splits if_splits)
next
  case False
  then have "0 < unat (m_chunk_len k - m_sent_chunk k)"
    by (simp add: unat_gt_0)
  then show ?thesis
    using assms by (auto simp: send_chunk_def Let_def chunk_turns_def split: prod.splits if_splits)
qed

lemma find_bytes_Some: "find_bytes p s = Some i \<Longrightarrow> i + length p \<le> length s \<and> take (length p) (drop i s) = p"
proof (induction p s arbitrary: i rule: find_bytes.induct)
  case (2 p b bs)
  show ?case
  proof (cases "take (length p) (b # bs) = p")
    case True
    then have "length p \<le> length (b # bs)"
      by (metis length_take min.cobounded1)
    then show ?thesis
      using True 2(2) by auto
  next
    case False
    then show ?thesis
      using 2 by auto
  qed
qed (auto split: if_splits)

lemma chunk_round_turn:
  assumes "chunk_round k buf r = Go_round (k', buf', r')" and "buf \<noteq> []"
  shows "2 * length buf' + chunk_turns k' < 2 * length buf + chunk_turns k"
proof (cases "ck_state k = Chunk_Header")
  case False
  then show ?thesis
    using assms send_chunk_turn [of k buf r]
    by (auto simp: chunk_round_def chunk_footer_def Let_def split: if_splits option.splits prod.splits)
next
  case True
  obtain pos where pos: "find_bytes crlf buf = Some pos"
    using assms(1) True by (cases "find_bytes crlf buf") (auto simp: chunk_round_def chunk_header_def)
  have len: "pos + 2 \<le> length buf"
    using find_bytes_Some [OF pos] by (simp add: crlf_def)
  obtain chunk_len where l: "sscanf_x (of_bytes (take (min pos 31) buf)) = Some chunk_len" "chunk_len > 0"
    using assms(1) True pos
    by (auto simp: chunk_round_def chunk_header_def chunk_footer_def Let_def split: option.splits if_splits prod.splits)
  let ?k = "k\<lparr> m_chunk_len := chunk_len + 2, ck_state := Chunk_Content \<rparr>"
  obtain r1 where r1: "client_send (take (pos + 2) buf) r = (True, r1)"
    using assms(1) True pos l by (cases "client_send (take (pos + 2) buf) r") (auto simp: chunk_round_def chunk_header_def Let_def split: if_splits)
  show ?thesis
  proof (cases "drop (pos + 2) buf = []")
    case True
    then show ?thesis
      using assms \<open>ck_state k = Chunk_Header\<close> pos l r1 len
      by (auto simp: chunk_round_def chunk_header_def Let_def chunk_turns_def)
  next
    case False
    then have "send_chunk ?k (drop (pos + 2) buf) r1 = (True, k', buf', r')"
      using assms \<open>ck_state k = Chunk_Header\<close> pos l r1
      by (auto simp: chunk_round_def chunk_header_def Let_def split: prod.splits if_splits)
    from send_chunk_turn [OF this False] show ?thesis
      using len by (simp add: chunk_turns_def)
  qed
qed

function chunk_processing :: "http_chunk \<Rightarrow> bytes \<Rightarrow> relay \<Rightarrow> bool \<times> http_chunk \<times> bytes \<times> relay" where
  "chunk_processing k buf r =
     (if buf = [] then (True, k, buf, r)
      else case chunk_round k buf r of
        Stop go s \<Rightarrow> (go, s)
      | Go_round (k', buf', r') \<Rightarrow> chunk_processing k' buf' r')"
  by pat_completeness auto
termination
  by (relation "measure (\<lambda>(k, buf, r). 2 * length buf + chunk_turns k)") (auto dest: chunk_round_turn)

declare chunk_processing.simps [simp del]

subsection \<open>The header of the response\<close>

record http_client =
  out_of_cache_header_scope :: bool
  has_via :: bool
  hc_line_text :: string
  has_content_length :: bool
  hc_content_length :: int
  is_200_ok :: bool
  use_cache :: bool
  cache_completed :: bool
  cache_max_age :: int
  cache_shared_max_age :: int
  hc_fields :: "string \<Rightarrow> string"
  is_chunked :: bool
  hc_state :: HTTP_Client_Parse_State
  hc_buf :: bytes
  hc_sent :: int
  hc_chunk :: "http_chunk option"
  hc_url :: string
  cache_buf :: "(nat \<times> bytes) option"
  hc_header :: string
  hc_relay :: relay

text \<open>
  What the client reads from outside: the switches and the bound of the cache, the name of the server, whether the
  request was HEAD, and \<open>ParseGMTorUTCTimeString\<close> less the time.
\<close>

record hc_env =
  enable_tunneling_cache :: bool
  single_tunneling_cache_size :: int
  localhostname :: string
  is_head :: bool
  seconds_left :: "string \<Rightarrow> int"

definition new_http_client :: "string \<Rightarrow> relay \<Rightarrow> http_client" where
  "new_http_client url r = \<lparr> out_of_cache_header_scope = False, has_via = False, hc_line_text = [], has_content_length = True,
     hc_content_length = - 1, is_200_ok = False, use_cache = False, cache_completed = False, cache_max_age = 300,
     cache_shared_max_age = - 1, hc_fields = (\<lambda>_. []), is_chunked = False, hc_state = Parse_Header, hc_buf = [], hc_sent = 0,
     hc_chunk = None, hc_url = strtrim url, cache_buf = None, hc_header = [], hc_relay = r \<rparr>"

definition VERSION_STRING :: string where "VERSION_STRING = ''Heaphttpd/1.1''"

definition this_hop :: "hc_env \<Rightarrow> string" where
  "this_hop env = ''HTTP/1.1 '' @ cstr (localhostname env) @ ''('' @ VERSION_STRING @ '')''"

text \<open>A response with an age may be kept, when it is a plain 200 and not in chunks.\<close>

definition cache_for :: "int \<Rightarrow> http_client \<Rightarrow> http_client" where
  "cache_for age c = c\<lparr> use_cache := age > 0 \<and> is_200_ok c \<and> \<not> is_chunked c \<rparr>"

definition shorter_age :: "int \<Rightarrow> int \<Rightarrow> int" where
  "shorter_age n age = (if n < age then (if n < 0 then 0 else n) else age)"

text \<open>The value is searched from its fifteenth character; behind a shorter one the search is outside it.\<close>

definition cache_control_line :: "string \<Rightarrow> http_client \<Rightarrow> http_client outcome" where
  "cache_control_line strtext c =
     (let cc = strtrim (strcut (cstr strtext) (Some ''Cache-Control:'') None);
          c = c\<lparr> hc_fields := (hc_fields c)(''Cache-Control'' := cc) \<rparr>;
          rest = drop 14 cc
      in if length cc < 14 then None
         else if list_ex (\<lambda>w. find_sub w rest \<noteq> None) [''no-cache'', ''no-store'', ''proxy-revalidate'', ''must-revalidate'', ''private'']
         then Some (c\<lparr> use_cache := False \<rparr>)
         else
           let c = (case find_sub ''max-age='' rest of None \<Rightarrow> c
                  | Some i \<Rightarrow>
                      let n = atoi (strtrim (strcut (drop i rest) (Some ''max-age='') None)); age = shorter_age n (cache_max_age c)
                      in cache_for age (c\<lparr> cache_max_age := age \<rparr>))
           in Some (case find_sub ''s-maxage='' rest of None \<Rightarrow> c
                  | Some i \<Rightarrow>
                      let n = atoi (strtrim (strcut (drop i rest) (Some ''s-maxage='') None)); age = shorter_age n (cache_shared_max_age c)
                      in cache_for age (c\<lparr> cache_shared_max_age := age \<rparr>)))"

definition content_length_line :: "hc_env \<Rightarrow> string \<Rightarrow> http_client \<Rightarrow> http_client" where
  "content_length_line env strtext c =
     (let c = c\<lparr> hc_content_length := (if is_head env then 0 else atoll (strtrim (strcut (cstr strtext) (Some ''Content-Length:'') None))) \<rparr>
      in if hc_content_length c \<ge> 0 then c\<lparr> has_content_length := True \<rparr> else c)"

definition encoding_line :: "string \<Rightarrow> http_client \<Rightarrow> http_client" where
  "encoding_line strtext c =
     (if find_sub ''chunked'' (strtrim (strcut (cstr strtext) (Some ''Transfer-Encoding:'') None)) \<noteq> None
      then c\<lparr> is_chunked := True, use_cache := False \<rparr> else c)"

definition expires_line :: "hc_env \<Rightarrow> string \<Rightarrow> http_client \<Rightarrow> http_client" where
  "expires_line env strtext c =
     (let date = strtrim (strcut (cstr strtext) (Some ''Expires:'') None); age = shorter_age (seconds_left env date) (cache_max_age c)
      in cache_for age (c\<lparr> hc_fields := (hc_fields c)(''Expires'' := date), cache_max_age := age \<rparr>))"

text \<open>A field that is kept for the cache as it is.\<close>

definition keep_field :: "string \<Rightarrow> string \<Rightarrow> http_client \<Rightarrow> http_client" where
  "keep_field f strtext c = c\<lparr> hc_fields := (hc_fields c)(f := strtrim (strcut (cstr strtext) (Some (f @ '':'')) None)) \<rparr>"

definition named :: "string \<Rightarrow> string \<Rightarrow> bool" where
  "named strtext f \<longleftrightarrow> strncaseeq (cstr strtext) (f @ '':'') (length f + 1)"

text \<open>One line of the header that is not empty, and the text that goes on to the client for it.\<close>

definition response_line :: "hc_env \<Rightarrow> string \<Rightarrow> http_client \<Rightarrow> (string \<times> http_client) outcome" where
  "response_line env strtext c =
     (if strncaseeq (cstr strtext) ''HTTP/1.0 '' 9 \<or> strncaseeq (cstr strtext) ''HTTP/1.1 '' 9
      then Some (strtext, if find_sub '' 200 OK'' (drop 8 (cstr strtext)) \<noteq> None then c\<lparr> is_200_ok := True \<rparr> else c)
      else if named strtext ''Content-Length'' then Some (strtext, content_length_line env strtext c)
      else if named strtext ''Transfer-Encoding'' then Some (strtext, encoding_line strtext c)
      else if named strtext ''Cache-Control'' then map_option (Pair strtext) (cache_control_line strtext c)
      else if named strtext ''ETag'' then
        Some (strtext, c\<lparr> hc_fields := (hc_fields c)(''ETag'' := strtrim_aim (''\"'' @ '' '') (strcut (cstr strtext) (Some ''ETag:'') None)) \<rparr>)
      else if named strtext ''Server'' then Some (strtext, keep_field ''Server'' strtext c)
      else if named strtext ''Allow'' then Some (strtext, keep_field ''Allow'' strtext c)
      else if named strtext ''Content-Encoding'' then Some (strtext, keep_field ''Content-Encoding'' strtext c)
      else if named strtext ''Content-Language'' then Some (strtext, keep_field ''Content-Language'' strtext c)
      else if named strtext ''Last-Modified'' then Some (strtext, keep_field ''Last-Modified'' strtext c)
      else if named strtext ''Expires'' then Some (strtext, expires_line env strtext c)
      else if named strtext ''Content-Type'' then Some (strtext, keep_field ''Content-Type'' strtext c)
      else if named strtext ''Via'' then
        Some (strtext @ '', '' @ this_hop env,
          c\<lparr> hc_fields := (hc_fields c)(''Via'' := strtrim (strcut (cstr strtext) (Some ''Server:'') None)), has_via := True \<rparr>)
      else if named strtext ''Connection'' \<or> named strtext ''Accept-Ranges'' \<or> named strtext ''Date'' then Some (strtext, c)
      else Some (strtext, c\<lparr> out_of_cache_header_scope := True \<rparr>))"

definition hc_send :: "bytes \<Rightarrow> http_client \<Rightarrow> bool \<times> http_client" where
  "hc_send b c = (let (ok, r) = client_send b (hc_relay c) in (ok, c\<lparr> hc_relay := r \<rparr>))"

text \<open>The empty line: what can be kept gets its buffer, and the header is sent.\<close>

definition response_header_done :: "hc_env \<Rightarrow> http_client \<Rightarrow> bool \<times> http_client" where
  "response_header_done env c =
     (let c = (if out_of_cache_header_scope c then c\<lparr> use_cache := False \<rparr> else c);
          c = (if enable_tunneling_cache env \<and> use_cache c \<and> has_content_length c \<and>
                 hc_content_length c \<le> single_tunneling_cache_size env \<and> hc_content_length c > 0
               then c\<lparr> cache_buf := Some (nat (hc_content_length c) + 1, []) \<rparr> else c);
          c = (if \<not> has_via c then c\<lparr> hc_header := hc_header c @ ''Via: '' @ this_hop env @ CRLF \<rparr> else c);
          c = c\<lparr> hc_header := hc_header c @ CRLF \<rparr>
      in hc_send (to_bytes (hc_header c)) c)"

function response_lines :: "hc_env \<Rightarrow> string \<Rightarrow> http_client \<Rightarrow> (bool \<times> http_client) outcome" where
  "response_lines env s c =
     (case find_if (\<lambda>x. x = CHR 0x0A) s of
        None \<Rightarrow> Some (True, c\<lparr> hc_line_text := s \<rparr>)
      | Some new_line \<Rightarrow>
          let strtext = capitalise True (strtrim (take (Suc new_line) s)); rest = drop (Suc new_line) s
          in if cstr strtext = [] then Some (response_header_done env (c\<lparr> hc_line_text := rest \<rparr>))
             else (case response_line env strtext c of None \<Rightarrow> None
               | Some (strtext, c) \<Rightarrow>
                   let c = c\<lparr> hc_header := hc_header c @ strtext @ CRLF \<rparr>
                   in if length (hc_header c) > 4096 then
                        let (ok, c) = hc_send (to_bytes (hc_header c)) c
                        in if \<not> ok then Some (False, c\<lparr> hc_line_text := rest \<rparr>)
                           else response_lines env rest (c\<lparr> hc_header := [] \<rparr>)
                      else response_lines env rest c))"
  by pat_completeness auto
termination
  by (relation "measure (\<lambda>(env, s, c). length s)") (auto dest!: find_if_length)

declare response_lines.simps [simp del]

definition parse_response :: "hc_env \<Rightarrow> string \<Rightarrow> http_client \<Rightarrow> (bool \<times> http_client) outcome" where
  "parse_response env txt c =
     (let s = hc_line_text c @ cstr txt
      in if length s > 64 * 1024 then Some (False, c\<lparr> hc_line_text := s, hc_relay := (hc_relay c)\<lparr> closed_by_force := True \<rparr> \<rparr>)
         else response_lines env s c)"

subsection \<open>\<open>processing\<close>\<close>

text \<open>The content without chunks: the copy for the cache is bounded by the length that was announced.\<close>

definition copy_content :: "http_client \<Rightarrow> http_client outcome" where
  "copy_content c =
     (case (if use_cache c then cache_buf c else None) of
        None \<Rightarrow> Some c
      | Some (cap, data) \<Rightarrow>
          if length data + length (hc_buf c) > cap then None else Some (c\<lparr> cache_buf := Some (cap, data @ hc_buf c) \<rparr>))"

definition relay_content :: "http_client \<Rightarrow> bool \<times> http_client" where
  "relay_content c =
     (let (ok, c) = hc_send (hc_buf c) c
      in if \<not> ok then (False, c)
         else let c = c\<lparr> hc_sent := hc_sent c + int (length (hc_buf c)), hc_buf := [] \<rparr>
           in if has_content_length c \<and> hc_sent c = hc_content_length c then (False, c\<lparr> cache_completed := True \<rparr>) else (True, c))"

definition send_content :: "http_client \<Rightarrow> (bool \<times> http_client) outcome" where
  "send_content c = (if hc_buf c = [] then Some (True, c) else map_option relay_content (copy_content c))"

definition send_chunks :: "http_client \<Rightarrow> bool \<times> http_client" where
  "send_chunks c =
     (let k = (case hc_chunk c of None \<Rightarrow> new_http_chunk | Some k \<Rightarrow> k); (go, k, buf, r) = chunk_processing k (hc_buf c) (hc_relay c)
      in (go, c\<lparr> hc_chunk := Some k, hc_buf := buf, hc_relay := r \<rparr>))"

definition response_header :: "hc_env \<Rightarrow> bytes \<Rightarrow> http_client \<Rightarrow> (bool \<times> http_client) outcome" where
  "response_header env behind c =
     (case find_bytes (crlf @ crlf) (hc_buf c) of
        None \<Rightarrow> Some (True, c)
      | Some pos \<Rightarrow>
          (case parse_response env (of_bytes (hc_buf c @ behind)) c of
             None \<Rightarrow> None
           | Some (ok, c) \<Rightarrow>
               if \<not> ok \<or> \<not> has_content_length c \<and> \<not> is_chunked c then Some (False, c)
               else let c = c\<lparr> hc_buf := drop (pos + 4) (hc_buf c), hc_state := Parse_Content, hc_sent := 0 \<rparr>
                 in if is_chunked c then Some (send_chunks c)
                    else if has_content_length c \<and> hc_content_length c = 0 then Some (False, c)
                    else send_content c))"

definition client_processing :: "hc_env \<Rightarrow> bytes \<Rightarrow> bytes \<Rightarrow> http_client \<Rightarrow> (bool \<times> http_client) outcome" where
  "client_processing env b behind c =
     (let c = c\<lparr> hc_buf := hc_buf c @ b \<rparr>
      in case hc_state c of
           Parse_Header \<Rightarrow> response_header env behind c
         | Parse_Content \<Rightarrow> if is_chunked c then Some (send_chunks c) else send_content c
         | _ \<Rightarrow> Some (True, c))"

text \<open>What the destructor hands to the cache of responses.\<close>

definition cache_entry :: "hc_env \<Rightarrow> http_client \<Rightarrow> (string \<times> bytes \<times> (string \<Rightarrow> string) \<times> int) option" where
  "cache_entry env c =
     (case cache_buf c of None \<Rightarrow> None
      | Some (_, data) \<Rightarrow>
          if enable_tunneling_cache env \<and> use_cache c \<and> cache_completed c \<and> data \<noteq> [] \<and> hc_url c \<noteq> []
          then Some (cstr (hc_url c), data, cstr \<circ> hc_fields c,
            if cache_shared_max_age c > 0 then cache_shared_max_age c else cache_max_age c)
          else None)"

end
