(* ===== verification/Http_relay.thy ===== *)
theory Http_relay
  imports Http_client
begin

section \<open>What is relayed\<close>

text \<open>
  The relay of \<open>Http_client\<close> loses nothing: octets that are sent and octets that wait are what has come (\<open>relaying\<close>), how they are cut
  does not matter, chunks and content with a length are found to their last octet. The header goes on line by
  line. The copy for the cache and the search in \<open>Cache-Control\<close> can leave their text.
\<close>

subsection \<open>Nothing is lost\<close>

text \<open>What the client has and what waits in the buffer.\<close>

definition relayed :: "http_chunk \<times> bytes \<times> relay \<Rightarrow> bytes" where
  "relayed s = (case s of (k, buf, r) \<Rightarrow> client_out r @ buf)"

definition sends_ok :: "http_chunk \<times> bytes \<times> relay \<Rightarrow> bool" where
  "sends_ok s \<longleftrightarrow> (case s of (k, buf, r) \<Rightarrow> client_ok r = [])"

definition lossless :: "http_chunk \<times> bytes \<times> relay \<Rightarrow> http_chunk \<times> bytes \<times> relay \<Rightarrow> bool" where
  "lossless s t \<longleftrightarrow> relayed t = relayed s \<and> (sends_ok s \<longrightarrow> sends_ok t) \<and>
     prefix (client_out (snd (snd s))) (client_out (snd (snd t)))"

interpretation relaying: step_relation lossless
  by unfold_locales (auto simp: lossless_def intro: prefix_order.trans)

lemma lossless_sent:
  "client_send (take n buf) r = (True, r') \<Longrightarrow> lossless (k, buf, r) (k', drop n buf, r')"
  "client_send buf r = (True, r') \<Longrightarrow> lossless (k, buf, r) (k', [], r')"
  "client_send b r = (False, r') \<Longrightarrow> lossless (k, buf, r) (k', buf, r')"
  by (drule client_send_lossless, simp add: lossless_def relayed_def sends_ok_def)+

lemma lossless_send_chunk: "send_chunk k buf r = (ok, s) \<Longrightarrow> lossless (k, buf, r) s"
  by (auto simp: send_chunk_def Let_def intro: lossless_sent split: prod.splits if_splits)

lemma lossless_footer: "chunk_footer k buf r = Stop go s \<Longrightarrow> lossless (k, buf, r) s"
  by (auto simp: chunk_footer_def Let_def lossless_def relayed_def sends_ok_def dest!: client_send_lossless
      split: prod.splits option.splits if_splits)

lemma footer_stops: "chunk_footer k buf r \<noteq> Go_round s"
  by (auto simp: chunk_footer_def Let_def split: option.split prod.split)

lemma lossless_state: "lossless (k, buf, r) (k', buf', r') \<Longrightarrow> lossless (j, buf, r) (j', buf', r')"
  by (simp add: lossless_def relayed_def sends_ok_def)

text \<open>The two ways a round ends.\<close>

definition round_state :: "'s chunk_result \<Rightarrow> 's" where
  "round_state x = (case x of Stop go s \<Rightarrow> s | Go_round s \<Rightarrow> s)"

text \<open>The length of the line with the length, as it is sent, and what comes after it.\<close>

definition line_len :: "nat \<Rightarrow> u32 \<Rightarrow> nat" where
  "line_len pos n = (if n > 0 then pos + 2 else pos)"

definition line_chunk :: "http_chunk \<Rightarrow> u32 \<Rightarrow> http_chunk" where
  "line_chunk k n = (if n > 0 then k\<lparr> m_chunk_len := n + 2, ck_state := Chunk_Content \<rparr> else k\<lparr> m_chunk_len := 0, ck_state := Chunk_Footer \<rparr>)"

lemma chunk_header_sent:
  assumes "find_bytes crlf buf = Some pos" and "sscanf_x (of_bytes (take (min pos 31) buf)) = Some n"
    and "client_send (take (line_len pos n) buf) r = (ok, r1)"
  shows "chunk_header k buf r =
    (if \<not> ok then Stop False (k\<lparr> m_chunk_len := m_chunk_len (line_chunk k n) \<rparr>, buf, r1)
     else if n > 0 \<and> drop (line_len pos n) buf = [] then Go_round (line_chunk k n, [], r1)
     else if n > 0 then (case send_chunk (line_chunk k n) (drop (line_len pos n) buf) r1 of (ok, s) \<Rightarrow> if ok then Go_round s else Stop False s)
     else chunk_footer (line_chunk k n) (drop (line_len pos n) buf) r1)"
  using assms by (cases "n > 0") (simp_all add: chunk_header_def line_len_def line_chunk_def Let_def)

lemma lossless_header: "lossless (k, buf, r) (round_state (chunk_header k buf r))"
proof (cases "find_bytes crlf buf")
  case None
  then show ?thesis
    by (simp add: chunk_header_def round_state_def relaying.step_refl)
next
  case (Some pos)
  show ?thesis
  proof (cases "sscanf_x (of_bytes (take (min pos 31) buf))")
    case None
    then show ?thesis
      using Some by (simp add: chunk_header_def round_state_def relaying.step_refl)
  next
    case len: (Some n)
    let ?l = "line_len pos n" and ?k = "line_chunk k n"
    obtain ok r1 where s: "client_send (take ?l buf) r = (ok, r1)"
      by force
    note h = chunk_header_sent [OF Some len s]
    obtain ok2 t where t: "send_chunk ?k (drop ?l buf) r1 = (ok2, t)"
      by (rule prod.exhaust)
    obtain go t2 where t2: "chunk_footer ?k (drop ?l buf) r1 = Stop go t2"
      using footer_stops [of ?k "drop ?l buf" r1] by (cases "chunk_footer ?k (drop ?l buf) r1") auto
    show ?thesis
    proof (cases ok)
      case False
      then show ?thesis
        using s by (simp add: h round_state_def lossless_sent(3))
    next
      case True
      then have first: "lossless (k, buf, r) (?k, drop ?l buf, r1)"
        using s by (simp add: lossless_sent(1))
      show ?thesis
        using True first relaying.step_trans [OF first lossless_send_chunk [OF t]] relaying.step_trans [OF first lossless_footer [OF t2]] t t2
        by (auto simp: h round_state_def)
    qed
  qed
qed

lemma lossless_round: "lossless (k, buf, r) (round_state (chunk_round k buf r))"
proof -
  obtain ok s where s: "send_chunk k buf r = (ok, s)"
    by (rule prod.exhaust)
  obtain go t where t: "chunk_footer k buf r = Stop go t"
    using footer_stops [of k buf r] by (cases "chunk_footer k buf r") auto
  show ?thesis
    using lossless_header lossless_send_chunk [OF s] lossless_footer [OF t] s t
    by (auto simp: chunk_round_def round_state_def split: if_splits)
qed

lemma lossless_processing: "lossless (k, buf, r) (snd (chunk_processing k buf r))"
proof (induction k buf r rule: chunk_processing.induct)
  case (1 k buf r)
  show ?case
  proof (cases "buf = []")
    case True
    then show ?thesis
      by (simp add: chunk_processing.simps relaying.step_refl)
  next
    case False
    show ?thesis
    proof (cases "chunk_round k buf r")
      case (Stop go s)
      then show ?thesis
        using lossless_round [of k buf r] False by (subst chunk_processing.simps) (simp add: round_state_def)
    next
      case (Go_round s)
      obtain k' buf' r' where s: "s = (k', buf', r')"
        by (cases s)
      show ?thesis
        using relaying.step_trans [OF lossless_round [of k buf r]] 1 [OF False Go_round [unfolded s] refl refl] Go_round s False
        by (subst chunk_processing.simps) (simp add: round_state_def)
    qed
  qed
qed

subsection \<open>Pieces\<close>

definition put_out :: "bytes \<Rightarrow> relay \<Rightarrow> relay" where
  "put_out b r = r\<lparr> client_out := client_out r @ b \<rparr>"

lemma put_out_simps [simp]:
  "client_ok (put_out b r) = client_ok r" "put_out b (put_out a r) = put_out (a @ b) r" "client_out (put_out b r) = client_out r @ b"
  by (simp_all add: put_out_def)

lemma client_send_ok: "client_ok r = [] \<Longrightarrow> client_send b r = (True, put_out b r)"
  by (simp add: client_send_def put_out_def)

definition chunk_left :: "http_chunk \<Rightarrow> nat" where
  "chunk_left k = unat (m_chunk_len k - m_sent_chunk k)"

lemma send_chunk_ok:
  assumes "client_ok r = []"
  shows "send_chunk k buf r =
    (True, if chunk_left k \<le> length buf then \<lparr> m_chunk_len = 0, m_sent_chunk = 0, ck_state = Chunk_Header \<rparr>
       else k\<lparr> m_sent_chunk := m_sent_chunk k + word_of_nat (length buf) \<rparr>,
     drop (chunk_left k) buf, put_out (take (chunk_left k) buf) r)"
proof -
  have all: "m_sent_chunk k + word_of_nat (chunk_left k) = m_chunk_len k"
    by (simp add: chunk_left_def)
  have part: "m_sent_chunk k + word_of_nat (length buf) \<noteq> m_chunk_len k" if "length buf < chunk_left k"
  proof
    assume "m_sent_chunk k + word_of_nat (length buf) = m_chunk_len k"
    then have "m_chunk_len k - m_sent_chunk k = word_of_nat (length buf)"
      by (metis add_diff_cancel_left')
    then have "chunk_left k \<le> length buf"
      by (simp add: chunk_left_def unat_of_nat)
    then show False
      using that by simp
  qed
  show ?thesis
    using all part by (auto simp: send_chunk_def Let_def chunk_left_def [symmetric] client_send_ok [OF assms] not_le not_less)
qed

lemma chunk_left_after:
  assumes "n < chunk_left k"
  shows "chunk_left (k\<lparr> m_sent_chunk := m_sent_chunk k + word_of_nat n \<rparr>) = chunk_left k - n"
proof -
  have "unat (word_of_nat n :: u32) = n"
    using assms unsigned_less [of "m_chunk_len k - m_sent_chunk k", where 'a = nat]
    by (simp add: chunk_left_def unat_of_nat)
  moreover from this have "word_of_nat n \<le> m_chunk_len k - m_sent_chunk k"
    using assms by (simp add: word_le_nat_alt chunk_left_def)
  ultimately have "unat (m_chunk_len k - m_sent_chunk k - word_of_nat n) = chunk_left k - n"
    by (simp only: unat_sub chunk_left_def)
  then show ?thesis
    by (simp add: chunk_left_def diff_diff_eq)
qed

lemma processing_content:
  assumes "ck_state k = Chunk_Content" and "buf \<noteq> []" and "send_chunk k buf r = (True, k', buf', r')"
  shows "chunk_processing k buf r = chunk_processing k' buf' r'"
  using assms by (subst chunk_processing.simps) (simp add: chunk_round_def)

lemma processing_nothing [simp]: "chunk_processing k [] r = (True, k, [], r)"
  by (simp add: chunk_processing.simps)

lemma content_append:
  assumes "client_ok r = []" and "ck_state k = Chunk_Content" and "a \<noteq> []" and "send_chunk k a r = (True, k1, a1, r1)"
  shows "chunk_processing k (a @ b) r = chunk_processing k1 (a1 @ b) r1"
proof (cases "chunk_left k \<le> length a")
  case True
  then have "send_chunk k (a @ b) r = (True, k1, a1 @ b, r1)"
    using assms(1,4) by (auto simp: send_chunk_ok)
  then show ?thesis
    using processing_content [OF assms(2), of "a @ b"] assms(3) by simp
next
  case False
  have k1: "k1 = k\<lparr> m_sent_chunk := m_sent_chunk k + word_of_nat (length a) \<rparr>" "a1 = []" "r1 = put_out a r"
    using False assms(1,4) by (auto simp: send_chunk_ok)
  show ?thesis
  proof (cases "b = []")
    case True
    then show ?thesis
      using processing_content [OF assms(2,3,4)] by simp
  next
    case b: False
    have left: "chunk_left k1 = chunk_left k - length a"
      using False chunk_left_after [of "length a" k] k1 by simp
    have "send_chunk k1 b r1 = send_chunk k (a @ b) r"
      using False assms(1) left by (auto simp: send_chunk_ok k1 add.assoc)
    then show ?thesis
      using processing_content [of k1 b r1] processing_content [OF assms(2), of "a @ b" r] b assms(1-3) k1
      by (cases "send_chunk k1 b r1") (auto simp: send_chunk_ok)
  qed
qed

lemma find_bytes_append: "find_bytes p a = Some i \<Longrightarrow> find_bytes p (a @ b) = Some i"
proof (induction p a arbitrary: i rule: find_bytes.induct)
  case (2 p x xs)
  show ?case
  proof (cases "take (length p) (x # xs) = p")
    case True
    then have "length p \<le> length (x # xs)"
      by (metis length_take min.cobounded1)
    then have "take (length p) (x # xs @ b) = p"
      using True take_append [of "length p" "x # xs" b] by simp
    then show ?thesis
      using True 2(2) by simp
  next
    case False
    then obtain j where j: "find_bytes p xs = Some j" "i = Suc j"
      using 2(2) by auto
    have "take (length p) (x # xs @ b) \<noteq> p"
    proof
      assume p: "take (length p) (x # xs @ b) = p"
      have "j + length p \<le> length xs"
        using find_bytes_Some [OF j(1)] by simp
      then have "take (length p) (x # xs) = take (length p) ((x # xs) @ b)"
        by (simp only: take_append) simp
      then show False
        using p False by simp
    qed
    then show ?thesis
      using 2(1) [OF False j(1)] j by simp
  qed
qed (cases b; auto split: if_splits)


lemma find_bytes_pos: "find_bytes crlf a = Some pos \<Longrightarrow> pos + 2 \<le> length a"
  using find_bytes_Some [of crlf a pos] by (simp add: crlf_def)

lemma processing_footer:
  "ck_state k = Chunk_Footer \<Longrightarrow> buf \<noteq> [] \<Longrightarrow>
   chunk_processing k buf r = (case chunk_footer k buf r of Stop go s \<Rightarrow> (go, s) | Go_round s \<Rightarrow> undefined)"
  using footer_stops [of k buf r]
  by (subst chunk_processing.simps) (auto simp: chunk_round_def split: chunk_result.split)

lemma footer_waits: "chunk_footer k a r = Stop True (k1, a1, r1) \<Longrightarrow> k1 = k \<and> a1 = a \<and> r1 = r"
  by (auto simp: chunk_footer_def Let_def split: option.splits prod.splits)

text \<open>The rest of a round that begins with the line of a length, on what stands behind the line.\<close>

lemma processing_line:
  assumes "client_ok r = []" and "ck_state k = Chunk_Header" and "find_bytes crlf a = Some pos"
    and "sscanf_x (of_bytes (take (min pos 31) a)) = Some n"
  shows "chunk_processing k (a @ b) r =
    chunk_processing (line_chunk k n) (drop (line_len pos n) a @ b) (put_out (take (line_len pos n) a) r)"
proof -
  let ?l = "line_len pos n" and ?k = "line_chunk k n"
  have a: "a \<noteq> []" "pos + 2 \<le> length a" "?l \<le> length a" "pos \<le> length a"
    using find_bytes_pos [OF assms(3)] by (auto simp: line_len_def)
  have t: "take ?l (a @ b) = take ?l a" "drop ?l (a @ b) = drop ?l a @ b" "take (min pos 31) (a @ b) = take (min pos 31) a"
    using a by simp_all
  let ?rest = "drop ?l a @ b" and ?r = "put_out (take ?l a) r"
  have h: "chunk_header k (a @ b) r =
     (if n > 0 \<and> ?rest = [] then Go_round (?k, [], ?r)
      else if n > 0 then (case send_chunk ?k ?rest ?r of (ok, s) \<Rightarrow> if ok then Go_round s else Stop False s)
      else chunk_footer ?k ?rest ?r)"
  proof -
    have "sscanf_x (of_bytes (take (min pos 31) (a @ b))) = Some n" "client_send (take ?l (a @ b)) r = (True, ?r)"
      by (simp_all only: t assms(4) client_send_ok [OF assms(1)])
    from chunk_header_sent [OF find_bytes_append [OF assms(3), of b] this, of k] show ?thesis
      by (simp only: t not_True_eq_False if_False)
  qed
  have round: "chunk_processing k (a @ b) r = (case chunk_header k (a @ b) r of Stop go s \<Rightarrow> (go, s)
      | Go_round (k', buf', r') \<Rightarrow> chunk_processing k' buf' r')"
    using a(1) assms(2) by (subst chunk_processing.simps) (simp add: chunk_round_def)
  have st: "ck_state ?k = (if n > 0 then Chunk_Content else Chunk_Footer)"
    by (simp add: line_chunk_def)
  show ?thesis
  proof (cases "n > 0")
    case True
    obtain k2 b2 r2 where s: "send_chunk ?k ?rest ?r = (True, k2, b2, r2)"
      using assms(1) by (simp add: send_chunk_ok)
    show ?thesis
      using True st s processing_content [of ?k ?rest ?r] by (simp add: round h)
  next
    case False
    then have "?rest \<noteq> []"
      using a by (simp add: line_len_def)
    then show ?thesis
      using False st footer_stops [of ?k ?rest ?r] by (simp add: round h processing_footer split: chunk_result.split)
  qed
qed

lemma chunk_processing_append:
  "client_ok r = [] \<Longrightarrow> chunk_processing k a r = (True, k1, a1, r1) \<Longrightarrow> chunk_processing k (a @ b) r = chunk_processing k1 (a1 @ b) r1"
proof (induction "2 * length a + chunk_turns k" arbitrary: k a r rule: less_induct)
  case less
  note ok = less(2)
  consider (none) "a = []" | (header) "a \<noteq> []" "ck_state k = Chunk_Header" | (content) "a \<noteq> []" "ck_state k = Chunk_Content"
    | (footer) "a \<noteq> []" "ck_state k \<noteq> Chunk_Header" "ck_state k \<noteq> Chunk_Content"
    by auto
  then show ?case
  proof cases
    case none
    then show ?thesis
      using less(3) by simp
  next
    case header
    show ?thesis
    proof (cases "find_bytes crlf a")
      case None
      then show ?thesis
        using less(3) header by (subst (asm) chunk_processing.simps) (simp add: chunk_round_def chunk_header_def)
    next
      case (Some pos)
      obtain n where n: "sscanf_x (of_bytes (take (min pos 31) a)) = Some n"
        using less(3) header Some
        by (cases "sscanf_x (of_bytes (take (min pos 31) a))") (subst (asm) chunk_processing.simps, auto simp: chunk_round_def chunk_header_def)
      have l: "0 < line_len pos n" "n > 0 \<longrightarrow> 2 \<le> line_len pos n" "line_len pos n \<le> length a"
      proof -
        have "pos \<noteq> 0"
        proof
          assume "pos = 0"
          then have "sscanf_x [] = Some n"
            using n by (simp add: of_bytes_def)
          then show False
            by (simp add: sscanf_x_def)
        qed
        then show "0 < line_len pos n" "n > 0 \<longrightarrow> 2 \<le> line_len pos n" "line_len pos n \<le> length a"
          using find_bytes_pos [OF Some] by (auto simp: line_len_def)
      qed
      note line = processing_line [OF ok header(2) Some n]
      have "2 * length (drop (line_len pos n) a) + chunk_turns (line_chunk k n) < 2 * length a + chunk_turns k"
        using l header(2) by (auto simp: chunk_turns_def line_chunk_def)
      then show ?thesis
        using less(1) [of "drop (line_len pos n) a" "line_chunk k n" "put_out (take (line_len pos n) a) r"] less(3) ok line [of "[]"] line [of b]
        by simp
    qed
  next
    case content
    obtain k2 a2 r2 where s: "send_chunk k a r = (True, k2, a2, r2)" "client_ok r2 = []"
      using ok by (simp add: send_chunk_ok)
    have "chunk_processing k2 a2 r2 = (True, k1, a1, r1)"
      using less(3) processing_content [OF content(2,1) s(1)] by simp
    from less(1) [OF send_chunk_turn [OF s(1) content] s(2) this] show ?thesis
      using content_append [OF ok content(2,1) s(1)] by simp
  next
    case footer
    then have "chunk_round k a r = chunk_footer k a r"
      by (simp add: chunk_round_def)
    then show ?thesis
      using less(3) footer footer_stops [of k a r] footer_waits [of k a r]
      by (subst (asm) chunk_processing.simps) (auto split: chunk_result.splits)
  qed
qed

text \<open>
  C13: how the response of a server behind is cut into pieces does not matter. As long as the chunks go on, relaying the first
  piece and then what is left of it with the second is relaying both at once: the same octets go to the client, the same wait, and the state is the same.
\<close>

theorem chunks_in_pieces:
  assumes "client_ok r = []" and "chunk_processing k a r = (True, k1, a1, r1)"
  shows "chunk_processing k (a @ b) r = chunk_processing k1 (a1 @ b) r1"
  using assms by (rule chunk_processing_append)

subsection \<open>Whole responses\<close>

definition length_line :: "bytes \<Rightarrow> nat \<Rightarrow> bool" where
  "length_line h n \<longleftrightarrow> 0x0D \<notin> set h \<and> sscanf_x (of_bytes (take 31 h)) = Some (word_of_nat n) \<and> n < 2 ^ 31"

definition chunk_octets :: "bytes \<times> bytes \<Rightarrow> bytes" where
  "chunk_octets c = fst c @ crlf @ snd c @ crlf"

definition chunks_ok :: "(bytes \<times> bytes) list \<Rightarrow> bool" where
  "chunks_ok cs \<longleftrightarrow> list_all (\<lambda>(h, d). d \<noteq> [] \<and> length_line h (length d)) cs"

lemma find_crlf: "0x0D \<notin> set h \<Longrightarrow> find_bytes crlf (h @ crlf @ x) = Some (length h)"
  by (induction h) (auto simp: crlf_def)

lemma take_line [simp]: "take (min (length h) 31) h = take 31 h"
  by (cases "length h \<le> 31") (simp_all add: min_def)

lemma processing_chunk:
  assumes "client_ok r = []" and "ck_state k = Chunk_Header" and "m_sent_chunk k = 0" and "d \<noteq> []" and "length_line h (length d)"
  shows "chunk_processing k (chunk_octets (h, d) @ rest) r =
    chunk_processing \<lparr> m_chunk_len = 0, m_sent_chunk = 0, ck_state = Chunk_Header \<rparr> rest (put_out (chunk_octets (h, d)) r)"
proof -
  let ?n = "word_of_nat (length d) :: u32"
  have n: "sscanf_x (of_bytes (take (min (length h) 31) (h @ crlf @ d @ crlf @ rest))) = Some ?n" and "0x0D \<notin> set h"
    using assms(5) by (simp_all add: length_line_def)
  have len: "length d < 2 ^ 31"
    using assms(5) by (simp add: length_line_def)
  have un: "unat ?n = length d" "unat (?n + 2) = length d + 2" "?n > 0"
    using len assms(4) by (simp_all add: unat_of_nat unat_word_ariths word_less_nat_alt)
  note line = processing_line [OF assms(1,2) find_crlf n, of "[]"]
  have left: "chunk_left (line_chunk k ?n) = length d + 2" "ck_state (line_chunk k ?n) = Chunk_Content"
    using un assms(3) by (simp_all add: chunk_left_def line_chunk_def)
  have "chunk_processing k (h @ crlf @ d @ crlf @ rest) r =
      chunk_processing (line_chunk k ?n) (d @ crlf @ rest) (put_out (h @ crlf) r)"
    using line \<open>0x0D \<notin> set h\<close> un(3) by (simp add: line_len_def) (simp add: crlf_def)
  also have "\<dots> = chunk_processing \<lparr> m_chunk_len = 0, m_sent_chunk = 0, ck_state = Chunk_Header \<rparr> rest (put_out (h @ crlf @ d @ crlf) r)"
    using assms(1,4) left by (subst processing_content [OF left(2), of _ _ _ rest]) (auto simp: send_chunk_ok crlf_def)
  finally show ?thesis
    by (simp add: chunk_octets_def)
qed

lemma processing_chunks:
  "client_ok r = [] \<Longrightarrow> ck_state k = Chunk_Header \<Longrightarrow> m_sent_chunk k = 0 \<Longrightarrow> chunks_ok cs \<Longrightarrow>
   \<exists>k'. ck_state k' = Chunk_Header \<and> m_sent_chunk k' = 0 \<and>
     chunk_processing k (concat (map chunk_octets cs) @ rest) r = chunk_processing k' rest (put_out (concat (map chunk_octets cs)) r)"
proof (induction cs arbitrary: k r)
  case Nil
  then show ?case
    by (auto simp: put_out_def)
next
  case (Cons c cs)
  obtain h d where c: "c = (h, d)"
    by (cases c)
  have ok: "d \<noteq> []" "length_line h (length d)" "chunks_ok cs"
    using Cons.prems(4) by (auto simp: c chunks_ok_def)
  show ?case
    using Cons.IH [of "put_out (chunk_octets c) r" "\<lparr> m_chunk_len = 0, m_sent_chunk = 0, ck_state = Chunk_Header \<rparr>"]
      processing_chunk [OF Cons.prems(1-3) ok(1,2), of "concat (map chunk_octets cs) @ rest"] Cons.prems(1) ok(3)
    by (auto simp: c)
qed

lemma processing_last:
  assumes "client_ok r = []" and "ck_state k = Chunk_Header" and "length_line h 0"
  shows "chunk_processing k (h @ crlf @ crlf @ rest) r = (False, line_chunk k 0, rest, put_out (h @ crlf @ crlf) r)"
proof -
  have n: "sscanf_x (of_bytes (take (min (length h) 31) (h @ crlf @ crlf @ rest))) = Some 0" and "0x0D \<notin> set h"
    using assms(3) by (simp_all add: length_line_def)
  have "chunk_processing k (h @ crlf @ crlf @ rest) r = chunk_processing (line_chunk k 0) (crlf @ crlf @ rest) (put_out h r)"
    using processing_line [OF assms(1,2) find_crlf n, of "[]"] \<open>0x0D \<notin> set h\<close> by (simp add: line_len_def)
  moreover have "chunk_footer (line_chunk k 0) (crlf @ crlf @ rest) (put_out h r) =
      Stop False (line_chunk k 0, rest, put_out (h @ crlf @ crlf) r)"
    using assms(1) by (simp add: chunk_footer_def client_send_ok crlf_def)
  ultimately show ?thesis
    using processing_footer [of "line_chunk k 0" "crlf @ crlf @ rest" "put_out h r"] by (simp add: line_chunk_def crlf_def)
qed

text \<open>
  C16: a response in chunks is relayed whole and its end is found. For chunks that are not empty, below 2 GB and whose lines announce their length,
  and a last one of length 0, exactly these octets go to the client, and \<open>processing\<close> reports the end with the
  first octet behind them left in the buffer.
\<close>

theorem chunks_relayed:
  assumes "client_ok r = []" and "chunks_ok cs" and "length_line h 0"
  defines "body \<equiv> concat (map chunk_octets cs) @ h @ crlf @ crlf"
  shows "\<exists>k. chunk_processing new_http_chunk (body @ rest) r = (False, k, rest, r\<lparr> client_out := client_out r @ body \<rparr>)"
proof -
  have "ck_state new_http_chunk = Chunk_Header" "m_sent_chunk new_http_chunk = 0"
    by (simp_all add: new_http_chunk_def)
  from processing_chunks [OF assms(1) this assms(2), of "h @ crlf @ crlf @ rest"]
  obtain k where k: "ck_state k = Chunk_Header" "chunk_processing new_http_chunk (body @ rest) r =
      chunk_processing k (h @ crlf @ crlf @ rest) (put_out (concat (map chunk_octets cs)) r)"
    by (auto simp: body_def)
  show ?thesis
    using processing_last [of "put_out (concat (map chunk_octets cs)) r" k h rest] assms(1,3) k
    by (simp add: body_def put_out_def)
qed

definition no_relay :: relay where
  "no_relay = \<lparr> client_out = [], client_ok = [], closed_by_force = False \<rparr>"

lemma length_lines: "length_line (to_bytes ''2;x'') (Suc (Suc 0))" "length_line (to_bytes ''0'') 0"
proof -
  have "sscanf_x (of_bytes (take 31 (to_bytes ''2;x''))) = Some 2" "sscanf_x (of_bytes (take 31 (to_bytes ''0''))) = Some 0"
    "0x0D \<notin> set (to_bytes ''2;x'')" "0x0D \<notin> set (to_bytes ''0'')"
    by code_simp+
  then show "length_line (to_bytes ''2;x'') (Suc (Suc 0))" "length_line (to_bytes ''0'') 0"
    by (simp_all add: length_line_def)
qed

theorem chunks_relayed_witness:
  "let body = concat (map chunk_octets [(to_bytes ''2;x'', [8, 9])]) @ to_bytes ''0'' @ crlf @ crlf
   in \<exists>k. chunk_processing new_http_chunk (body @ [7]) no_relay = (False, k, [7], no_relay\<lparr> client_out := client_out no_relay @ body \<rparr>)"
  unfolding Let_def
proof (rule chunks_relayed)
  show "client_ok no_relay = []"
    by (simp add: no_relay_def)
  show "chunks_ok [(to_bytes ''2;x'', [8, 9])]" "length_line (to_bytes ''0'') 0"
    using length_lines by (simp_all add: chunks_ok_def)
qed

theorem chunks_in_pieces_witness:
  "let a = to_bytes ''3'' @ crlf @ to_bytes ''ab''; b = to_bytes ''c'' @ crlf @ to_bytes ''0''; k = \<lparr> m_chunk_len = 5, m_sent_chunk = 2, ck_state = Chunk_Content \<rparr>
   in chunk_processing new_http_chunk (a @ b) no_relay = chunk_processing k ([] @ b) (put_out a no_relay)"
  unfolding Let_def
proof (rule chunks_in_pieces)
  show "client_ok no_relay = []"
    by (simp add: no_relay_def)
  show "chunk_processing new_http_chunk (to_bytes ''3'' @ crlf @ to_bytes ''ab'') no_relay =
     (True, \<lparr> m_chunk_len = 5, m_sent_chunk = 2, ck_state = Chunk_Content \<rparr>, [], put_out (to_bytes ''3'' @ crlf @ to_bytes ''ab'') no_relay)"
    by code_simp
qed

subsection \<open>Content\<close>

text \<open>Pieces of the content, one call for each, until one call reports the end.\<close>

fun content_pieces :: "hc_env \<Rightarrow> (bytes \<times> bytes) list \<Rightarrow> http_client \<Rightarrow> (bool \<times> http_client) outcome" where
  "content_pieces env [] c = Some (True, c)"
| "content_pieces env ((p, behind) # ps) c =
     (case client_processing env p behind c of
        None \<Rightarrow> None
      | Some (go, c) \<Rightarrow> if go then content_pieces env ps c else Some (False, c))"

definition awaiting :: "http_client \<Rightarrow> nat \<Rightarrow> bool" where
  "awaiting c n \<longleftrightarrow> hc_state c = Parse_Content \<and> \<not> is_chunked c \<and> has_content_length c \<and> hc_buf c = [] \<and> 0 \<le> hc_sent c \<and>
     hc_content_length c = hc_sent c + int n \<and> client_ok (hc_relay c) = [] \<and>
     (use_cache c \<longrightarrow> (\<forall>cap data. cache_buf c = Some (cap, data) \<longrightarrow> hc_sent c = int (length data) \<and> int cap = hc_content_length c + 1))"

definition content_taken :: "bytes \<Rightarrow> http_client \<Rightarrow> http_client" where
  "content_taken b c = c\<lparr> hc_relay := put_out b (hc_relay c), hc_sent := hc_sent c + int (length b),
     cache_buf := (if use_cache c then map_option (\<lambda>(cap, data). (cap, data @ b)) (cache_buf c) else cache_buf c) \<rparr>"

lemma content_taken_append: "content_taken b (content_taken a c) = content_taken (a @ b) c"
  by (cases "cache_buf c") (auto simp: content_taken_def)

lemma client_processing_content:
  assumes "awaiting c n" and "length b \<le> n" and "b \<noteq> []"
  shows "client_processing env b behind c =
    Some (if length b = n then (False, (content_taken b c)\<lparr> cache_completed := True \<rparr>) else (True, content_taken b c))"
  using assms
  by (cases "cache_buf c")
    (auto simp: awaiting_def client_processing_def send_content_def copy_content_def relay_content_def hc_send_def client_send_ok
      content_taken_def Let_def)

lemma awaiting_taken: "awaiting c n \<Longrightarrow> length b \<le> n \<Longrightarrow> awaiting (content_taken b c) (n - length b)"
  by (cases "cache_buf c") (auto simp: awaiting_def content_taken_def put_out_def)

lemma content_pieces_awaiting:
  "awaiting c (length (concat (map fst ps))) \<Longrightarrow> ps \<noteq> [] \<Longrightarrow> (\<forall>p \<in> set ps. fst p \<noteq> []) \<Longrightarrow>
   content_pieces env ps c = Some (False, (content_taken (concat (map fst ps)) c)\<lparr> cache_completed := True \<rparr>)"
proof (induction ps arbitrary: c)
  case (Cons q ps)
  obtain p behind where q: "q = (p, behind)"
    by (cases q)
  let ?rest = "concat (map fst ps)"
  have p: "client_processing env p behind c = Some (if ?rest = [] then (False, (content_taken p c)\<lparr> cache_completed := True \<rparr>) else (True, content_taken p c))"
    using client_processing_content [OF Cons.prems(1), of p env behind] Cons.prems(3) by (auto simp: q)
  show ?case
  proof (cases "ps = []")
    case True
    then show ?thesis
      using p by (simp add: q)
  next
    case False
    then have "?rest \<noteq> []"
      using Cons.prems(3) by (cases ps) auto
    moreover have "awaiting (content_taken p c) (length ?rest)"
      using awaiting_taken [OF Cons.prems(1), of p] by (simp add: q)
    ultimately show ?thesis
      using p Cons.IH [of "content_taken p c"] Cons.prems(3) False by (simp add: q content_taken_append)
  qed
qed simp

text \<open>
  C17: content whose length is announced is relayed exactly. In whatever pieces it comes, the client gets its octets in order, the end is
  reported with the last octet and not before, and when the response is kept, the copy for the cache holds the same
  octets within its buffer.
\<close>

theorem content_relayed:
  assumes "awaiting c (length (concat (map fst ps)))" and "ps \<noteq> []" and "\<forall>p \<in> set ps. fst p \<noteq> []"
  shows "\<exists>c'. content_pieces env ps c = Some (False, c') \<and> cache_completed c' \<and>
    client_out (hc_relay c') = client_out (hc_relay c) @ concat (map fst ps) \<and>
    (\<forall>cap data. use_cache c \<and> cache_buf c = Some (cap, data) \<longrightarrow> cache_buf c' = Some (cap, data @ concat (map fst ps)))"
  using content_pieces_awaiting [OF assms] by (simp add: content_taken_def)


subsection \<open>The header\<close>

lemma line_end: "CHR 0x0A \<notin> set s \<Longrightarrow> find_if (\<lambda>x. x = CHR 0x0A) (s @ CRLF @ rest) = Some (Suc (length s))"
  by (induction s) (auto simp: CRLF_def)

lemma cut_line: "take (Suc (Suc (length s))) (s @ CRLF @ rest) = s @ CRLF" "drop (Suc (Suc (length s))) (s @ CRLF @ rest) = rest"
  by (simp_all add: CRLF_def)

definition line_sent :: "hc_env \<Rightarrow> string \<Rightarrow> string \<times> http_client \<Rightarrow> (bool \<times> http_client) outcome" where
  "line_sent env rest = (\<lambda>(strtext, c).
     let c = c\<lparr> hc_header := hc_header c @ strtext @ CRLF \<rparr>
     in if length (hc_header c) > 4096 then
          let (ok, c) = hc_send (to_bytes (hc_header c)) c
          in if \<not> ok then Some (False, c\<lparr> hc_line_text := rest \<rparr>) else response_lines env rest (c\<lparr> hc_header := [] \<rparr>)
        else response_lines env rest c)"

lemma strip_set: "set (strip P s) \<subseteq> set s"
proof
  fix x assume "x \<in> set (strip P s)"
  then have "x \<in> set (dropWhile P s)"
    unfolding strip_def set_rev using set_dropWhileD [of x P "rev (dropWhile P s)"] by simp
  then show "x \<in> set s"
    by (rule set_dropWhileD)
qed

lemma strip_len: "length (strip P s) \<le> length s"
  unfolding strip_def length_rev by (rule order_trans [OF length_dropWhile_le]) (simp add: length_dropWhile_le)

lemma response_one_line:
  assumes "no_nul s" and "CHR 0x0A \<notin> set s" and "strip is_ws s \<noteq> []"
  shows "response_lines env (s @ CRLF @ rest) c = Option.bind (response_line env (capitalise True (strip is_ws s)) c) (line_sent env rest)"
proof -
  let ?t = "capitalise True (strip is_ws s)"
  have "no_nul (strip is_ws s)"
    using assms(1) strip_set [of is_ws s] by (auto simp: no_nul_def)
  then have n: "no_nul ?t"
    using capitalise_set [of NUL] by (simp add: no_nul_def less_eq_char_def)
  have ne: "?t \<noteq> []"
    using assms(3) capitalise_length [of True "strip is_ws s"] by force
  show ?thesis
    unfolding response_lines.simps [of env "s @ CRLF @ rest" c] line_end [OF assms(2)] option.case cut_line trim_line [OF assms(1)] Let_def
    using n ne by (auto simp: line_sent_def Let_def split: option.split)
qed

text \<open>
  a \<open>Cache-Control\<close> of a server behind that is shorter than 14 characters, such as \<open>no-cache\<close> or \<open>private\<close>,
  is searched outside of its text: reading the header is undefined.
\<close>

theorem cache_control_undefined:
  assumes "length v < 14" and "CHR 0x0A \<notin> set v" and "no_nul v"
  shows "response_lines env (''Cache-Control: '' @ v @ CRLF @ rest) c = None"
proof -
  let ?s = "''Cache-Control: '' @ v"
  have s: "no_nul ?s" "CHR 0x0A \<notin> set ?s"
    using assms by simp_all
  obtain w where w: "strip is_ws (''Cache-Control'' @ CHR '':'' # CHR '' '' # v) = ''Cache-Control'' @ CHR '':'' # w"
    "strip is_ws w = strip is_ws (CHR '' '' # v)" "set w \<subseteq> set (CHR '' '' # v)"
    using strip_field [of "''Cache-Control''" "CHR '' '' # v"] by (auto simp: is_ws_def)
  have ne: "strip is_ws ?s \<noteq> []"
    using w by simp
  have nul: "no_nul w"
    using w(3) assms(3) by (auto simp: no_nul_def)
  have cap: "capitalise True (strip is_ws ?s) = ''Cache-Control'' @ CHR '':'' # w"
  proof -
    have c: "capitalise True ''Cache-Control'' = ''Cache-Control''"
      by code_simp
    have "?s = ''Cache-Control'' @ CHR '':'' # CHR '' '' # v"
      by simp
    then show ?thesis
      using w(1) capitalise_name [of "''Cache-Control''" True w] unfolding c by simp
  qed
  have cut: "strcut (''Cache-Control'' @ CHR '':'' # w) (Some ''Cache-Control:'') None = w"
    by (simp add: strcut_def)
  have "length (strtrim w) < 14"
    using strtrim_no_nul [OF nul] w(2) assms(1) strip_len [of is_ws v] by (simp add: strip_def is_ws_def)
  then have "response_line env (''Cache-Control'' @ CHR '':'' # w) c = None"
    using nul cut by (simp add: response_line_def named_def cache_control_line_def strncaseeq_def LOCH_def)
  then show ?thesis
    using response_one_line [OF s ne] cap by simp
qed

subsection \<open>Whole responses with a length\<close>




text \<open>The client with other text on its way to the client.\<close>

definition with_sent :: "bytes \<Rightarrow> string \<Rightarrow> relay \<Rightarrow> http_client \<Rightarrow> http_client" where
  "with_sent b h r c = c\<lparr> hc_buf := b, hc_header := h, hc_relay := r \<rparr>"



lemma with_sent_fields [simp]:
  "is_200_ok (with_sent b h r c) = is_200_ok c" "is_chunked (with_sent b h r c) = is_chunked c" "hc_fields (with_sent b h r c) = hc_fields c"
  "cache_max_age (with_sent b h r c) = cache_max_age c" "cache_shared_max_age (with_sent b h r c) = cache_shared_max_age c"
  by (simp_all add: with_sent_def)



























definition plain_hc_env :: hc_env where
  "plain_hc_env = \<lparr> enable_tunneling_cache = True, single_tunneling_cache_size = 4096, localhostname = ''h'', is_head = False, seconds_left = (\<lambda>_. 0) \<rparr>"



definition kept_client :: http_client where
  "kept_client = (new_http_client ''u'' no_relay)\<lparr> hc_state := Parse_Content, use_cache := True, hc_content_length := 3, cache_buf := Some (4, []) \<rparr>"

theorem content_relayed_witness:
  "\<exists>c'. content_pieces plain_hc_env [([1], []), ([2, 3], [])] kept_client = Some (False, c') \<and> cache_completed c' \<and>
    client_out (hc_relay c') = client_out (hc_relay kept_client) @ concat (map fst [([1], [] :: bytes), ([2, 3], [])]) \<and>
    (\<forall>cap data. use_cache kept_client \<and> cache_buf kept_client = Some (cap, data) \<longrightarrow>
       cache_buf c' = Some (cap, data @ concat (map fst [([1], [] :: bytes), ([2, 3], [])])))"
  by (rule content_relayed) (simp_all add: awaiting_def kept_client_def new_http_client_def no_relay_def)


theorem cache_control_undefined_witness:
  "response_lines plain_hc_env (''Cache-Control: '' @ ''no-store'' @ CRLF @ CRLF) (new_http_client ''u'' no_relay) = None"
  by (rule cache_control_undefined) simp_all

text \<open>
  the first 14 characters of a \<open>Cache-Control\<close> have no effect. Two values that agree behind them do the same to the state,
  but for the text that is kept; so a response whose value begins with \<open>private\<close> may be kept.
\<close>

theorem cache_control_prefix_ignored:
  assumes "length p = 14" and "length q = 14" and "no_nul (p @ v)" and "no_nul (q @ v)"
    and "strip is_ws (p @ v) = p @ v" and "strip is_ws (q @ v) = q @ v"
    and "cache_control_line (''Cache-Control: '' @ p @ v) c = Some d"
  shows "cache_control_line (''Cache-Control: '' @ q @ v) c = Some (d\<lparr> hc_fields := (hc_fields c)(''Cache-Control'' := q @ v) \<rparr>)"
proof -
  have cut: "cc = p @ v \<or> cc = q @ v \<Longrightarrow> strtrim (strcut (cstr (''Cache-Control: '' @ cc)) (Some ''Cache-Control:'') None) = cc" for cc
    using assms(3-6) by (auto simp: strcut_def strtrim_no_nul strip_def is_ws_def)
  show ?thesis
    using assms(7) cut [of "p @ v"] cut [of "q @ v"] assms(1,2)
    unfolding cache_control_line_def by (auto simp: Let_def cache_for_def split: if_splits option.splits)
qed

theorem cache_control_prefix_ignored_witness:
  "cache_control_line (''Cache-Control: '' @ ''private, a=b, '' @ ''max-age=60'') (new_http_client ''u'' no_relay\<lparr> is_200_ok := True \<rparr>) =
    Some ((new_http_client ''u'' no_relay\<lparr> is_200_ok := True, cache_max_age := 60, use_cache := True,
      hc_fields := (\<lambda>_. [])(''Cache-Control'' := ''public,  a=b, max-age=60'') \<rparr>)
      \<lparr> hc_fields := (hc_fields (new_http_client ''u'' no_relay\<lparr> is_200_ok := True \<rparr>))(''Cache-Control'' := ''private, a=b, '' @ ''max-age=60'') \<rparr>)"
proof (rule cache_control_prefix_ignored [where p = "''public,  a=b, ''"])
  show "strip is_ws (''public,  a=b, '' @ ''max-age=60'') = ''public,  a=b, '' @ ''max-age=60''"
    "strip is_ws (''private, a=b, '' @ ''max-age=60'') = ''private, a=b, '' @ ''max-age=60''"
    by code_simp+
qed (simp_all add: cache_control_line_def new_http_client_def strcut_def strtrim_def is_ws_def cache_for_def shorter_age_def atoi_def)

end
