(* ===== verification/Tunnel.thy ===== *)
theory Tunnel
  imports Http_client Httpcomm
begin

section \<open>The tunnel to a server behind\<close>

text \<open>
  \<open>http_tunneling\<close> (tunneling.h, tunneling.cpp) in the asynchronous build without TLS to the client: connecting with two backups, the buffers to and
  from the server behind, the request, the response relayed by \<open>Http_client\<close> or taken from the cache, and the two directions of a
  \<open>CONNECT\<close>. Given are what the sockets answer, the names that resolve, what \<open>connect_ssl\<close> and \<open>select\<close> answer, the entries of the cache and what the client
  sends; \<open>epoll_ctl\<close> succeeds. What \<open>CHttp\<close> does with the octets for the client is the relay of \<open>Http_client\<close>, where \<open>AsyncHttpSend\<close> never fails.
\<close>

subsection \<open>State\<close>

text \<open>Some states have two names: \<open>TunnlingNew\<close> is \<open>TunnlingConnecting\<close>, and an error is the end.\<close>

datatype Tunneling_State =
  TunnlingConnecting | TunnlingConnectingWaiting | TunnlingConnected | TunnlingSendingReqToBackend | TunnlingRelayingData1
| TunnlingRelayingData2 | TunnlingRelayingData3 | TunnlingRelayingDataComplete | TunnlingComplete

definition tunneling_no :: "Tunneling_State \<Rightarrow> nat" where
  "tunneling_no st = (case st of
     TunnlingConnecting \<Rightarrow> 0 | TunnlingConnectingWaiting \<Rightarrow> 1 | TunnlingConnected \<Rightarrow> 2 | TunnlingSendingReqToBackend \<Rightarrow> 3
   | TunnlingRelayingData1 \<Rightarrow> 4 | TunnlingRelayingData2 \<Rightarrow> 5 | TunnlingRelayingData3 \<Rightarrow> 6 | TunnlingRelayingDataComplete \<Rightarrow> 7 | TunnlingComplete \<Rightarrow> 8)"

abbreviation TunnlingError :: Tunneling_State where "TunnlingError \<equiv> TunnlingComplete"
abbreviation TunnlingSentReqToBackend :: Tunneling_State where "TunnlingSentReqToBackend \<equiv> TunnlingRelayingData1"
abbreviation TunnlingEstablished :: Tunneling_State where "TunnlingEstablished \<equiv> TunnlingSendingReqToBackend"

record cached_response =
  cached_body :: bytes
  cached_field :: "string \<Rightarrow> string"

text \<open>What \<open>send\<close> and \<open>recv\<close> on the socket behind answer.\<close>

datatype back_send = Back_sent nat | Back_none | Back_again | Back_failed
datatype back_recv = Back_octets bytes | Back_closed | Back_would_block | Back_recv_failed

record backend_address =
  ba_host :: string
  ba_port :: u16
  ba_url :: string

record http_tunneling =
  tn_address :: string
  tn_port :: u16
  backend_open :: bool
  tn_type :: HTTPTunneling
  tn_url :: string
  cache_instance :: "cached_response option"
  backend_send_buf :: bytes
  backend_recv_buf :: bytes
  tn_client :: "http_client option"
  tn_watched :: bool
  backend_writeable :: bool
  tn_state :: Tunneling_State
  req_header :: bytes
  req_data :: bytes
  tn_backends :: "backend_address list"
  tn_no_cache :: bool
  tn_relay :: relay
  client_in :: bytes
  client_left :: "nat list"
  back_sends :: "back_send list"
  back_recvs :: "back_recv list"
  backend_out :: bytes
  tn_pushed :: "(string \<times> bytes \<times> (string \<Rightarrow> string) \<times> int) list"

datatype connect_event = Name_unknown | No_address | Connects "bool list"

record tunnel_env =
  tn_hc :: hc_env
  tn_date :: string
  find_tunneling :: "string \<Rightarrow> cached_response option"
  connects :: "string \<Rightarrow> u16 \<Rightarrow> connect_event"
  select_ready :: bool
  connect_ssl :: bool
  buffer_behind :: "http_client \<Rightarrow> bytes"

definition new_tunneling :: "HTTPTunneling \<Rightarrow> bool \<Rightarrow> http_tunneling" where
  "new_tunneling type no_cache = \<lparr> tn_address = [], tn_port = 0, backend_open = False, tn_type = type, tn_url = [], cache_instance = None,
     backend_send_buf = [], backend_recv_buf = [], tn_client = None, tn_watched = False, backend_writeable = False,
     tn_state = TunnlingConnecting, req_header = [], req_data = [], tn_backends = [], tn_no_cache = no_cache,
     tn_relay = \<lparr> client_out = [], client_ok = [], closed_by_force = False \<rparr>, client_in = [], client_left = [], back_sends = [], back_recvs = [],
     backend_out = [], tn_pushed = [] \<rparr>"

definition set_http_session_data :: "bytes \<Rightarrow> bytes \<Rightarrow> backend_address \<Rightarrow> backend_address \<Rightarrow> backend_address \<Rightarrow> http_tunneling \<Rightarrow> http_tunneling" where
  "set_http_session_data header data backend backup1 backup2 t =
     t\<lparr> req_header := header, req_data := data, tn_backends := [backend, backup1, backup2] \<rparr>"

subsection \<open>The socket behind\<close>

text \<open>The socket is in the list of the event loop, watched for input and, on demand, for output.\<close>

definition append_backend_session :: "http_tunneling \<Rightarrow> http_tunneling" where
  "append_backend_session t = (if backend_open t then t\<lparr> tn_watched := True, backend_writeable := True \<rparr> else t)"

definition remove_backend_session :: "http_tunneling \<Rightarrow> http_tunneling" where
  "remove_backend_session t = (if backend_open t then t\<lparr> tn_watched := False \<rparr> else t)"

definition backend_session_writeable :: "bool \<Rightarrow> http_tunneling \<Rightarrow> http_tunneling" where
  "backend_session_writeable w t = (if backend_open t \<and> tn_watched t then t\<lparr> backend_writeable := w \<rparr> else t)"

definition backend_close :: "http_tunneling \<Rightarrow> http_tunneling" where
  "backend_close t = (remove_backend_session t)\<lparr> backend_open := False \<rparr>"

definition force_tunneling_close :: "http_tunneling \<Rightarrow> http_tunneling" where
  "force_tunneling_close t = (remove_backend_session t)\<lparr> backend_open := False, tn_relay := (tn_relay t)\<lparr> closed_by_force := True \<rparr> \<rparr>"

text \<open>One call of \<open>send\<close> for all that waits; the result is the number of octets, \<open>0\<close> or \<open>- 1\<close>, and whether it was an error.\<close>

definition back_event :: "http_tunneling \<Rightarrow> back_send \<times> http_tunneling" where
  "back_event t = (case back_sends t of
     [] \<Rightarrow> (Back_sent (length (backend_send_buf t)), t)
   | ev # evs \<Rightarrow> (ev, t\<lparr> back_sends := evs \<rparr>))"

definition take_sent :: "nat \<Rightarrow> http_tunneling \<Rightarrow> http_tunneling" where
  "take_sent n t = t\<lparr> backend_out := backend_out t @ take n (backend_send_buf t), backend_send_buf := drop n (backend_send_buf t) \<rparr>"

definition backend_flush :: "http_tunneling \<Rightarrow> int \<times> http_tunneling" where
  "backend_flush t =
     (let (ev, t) = (if backend_send_buf t = [] then (Back_again, t) else back_event t)
      in case ev of
           Back_sent n \<Rightarrow>
             let t = take_sent (max 1 n) t; t = backend_session_writeable (backend_send_buf t \<noteq> []) t
             in (int (length (backend_send_buf t)), t)
         | Back_again \<Rightarrow>
             let t = backend_session_writeable (backend_send_buf t \<noteq> []) t in (int (length (backend_send_buf t)), t)
         | _ \<Rightarrow> (- 1, t\<lparr> backend_send_buf := [] \<rparr>))"

definition backend_send :: "bytes \<Rightarrow> http_tunneling \<Rightarrow> int \<times> http_tunneling" where
  "backend_send b t =
     (let (ev, t) = back_event (t\<lparr> backend_send_buf := backend_send_buf t @ b \<rparr>)
      in case ev of
           Back_sent n \<Rightarrow> (int (min (max 1 n) (length (backend_send_buf t))), take_sent (max 1 n) t)
         | Back_none \<Rightarrow> (0, t)
         | Back_again \<Rightarrow> (- 1, t)
         | Back_failed \<Rightarrow> (- 1, t\<lparr> backend_send_buf := [] \<rparr>))"

definition backend_recv :: "nat \<Rightarrow> http_tunneling \<Rightarrow> bytes \<times> http_tunneling" where
  "backend_recv len t = (take len (backend_recv_buf t), t\<lparr> backend_recv_buf := drop len (backend_recv_buf t) \<rparr>)"

definition backend_async_recv :: "http_tunneling \<Rightarrow> int \<times> http_tunneling" where
  "backend_async_recv t = (case back_recvs t of
     [] \<Rightarrow> (0, t)
   | ev # evs \<Rightarrow>
       let t = t\<lparr> back_recvs := evs \<rparr>
       in (case ev of
             Back_octets b \<Rightarrow> (if b = [] then (- 1, t) else (int (length (take 1024 b)), t\<lparr> backend_recv_buf := backend_recv_buf t @ take 1024 b \<rparr>))
           | Back_closed \<Rightarrow> (- 1, t)
           | Back_would_block \<Rightarrow> (0, t)
           | Back_recv_failed \<Rightarrow> (- 1, t)))"

definition backend_async_flush :: "http_tunneling \<Rightarrow> int \<times> http_tunneling" where
  "backend_async_flush t = backend_flush t"

subsection \<open>Connecting\<close>

text \<open>The addresses of a name are tried in turn; the first connection that is under way counts.\<close>

definition connect_backend :: "tunnel_env \<Rightarrow> backend_address \<Rightarrow> http_tunneling \<Rightarrow> bool \<times> http_tunneling" where
  "connect_backend env b t =
     (let hit = (enable_tunneling_cache (tn_hc env) \<and> \<not> tn_no_cache t \<and> ba_url b \<noteq> []);
          t = (if hit then t\<lparr> cache_instance := find_tunneling env (ba_url b) \<rparr> else t)
      in if hit \<and> cache_instance t \<noteq> None then (True, t\<lparr> tn_state := TunnlingConnected \<rparr>)
         else if tn_address t = ba_host b \<and> tn_port t = ba_port b \<and> backend_open t then (True, t\<lparr> tn_state := TunnlingConnected \<rparr>)
         else if ba_host b = [] \<or> ba_port b = 0 then (False, t)
         else case connects env (ba_host b) (ba_port b) of
           Name_unknown \<Rightarrow> (False, t)
         | No_address \<Rightarrow> (False, t)
         | Connects tries \<Rightarrow>
             if list_ex id tries then
               (True, (append_backend_session (t\<lparr> backend_open := True \<rparr>))
                 \<lparr> tn_address := ba_host b, tn_port := ba_port b, tn_url := ba_url b, tn_state := TunnlingConnectingWaiting \<rparr>)
             else (False, backend_close t))"

fun connect_first :: "tunnel_env \<Rightarrow> backend_address list \<Rightarrow> http_tunneling \<Rightarrow> http_tunneling" where
  "connect_first env [] t = t\<lparr> tn_state := TunnlingError \<rparr>"
| "connect_first env (b # bs) t = (let (ok, t) = connect_backend env b t in if ok then t else connect_first env bs t)"

definition connection_established :: bytes where
  "connection_established = to_bytes (''HTTP/1.1 200 Connection Established'' @ CRLF @ ''Proxy-Agent: '' @ VERSION_STRING @ CRLF @ CRLF)"

definition tn_send :: "bytes \<Rightarrow> http_tunneling \<Rightarrow> bool \<times> http_tunneling" where
  "tn_send b t = (let (ok, r) = client_send b (tn_relay t) in (ok, t\<lparr> tn_relay := r \<rparr>))"

definition client_flush :: "http_tunneling \<Rightarrow> nat \<times> http_tunneling" where
  "client_flush t = (case client_left t of [] \<Rightarrow> (0, t) | n # ns \<Rightarrow> (n, t\<lparr> client_left := ns \<rparr>))"

definition without_connect :: "http_tunneling \<Rightarrow> bool" where
  "without_connect t \<longleftrightarrow> tn_type t = HTTP_Tunneling_Without_CONNECT \<or> tn_type t = HTTP_Tunneling_Without_CONNECT_SSL"

subsection \<open>Relaying\<close>

definition send_request_to_backend :: "http_tunneling \<Rightarrow> bool \<times> http_tunneling" where
  "send_request_to_backend t =
     (if without_connect t \<and> tn_state t = TunnlingSendingReqToBackend then
        if cache_instance t \<noteq> None then (True, t\<lparr> tn_state := TunnlingSentReqToBackend \<rparr>)
        else
          let (n, t) = (if req_header t \<noteq> [] then backend_send (req_header t) t else (0, t))
          in if n < 0 then (False, t\<lparr> tn_state := TunnlingError \<rparr>)
             else
               let (n, t) = (if req_data t \<noteq> [] then backend_send (req_data t) t else (0, t))
               in if n < 0 then (False, t\<lparr> tn_state := TunnlingError \<rparr>)
                  else (True, t\<lparr> tn_state := TunnlingSentReqToBackend \<rparr>)
      else (True, t))"

text \<open>The header of a response from the cache: the fields that are kept and the hop of the server.\<close>

definition cached_fields :: "cached_response \<Rightarrow> (string \<times> string) list" where
  "cached_fields d = filter (\<lambda>(f, v). v \<noteq> [])
     (map (\<lambda>f. (f, cached_field d f)) [''Content-Type'', ''Cache-Control'', ''Allow'', ''Content-Encoding'', ''Content-Language'', ''ETag''])"

definition cached_dates :: "cached_response \<Rightarrow> (string \<times> string) list" where
  "cached_dates d = filter (\<lambda>(f, v). v \<noteq> []) (map (\<lambda>f. (f, cached_field d f)) [''Expires'', ''Last-Modified''])"

fun set_cached :: "string \<Rightarrow> (string \<times> string) list \<Rightarrow> CHttpResponseHdr \<Rightarrow> CHttpResponseHdr outcome" where
  "set_cached date [] h = Some h"
| "set_cached date ((f, v) # fs) h = Option.bind (SetResponseField date f (cstr v) h) (set_cached date fs)"

definition cached_via :: "tunnel_env \<Rightarrow> cached_response \<Rightarrow> string" where
  "cached_via env d = (if cached_field d ''Via'' = [] then this_hop (tn_hc env) else cached_field d ''Via'' @ '', '' @ this_hop (tn_hc env))"

definition cached_header :: "tunnel_env \<Rightarrow> cached_response \<Rightarrow> string outcome" where
  "cached_header env d = do {
     h \<leftarrow> set_cached (tn_date env) (cached_fields d) (SetStatusCode (tn_date env) SC200 (new_response_hdr (tn_date env)));
     h \<leftarrow> set_cached (tn_date env) (cached_dates d) (SetResponseField_num ''Content-Length'' (int (length (cached_body d))) h);
     h \<leftarrow> set_cached (tn_date env) [(''Connection'', ''Keep-Alive''), (''Via'', cached_via env d)] h;
     (s, h) \<leftarrow> Text_hdr h;
     Some (s @ CRLF)
   }"

definition send_cached :: "string \<Rightarrow> cached_response \<Rightarrow> http_tunneling \<Rightarrow> bool \<times> http_tunneling" where
  "send_cached s d t =
     (let (ok, t) = tn_send (to_bytes s) t;
          (ok, t) = (if ok \<and> cached_body d \<noteq> [] then tn_send (cached_body d) t else (ok, t))
      in (ok, t\<lparr> tn_state := (if ok then TunnlingRelayingData2 else TunnlingError) \<rparr>))"

definition flushed :: "Tunneling_State \<Rightarrow> Tunneling_State \<Rightarrow> http_tunneling \<Rightarrow> http_tunneling" where
  "flushed before after t =
     (if tn_state t = before then let (left, t) = client_flush t in if left = 0 then t\<lparr> tn_state := after \<rparr> else t else t)"

definition acquire_cache_relay_to_client :: "tunnel_env \<Rightarrow> cached_response \<Rightarrow> http_tunneling \<Rightarrow> (bool \<times> http_tunneling) outcome" where
  "acquire_cache_relay_to_client env d t = do {
     (ok, t) \<leftarrow> (if tn_state t = TunnlingRelayingData1 then map_option (\<lambda>s. send_cached s d t) (cached_header env d) else Some (True, t));
     Some (ok, if ok then flushed TunnlingRelayingData3 TunnlingComplete (flushed TunnlingRelayingData2 TunnlingRelayingData3 t) else t)
   }"

text \<open>The loop over what has come from the server behind, at most 4095 octets each time.\<close>

function recv_relay :: "tunnel_env \<Rightarrow> http_client \<Rightarrow> http_tunneling \<Rightarrow> http_tunneling outcome" where
  "recv_relay env c t =
     (let (b, t') = backend_recv 4095 t
      in if b = [] then Some (snd (client_flush (t'\<lparr> tn_client := Some c \<rparr>)))
         else case client_processing (tn_hc env) b (buffer_behind env c) (c\<lparr> hc_relay := tn_relay t' \<rparr>) of
           None \<Rightarrow> None
         | Some (go, c') \<Rightarrow>
             let t' = t'\<lparr> tn_relay := hc_relay c' \<rparr>; t' = (if closed_by_force (hc_relay c') then force_tunneling_close t' else t')
             in if \<not> go then Some (t'\<lparr> tn_client := Some c', tn_state := TunnlingRelayingDataComplete \<rparr>)
                else recv_relay env c' (snd (client_flush t')))"
  by pat_completeness auto
termination
  by (relation "measure (\<lambda>(env, c, t). length (backend_recv_buf t))")
    (auto simp: backend_recv_def client_flush_def force_tunneling_close_def remove_backend_session_def Let_def split: list.splits)

declare recv_relay.simps [simp del]

definition recv_response_from_backend_relay_to_client :: "tunnel_env \<Rightarrow> http_tunneling \<Rightarrow> http_tunneling outcome" where
  "recv_response_from_backend_relay_to_client env t = do {
     t \<leftarrow> (if tn_state t = TunnlingRelayingData1 then
         recv_relay env (case tn_client t of None \<Rightarrow> new_http_client (cstr (tn_url t)) (tn_relay t) | Some c \<Rightarrow> c) t
       else Some t);
     Some (if tn_state t = TunnlingRelayingDataComplete then t\<lparr> tn_state := TunnlingComplete \<rparr> else t)
   }"

text \<open>Both directions of \<open>CONNECT\<close>, at most 4095 octets each.\<close>

definition relay_to_backend :: "http_tunneling \<Rightarrow> http_tunneling" where
  "relay_to_backend t =
     (let b = take 4095 (client_in t); t = t\<lparr> client_in := drop 4095 (client_in t) \<rparr>
      in if b \<noteq> [] then snd (backend_send b t) else t)"

definition relay_to_client :: "http_tunneling \<Rightarrow> http_tunneling" where
  "relay_to_client t = (let (b, t) = backend_recv 4095 t in if b \<noteq> [] then snd (tn_send b t) else t)"

definition relay_processing :: "http_tunneling \<Rightarrow> http_tunneling" where
  "relay_processing t = relay_to_client (relay_to_backend t)"

subsection \<open>A turn\<close>

definition tunnel_connect :: "tunnel_env \<Rightarrow> http_tunneling \<Rightarrow> http_tunneling" where
  "tunnel_connect env t =
     (let t = (if tn_state t = TunnlingConnecting then connect_first env (tn_backends t) t else t)
      in if tn_state t = TunnlingConnectingWaiting \<and> select_ready env then t\<lparr> tn_state := TunnlingConnected \<rparr> else t)"

text \<open>A new connection: TLS to the server behind, or the answer to \<open>CONNECT\<close>. On a socket that is
  closed \<open>connect_ssl\<close> fails. A failure is not an end of the tunnel.\<close>

definition tunnel_connected :: "tunnel_env \<Rightarrow> http_tunneling \<Rightarrow> bool \<times> http_tunneling" where
  "tunnel_connected env t =
     (if tn_state t = TunnlingConnected then
        if tn_type t = HTTP_Tunneling_Without_CONNECT_SSL \<and> \<not> (backend_open t \<and> connect_ssl env) then (False, backend_close t)
        else
          let t = (if tn_type t = HTTP_Tunneling_With_CONNECT then snd (tn_send connection_established t) else t)
          in (True, t\<lparr> tn_state := TunnlingEstablished \<rparr>)
      else (True, t))"

definition tunnel_relay :: "tunnel_env \<Rightarrow> http_tunneling \<Rightarrow> http_tunneling outcome" where
  "tunnel_relay env t =
     (if tunneling_no TunnlingEstablished \<le> tunneling_no (tn_state t) \<and> tunneling_no (tn_state t) < tunneling_no TunnlingComplete then
        if tn_type t = HTTP_Tunneling_With_CONNECT then Some (relay_processing t)
        else if without_connect t then
          let t = (if tn_state t = TunnlingSendingReqToBackend then snd (send_request_to_backend t) else t)
          in if tunneling_no TunnlingRelayingData1 \<le> tunneling_no (tn_state t) \<and>
                tunneling_no (tn_state t) \<le> tunneling_no TunnlingRelayingDataComplete then
               (case cache_instance t of
                  Some d \<Rightarrow> map_option snd (acquire_cache_relay_to_client env d t)
                | None \<Rightarrow> recv_response_from_backend_relay_to_client env t)
             else Some t
        else Some t
      else Some t)"

text \<open>With the end of the tunnel its client goes, and may leave the response in the cache.\<close>

definition tunnel_end :: "tunnel_env \<Rightarrow> http_tunneling \<Rightarrow> http_tunneling" where
  "tunnel_end env t =
     (if tunneling_no (tn_state t) \<ge> tunneling_no TunnlingComplete then
        t\<lparr> tn_client := None, tn_pushed := tn_pushed t @
          (case tn_client t of None \<Rightarrow> [] | Some c \<Rightarrow> (case cache_entry (tn_hc env) c of None \<Rightarrow> [] | Some e \<Rightarrow> [e])) \<rparr>
      else t)"

definition tunnel_processing_turn :: "tunnel_env \<Rightarrow> http_tunneling \<Rightarrow> http_tunneling outcome" where
  "tunnel_processing_turn env t =
     (let (ok, t) = tunnel_connected env (tunnel_connect env t)
      in if ok then map_option (tunnel_end env) (tunnel_relay env t) else Some t)"

end
