(* ===== verification/Tunnel_relay.thy ===== *)
theory Tunnel_relay
  imports Tunnel Http_relay
begin

section \<open>What the tunnel does\<close>

text \<open>
  The model of \<open>Tunnel\<close>: its states only go on (\<open>tunnel_steps\<close>), the buffer to the server behind is a queue
  (\<open>backend_queue\<close>), a request and its response go through, and the ways a tunnel hangs or loses its request.
\<close>

subsection \<open>The states go on\<close>

definition later :: "http_tunneling \<Rightarrow> http_tunneling \<Rightarrow> bool" where
  "later t u \<longleftrightarrow> tunneling_no (tn_state t) \<le> tunneling_no (tn_state u) \<and> prefix (backend_out t) (backend_out u) \<and> tn_type u = tn_type t"

interpretation tunnel_steps: step_relation later
  by unfold_locales (auto simp: later_def intro: prefix_order.trans)

lemma later_io [simp]:
  "later t (t\<lparr> tn_relay := r \<rparr>)" "later t (t\<lparr> tn_client := c \<rparr>)" "later t (t\<lparr> client_in := i \<rparr>)" "later t (t\<lparr> client_left := l \<rparr>)"
  "later t (t\<lparr> backend_recv_buf := b \<rparr>)" "later t (snd (tn_send b t))" "later t (snd (client_flush t))" "later t (snd (backend_recv n t))"
  "later t (snd (backend_send b t))" "later t (backend_close t)" "later t (force_tunneling_close t)"
  by (auto simp: later_def tn_send_def client_flush_def backend_recv_def backend_send_def back_event_def take_sent_def backend_close_def
      remove_backend_session_def force_tunneling_close_def Let_def split: prod.splits list.splits back_send.splits)

lemma later_state: "tunneling_no (tn_state t) \<le> tunneling_no st \<Longrightarrow> later t (t\<lparr> tn_state := st \<rparr>)"
  by (simp add: later_def)

lemma tunneling_no_simps [simp]:
  "tunneling_no TunnlingConnecting = 0" "tunneling_no TunnlingConnectingWaiting = 1" "tunneling_no TunnlingConnected = 2"
  "tunneling_no TunnlingSendingReqToBackend = 3" "tunneling_no TunnlingRelayingData1 = 4" "tunneling_no TunnlingRelayingData2 = 5"
  "tunneling_no TunnlingRelayingData3 = 6" "tunneling_no TunnlingRelayingDataComplete = 7" "tunneling_no TunnlingComplete = 8"
  by (simp_all add: tunneling_no_def)

lemma tunneling_no_max: "tunneling_no st \<le> 8"
  by (cases st) simp_all

lemma later_connect_backend:
  "connect_backend env b t = (ok, u) \<Longrightarrow> tn_state t = TunnlingConnecting \<Longrightarrow> later t u \<and> (\<not> ok \<longrightarrow> tn_state u = TunnlingConnecting)"
  by (auto simp: connect_backend_def later_def append_backend_session_def backend_close_def remove_backend_session_def Let_def
      split: if_splits connect_event.splits)

lemma later_connect: "tn_state t = TunnlingConnecting \<Longrightarrow> later t (connect_first env bs t)"
proof (induction bs arbitrary: t)
  case Nil
  then show ?case
    by (simp add: later_state)
next
  case (Cons b bs)
  obtain ok u where u: "connect_backend env b t = (ok, u)"
    by force
  show ?case
    using later_connect_backend [OF u Cons.prems] Cons.IH [of u] tunnel_steps.step_trans [of t u] u by auto
qed

lemma later_flush_to: "later t ((snd (client_flush t))\<lparr> tn_state := st \<rparr>)" if "tunneling_no (tn_state t) \<le> tunneling_no st"
  using that later_io(7) [of t] by (auto simp: later_def)

lemma flush_state: "tn_state (snd (client_flush t)) = tn_state t"
  by (simp add: client_flush_def split: list.split)

lemma later_recv: "recv_relay env c t = Some u \<Longrightarrow> tunneling_no (tn_state t) \<le> 7 \<Longrightarrow> later t u"
proof (induction env c t arbitrary: u rule: recv_relay.induct)
  case (1 env c t)
  obtain b t1 where b: "backend_recv 4095 t = (b, t1)"
    by force
  have t1: "later t t1" "tn_state t1 = tn_state t"
    using later_io(8) [of t 4095] b by (auto simp: backend_recv_def)
  show ?case
  proof (cases "b = []")
    case True
    then have "u = snd (client_flush (t1\<lparr> tn_client := Some c \<rparr>))"
      using 1(2) b by (subst (asm) recv_relay.simps) simp
    then show ?thesis
      using tunnel_steps.step_trans [OF t1(1) tunnel_steps.step_trans [OF later_io(2) later_io(7)]] by simp
  next
    case False
    let ?buf = "buffer_behind env c"
    obtain go c2 where p: "client_processing (tn_hc env) b ?buf (c\<lparr> hc_relay := tn_relay t1 \<rparr>) = Some (go, c2)"
      using 1(2) b False by (subst (asm) recv_relay.simps) (auto split: option.splits)
    let ?t = "t1\<lparr> tn_relay := hc_relay c2 \<rparr>"
    let ?u = "if closed_by_force (hc_relay c2) then force_tunneling_close ?t else ?t"
    have u2: "later t ?u" "tn_state ?u = tn_state t"
      using tunnel_steps.step_trans [OF t1(1) later_io(1)] tunnel_steps.step_trans [OF t1(1) tunnel_steps.step_trans [OF later_io(1) later_io(11)]] t1(2)
      by (auto simp: force_tunneling_close_def remove_backend_session_def)
    show ?thesis
    proof (cases go)
      case False
      then have "u = ?u\<lparr> tn_client := Some c2, tn_state := TunnlingRelayingDataComplete \<rparr>"
        using 1(2) b \<open>b \<noteq> []\<close> p by (subst (asm) recv_relay.simps) (simp add: Let_def)
      then show ?thesis
        using u2 1(3) by (simp add: later_def)
    next
      case True
      then have "recv_relay env c2 (snd (client_flush ?u)) = Some u"
        using 1(2) b False p by (subst (asm) recv_relay.simps) (simp add: Let_def)
      moreover have "tn_state (snd (client_flush ?u)) = tn_state t"
        using u2(2) flush_state [of ?u] by (simp only:)
      ultimately show ?thesis
        using 1(1) [of "(b, t1)" b t1 "(go, c2)" go c2 ?t ?u u] b False p True 1(3)
          tunnel_steps.step_trans [OF u2(1) tunnel_steps.step_trans [OF later_io(7)]] by simp
    qed
  qed
qed

lemma later_response: "recv_response_from_backend_relay_to_client env t = Some u \<Longrightarrow> tunneling_no (tn_state t) \<le> 7 \<Longrightarrow> later t u"
proof -
  assume u: "recv_response_from_backend_relay_to_client env t = Some u" and n: "tunneling_no (tn_state t) \<le> 7"
  then obtain v where v: "later t v" "u = v \<or> u = v\<lparr> tn_state := TunnlingComplete \<rparr>"
    using later_recv [of env _ t] tunnel_steps.step_refl [of t]
    by (auto simp: recv_response_from_backend_relay_to_client_def bind_eq_Some_conv split: if_splits option.splits)
  then show "later t u"
    using tunneling_no_max by (auto simp: later_def)
qed

lemma later_flushed: "tunneling_no a \<le> tunneling_no b \<Longrightarrow> later t (flushed a b t)"
  using later_io(7) [of t] by (auto simp: flushed_def later_def Let_def split: prod.splits)

lemma later_cached:
  assumes "tn_state t = TunnlingRelayingData1"
  shows "later t (snd (send_cached s d t))"
proof -
  obtain ok u where u: "tn_send (to_bytes s) t = (ok, u)"
    by (rule prod.exhaust)
  obtain ok2 v where v: "(if ok \<and> cached_body d \<noteq> [] then tn_send (cached_body d) u else (ok, u)) = (ok2, v)"
    by (rule prod.exhaust)
  have "later t u" "later u v" "tn_state v = tn_state t"
    using u v later_io(6) [of t "to_bytes s"] later_io(6) [of u "cached_body d"] tunnel_steps.step_refl [of u]
    by (auto simp: tn_send_def split: if_splits prod.splits)
  then show ?thesis
    using u v tunnel_steps.step_trans [of t u v] assms by (auto simp: send_cached_def later_def)
qed

lemma later_acquire:
  assumes "acquire_cache_relay_to_client env d t = Some (ok, u)"
  shows "later t u"
proof -
  obtain v where v: "later t v" "u = v \<or> u = flushed TunnlingRelayingData3 TunnlingComplete (flushed TunnlingRelayingData2 TunnlingRelayingData3 v)"
    using assms later_cached [of t _ d] tunnel_steps.step_refl [of t]
    by (auto simp: acquire_cache_relay_to_client_def bind_eq_Some_conv split: if_splits) (metis snd_conv)+
  have "later w (flushed TunnlingRelayingData3 TunnlingComplete (flushed TunnlingRelayingData2 TunnlingRelayingData3 w))" for w
    using tunnel_steps.step_trans [OF later_flushed later_flushed] by simp
  then show ?thesis
    using v tunnel_steps.step_trans by blast
qed

lemma backend_send_state: "backend_send b t = (n, u) \<Longrightarrow> later t u \<and> tn_state u = tn_state t \<and> req_data u = req_data t"
  using later_io(9) [of t b]
  by (auto simp: backend_send_def back_event_def take_sent_def Let_def split: prod.splits list.splits back_send.splits)

lemma later_request: "later t (snd (send_request_to_backend t))"
proof -
  obtain n u where u: "(if req_header t \<noteq> [] then backend_send (req_header t) t else (0, t)) = (n, u)"
    by (rule prod.exhaust)
  obtain m v where v: "(if req_data u \<noteq> [] then backend_send (req_data u) u else (0, u)) = (m, v)"
    by (rule prod.exhaust)
  have "later t u" "tn_state u = tn_state t" "later u v" "tn_state v = tn_state u"
    using u v backend_send_state [of "req_header t" t n u] backend_send_state [of "req_data u" u m v] tunnel_steps.step_refl
    by (auto split: if_splits)
  then have "later t (v\<lparr> tn_state := st \<rparr>)" "later t (u\<lparr> tn_state := st \<rparr>)" if "tunneling_no (tn_state t) \<le> tunneling_no st" for st
    using that tunnel_steps.step_trans [of t u v] by (auto simp: later_def)
  then show ?thesis
    using u v tunnel_steps.step_refl [of t] later_state [of t]
    by (simp add: send_request_to_backend_def)
qed

lemma later_relaying: "later t (relay_processing t)"
proof -
  have "later u (relay_to_backend u)" for u
    using tunnel_steps.step_trans [OF later_io(3) later_io(9)] by (simp add: relay_to_backend_def Let_def)
  moreover have "later u (relay_to_client u)" for u
    using later_io(8) [of u 4095] tunnel_steps.step_trans [OF later_io(8) [of u 4095] later_io(6)]
    by (auto simp: relay_to_client_def backend_recv_def)
  ultimately show ?thesis
    using tunnel_steps.step_trans by (simp add: relay_processing_def) blast
qed

lemma later_relay:
  assumes "tunnel_relay env t = Some u"
  shows "later t u"
proof -
  let ?v = "if tn_state t = TunnlingSendingReqToBackend then snd (send_request_to_backend t) else t"
  have v: "later t ?v"
    using later_request tunnel_steps.step_refl by simp
  have "later ?v u" if "recv_response_from_backend_relay_to_client env ?v = Some u" "tunneling_no (tn_state ?v) \<le> 7"
    using later_response that by blast
  moreover have "later ?v u" if "acquire_cache_relay_to_client env d ?v = Some (ok, u)" for d ok
    using later_acquire that by blast
  moreover have "later t (relay_processing t)"
    by (rule later_relaying)
  ultimately show ?thesis
    using assms v tunnel_steps.step_trans [OF v]  tunnel_steps.step_refl [of t]
    by (auto simp: tunnel_relay_def Let_def split: if_splits option.splits)
qed

lemma later_turn:
  assumes "tunnel_processing_turn env t = Some u"
  shows "later t u"
proof -
  let ?c = "if tn_state t = TunnlingConnecting then connect_first env (tn_backends t) t else t"
  have "later t ?c"
    using later_connect [of t env] tunnel_steps.step_refl by simp
  then have c: "later t (tunnel_connect env t)"
    by (auto simp: tunnel_connect_def Let_def later_def)
  obtain ok v where v: "tunnel_connected env (tunnel_connect env t) = (ok, v)"
    by (rule prod.exhaust)
  have "later w (snd (tunnel_connected env w))" for w
    using later_io(6) [of w connection_established] later_io(10) [of w] by (auto simp: tunnel_connected_def Let_def later_def)
  then have v2: "later t v"
    using v tunnel_steps.step_trans [OF c] by (metis snd_conv)
  have e: "later w (tunnel_end env w)" for w
    by (simp add: tunnel_end_def later_def)
  show ?thesis
    using assms v v2 tunnel_steps.step_trans [OF v2] tunnel_steps.step_trans [OF later_relay e]
    by (auto simp: tunnel_processing_turn_def split: if_splits)
qed

text \<open>
  C15: a tunnel never goes back. Whatever the sockets, the cache and the server behind answer, a turn leaves it in its state or a later one, and what was
  sent to the server behind stays sent.
\<close>

theorem tunnel_never_goes_back:
  assumes "tunnel_processing_turn env t = Some u"
  shows "tunneling_no (tn_state t) \<le> tunneling_no (tn_state u) \<and> prefix (backend_out t) (backend_out u)"
  using later_turn [OF assms] by (simp add: later_def)

subsection \<open>The way to the server behind\<close>

definition back_steady :: "http_tunneling \<Rightarrow> bool" where
  "back_steady t \<longleftrightarrow> list_all (\<lambda>ev. ev \<noteq> Back_failed \<and> ev \<noteq> Back_none) (back_sends t)"

definition to_backend :: "http_tunneling \<Rightarrow> bytes" where
  "to_backend t = backend_out t @ backend_send_buf t"

lemma backend_event_steady:
  "back_steady t \<Longrightarrow> back_event t = (ev, u) \<Longrightarrow> ev \<noteq> Back_failed \<and> ev \<noteq> Back_none \<and> back_steady u \<and> to_backend u = to_backend t \<and> backend_out u = backend_out t"
  by (auto simp: back_steady_def back_event_def to_backend_def split: list.splits)

lemma writeable_queue [simp]:
  "to_backend (backend_session_writeable w t) = to_backend t" "backend_out (backend_session_writeable w t) = backend_out t"
  "back_steady (backend_session_writeable w t) = back_steady t" "backend_send_buf (backend_session_writeable w t) = backend_send_buf t"
  by (simp_all add: backend_session_writeable_def to_backend_def back_steady_def)

lemma take_sent_queue [simp]:
  "to_backend (take_sent n t) = to_backend t" "prefix (backend_out t) (backend_out (take_sent n t))" "back_steady (take_sent n t) = back_steady t"
  by (simp_all add: take_sent_def to_backend_def back_steady_def)

lemma backend_send_steady:
  assumes "back_steady t"
  shows "to_backend (snd (backend_send b t)) = to_backend t @ b" and "back_steady (snd (backend_send b t))"
    and "prefix (backend_out t) (backend_out (snd (backend_send b t)))"
proof -
  let ?t = "t\<lparr> backend_send_buf := backend_send_buf t @ b \<rparr>"
  obtain ev u where u: "back_event ?t = (ev, u)"
    by (rule prod.exhaust)
  have "back_steady ?t" "to_backend ?t = to_backend t @ b" "backend_out ?t = backend_out t"
    using assms by (simp_all add: back_steady_def to_backend_def)
  note e = backend_event_steady [OF this(1) u]
  show "to_backend (snd (backend_send b t)) = to_backend t @ b" "back_steady (snd (backend_send b t))"
    "prefix (backend_out t) (backend_out (snd (backend_send b t)))"
    using e u take_sent_queue(2) [of u] \<open>to_backend ?t = to_backend t @ b\<close> by (auto simp: backend_send_def split: back_send.split)
qed

lemma backend_flush_steady:
  assumes "back_steady t"
  shows "to_backend (snd (backend_flush t)) = to_backend t" and "back_steady (snd (backend_flush t))"
    and "prefix (backend_out t) (backend_out (snd (backend_flush t)))"
proof -
  obtain ev u where u: "(if backend_send_buf t = [] then (Back_again, t) else back_event t) = (ev, u)"
    by (rule prod.exhaust)
  have e: "ev \<noteq> Back_failed \<and> ev \<noteq> Back_none \<and> back_steady u \<and> to_backend u = to_backend t \<and> backend_out u = backend_out t"
    using u backend_event_steady [OF assms, of ev u] assms by (auto split: if_splits)
  show "to_backend (snd (backend_flush t)) = to_backend t" "back_steady (snd (backend_flush t))"
    "prefix (backend_out t) (backend_out (snd (backend_flush t)))"
    using e u take_sent_queue(2) [of u] by (auto simp: backend_flush_def Let_def split: back_send.split)
qed

interpretation backend_queue: send_queue "\<lambda>b t. snd (backend_send b t)" "\<lambda>t. snd (backend_flush t)" backend_out to_backend back_steady
  by unfold_locales (simp_all add: backend_send_steady backend_flush_steady)

text \<open>
  C18: the server behind gets what is sent to it, in order. Whatever parts the socket takes, as long as it does not fail, what it has taken and what waits
  is what was sent, and what it has taken stays.
\<close>

theorem backend_send_in_order:
  fixes xs :: "send_op list"
  assumes "back_steady t"
  defines "u \<equiv> run_sends (\<lambda>b t. snd (backend_send b t)) (\<lambda>t. snd (backend_flush t)) xs t"
  shows "backend_out u @ backend_send_buf u = backend_out t @ backend_send_buf t @ put_octets xs \<and> prefix (backend_out t) (backend_out u)"
  using backend_queue.run_queue [OF assms(1), of xs] by (simp add: u_def to_backend_def)

subsection \<open>Turns\<close>

text \<open>Turns, each after some octets have come from the server behind.\<close>

fun tunnel_turns :: "tunnel_env \<Rightarrow> bytes list \<Rightarrow> http_tunneling \<Rightarrow> http_tunneling outcome" where
  "tunnel_turns env [] t = Some t"
| "tunnel_turns env (b # bs) t =
     Option.bind (tunnel_processing_turn env (t\<lparr> backend_recv_buf := backend_recv_buf t @ b \<rparr>)) (tunnel_turns env bs)"

text \<open>
  a tunnel whose server behind refuses TLS does not end. Its socket is closed, but its state is that of a new connection, in this turn and in every later one.
\<close>

theorem tls_failure_never_ends:
  assumes "tn_state t = TunnlingConnected" and "tn_type t = HTTP_Tunneling_Without_CONNECT_SSL" and "\<not> connect_ssl env"
  shows "\<exists>u. tunnel_turns env bs t = Some u \<and> tn_state u = TunnlingConnected \<and> (bs \<noteq> [] \<longrightarrow> \<not> backend_open u)"
  using assms
proof (induction bs arbitrary: t)
  case (Cons b bs)
  let ?t = "backend_close (t\<lparr> backend_recv_buf := backend_recv_buf t @ b \<rparr>)"
  have "tunnel_processing_turn env (t\<lparr> backend_recv_buf := backend_recv_buf t @ b \<rparr>) = Some ?t"
    using Cons.prems by (simp add: tunnel_processing_turn_def tunnel_connect_def tunnel_connected_def Let_def)
  moreover have "tn_state ?t = TunnlingConnected" "tn_type ?t = HTTP_Tunneling_Without_CONNECT_SSL" "\<not> backend_open ?t"
    using Cons.prems by (simp_all add: backend_close_def remove_backend_session_def)
  ultimately show ?case
    using Cons.IH [of ?t] Cons.prems by (cases bs) auto
qed simp

text \<open>
  a server behind that is busy for a moment loses its request. When \<open>send\<close> would block, the request waits to be
  sent, but the tunnel takes this for an error and ends.
\<close>

theorem busy_backend_is_error:
  assumes "tn_state t = TunnlingSendingReqToBackend" and "tn_type t = HTTP_Tunneling_Without_CONNECT" and "cache_instance t = None"
    and "req_header t \<noteq> []" and "back_sends t = Back_again # evs"
  shows "\<exists>u. tunnel_processing_turn env t = Some u \<and> tn_state u = TunnlingError \<and> client_out (tn_relay u) = client_out (tn_relay t) \<and>
    backend_send_buf u = backend_send_buf t @ req_header t"
  using assms
  by (auto simp: tunnel_processing_turn_def tunnel_connect_def tunnel_connected_def tunnel_relay_def without_connect_def
      send_request_to_backend_def backend_send_def back_event_def tunnel_end_def Let_def)







text \<open>A response without a length and without chunks, from its header on.\<close>

definition unframed :: "http_client \<Rightarrow> bool" where
  "unframed c \<longleftrightarrow> hc_state c = Parse_Content \<and> \<not> is_chunked c \<and> hc_content_length c = - 1 \<and> 0 \<le> hc_sent c \<and> hc_buf c = [] \<and> cache_buf c = None"

lemma unframed_piece:
  assumes "unframed c" and "client_ok r = []"
  shows "\<exists>c'. client_processing e b behind (c\<lparr> hc_relay := r \<rparr>) = Some (True, c') \<and> unframed c' \<and> hc_relay c' = put_out b r"
  using assms
  by (auto simp: unframed_def client_processing_def send_content_def copy_content_def relay_content_def hc_send_def client_send_ok put_out_def Let_def)

lemma unframed_relay:
  "unframed c \<Longrightarrow> client_ok (tn_relay t) = [] \<Longrightarrow> \<not> closed_by_force (tn_relay t) \<Longrightarrow>
   \<exists>u c'. recv_relay env c t = Some u \<and> tn_client u = Some c' \<and> unframed c' \<and> tn_state u = tn_state t \<and> tn_type u = tn_type t \<and>
     cache_instance u = cache_instance t \<and> tn_relay u = put_out (backend_recv_buf t) (tn_relay t) \<and> backend_recv_buf u = []"
proof (induction env c t rule: recv_relay.induct)
  case (1 env c t)
  let ?b = "take 4095 (backend_recv_buf t)"
  obtain t1 where t1: "t1 = t\<lparr> backend_recv_buf := drop 4095 (backend_recv_buf t) \<rparr>"
    by blast
  have b: "backend_recv 4095 t = (?b, t1)"
    by (simp add: backend_recv_def t1)
  have fl: "tn_client (snd (client_flush u)) = tn_client u" "tn_state (snd (client_flush u)) = tn_state u" "tn_type (snd (client_flush u)) = tn_type u"
    "cache_instance (snd (client_flush u)) = cache_instance u" "tn_relay (snd (client_flush u)) = tn_relay u"
    "backend_recv_buf (snd (client_flush u)) = backend_recv_buf u" for u
    by (simp_all add: client_flush_def split: list.split)
  show ?case
  proof (cases "backend_recv_buf t = []")
    case True
    then show ?thesis
      using 1(2) b fl by (subst recv_relay.simps) (simp add: t1 put_out_def)
  next
    case False
    obtain c2 where c2: "client_processing (tn_hc env) ?b (buffer_behind env c) (c\<lparr> hc_relay := tn_relay t \<rparr>) = Some (True, c2)"
      "unframed c2" "hc_relay c2 = put_out ?b (tn_relay t)"
      using unframed_piece [OF 1(2,3)] by metis
    have same: "tn_relay t1 = tn_relay t" "backend_recv_buf t1 = drop 4095 (backend_recv_buf t)" "tn_state t1 = tn_state t" "tn_type t1 = tn_type t"
      "cache_instance t1 = cache_instance t"
      by (simp_all add: t1)
    have force: "\<not> closed_by_force (hc_relay c2)"
      using 1(4) by (simp add: c2(3) put_out_def)
    let ?t2 = "t1\<lparr> tn_relay := hc_relay c2 \<rparr>"
    have step: "recv_relay env c t = recv_relay env c2 (snd (client_flush ?t2))"
      using b c2(1) force False same(1) by (subst recv_relay.simps) (simp add: Let_def)
    have ih: "unframed c2 \<Longrightarrow> client_ok (tn_relay (snd (client_flush ?t2))) = [] \<Longrightarrow> \<not> closed_by_force (tn_relay (snd (client_flush ?t2))) \<Longrightarrow> ?thesis"
      using 1(1) [of "(?b, t1)" ?b t1 "(True, c2)" True c2 ?t2 ?t2] b c2(1,3) force False same step fl
      by (auto simp: put_out_def)
    show ?thesis
      by (rule ih) (use c2 1(3,4) fl in \<open>auto simp: put_out_def\<close>)
  qed
qed

text \<open>
  C22: a response whose end is the end of the connection is never complete. Without a length and without chunks every octet is relayed, but no turn ends
  the tunnel; the client is not told either.
\<close>

theorem unframed_response_never_ends:
  assumes "tn_state t = TunnlingRelayingData1" and "tn_type t = HTTP_Tunneling_Without_CONNECT" and "cache_instance t = None"
    and "tn_client t = Some c" and "unframed c" and "client_ok (tn_relay t) = []" and "\<not> closed_by_force (tn_relay t)" and "backend_recv_buf t = []"
  shows "\<exists>u. tunnel_turns env bs t = Some u \<and> tn_state u = TunnlingRelayingData1 \<and>
    client_out (tn_relay u) = client_out (tn_relay t) @ concat bs"
  using assms
proof (induction bs arbitrary: t c)
  case (Cons b bs)
  let ?t = "t\<lparr> backend_recv_buf := backend_recv_buf t @ b \<rparr>"
  obtain u c' where u: "recv_relay env c ?t = Some u" "tn_client u = Some c'" "unframed c'" "tn_state u = TunnlingRelayingData1"
    "tn_type u = HTTP_Tunneling_Without_CONNECT" "cache_instance u = None" "tn_relay u = put_out b (tn_relay t)" "backend_recv_buf u = []"
    using unframed_relay [of c ?t env] Cons.prems by auto
  have "tunnel_processing_turn env ?t = Some u"
    using u Cons.prems
    by (simp add: tunnel_processing_turn_def tunnel_connect_def tunnel_connected_def tunnel_relay_def without_connect_def
        recv_response_from_backend_relay_to_client_def tunnel_end_def Let_def)
  then show ?case
    using Cons.IH [of u c'] u Cons.prems(6,7) by (auto simp: put_out_def)
qed simp

definition plain_tunnel_env :: tunnel_env where
  "plain_tunnel_env = \<lparr> tn_hc = plain_hc_env, tn_date = ''now'', find_tunneling = (\<lambda>_. None), connects = (\<lambda>_ _. Connects [True]), select_ready = True,
     connect_ssl = False, buffer_behind = (\<lambda>_. []) \<rparr>"

definition ready_tunnel :: "HTTPTunneling \<Rightarrow> Tunneling_State \<Rightarrow> http_tunneling" where
  "ready_tunnel type st = (new_tunneling type False)\<lparr> tn_state := st, backend_open := True, req_header := [1], req_data := [2] \<rparr>"

theorem tls_failure_never_ends_witness:
  "\<exists>u. tunnel_turns plain_tunnel_env [[], []] (ready_tunnel HTTP_Tunneling_Without_CONNECT_SSL TunnlingConnected) = Some u \<and>
     tn_state u = TunnlingConnected \<and> ([[], []] \<noteq> ([] :: bytes list) \<longrightarrow> \<not> backend_open u)"
  by (rule tls_failure_never_ends) (simp_all add: ready_tunnel_def new_tunneling_def plain_tunnel_env_def)

theorem busy_backend_is_error_witness:
  "\<exists>u. tunnel_processing_turn plain_tunnel_env ((ready_tunnel HTTP_Tunneling_Without_CONNECT TunnlingSendingReqToBackend)\<lparr> back_sends := [Back_again] \<rparr>) = Some u \<and>
     tn_state u = TunnlingError \<and>
     client_out (tn_relay u) = client_out (tn_relay ((ready_tunnel HTTP_Tunneling_Without_CONNECT TunnlingSendingReqToBackend)\<lparr> back_sends := [Back_again] \<rparr>)) \<and>
     backend_send_buf u = backend_send_buf ((ready_tunnel HTTP_Tunneling_Without_CONNECT TunnlingSendingReqToBackend)\<lparr> back_sends := [Back_again] \<rparr>) @
       req_header ((ready_tunnel HTTP_Tunneling_Without_CONNECT TunnlingSendingReqToBackend)\<lparr> back_sends := [Back_again] \<rparr>)"
  by (rule busy_backend_is_error) (simp_all add: ready_tunnel_def new_tunneling_def)

theorem backend_send_in_order_witness:
  "let t = (ready_tunnel HTTP_Tunneling_With_CONNECT TunnlingEstablished)\<lparr> back_sends := [Back_sent 1, Back_again] \<rparr>;
       u = run_sends (\<lambda>b t. snd (backend_send b t)) (\<lambda>t. snd (backend_flush t)) [Put [1, 2], Go_on, Put [3]] t
   in backend_out u @ backend_send_buf u = backend_out t @ backend_send_buf t @ put_octets [Put [1, 2], Go_on, Put [3]] \<and> prefix (backend_out t) (backend_out u)"
  unfolding Let_def by (rule backend_send_in_order) (simp add: back_steady_def)

theorem tunnel_never_goes_back_witness:
  "\<exists>u. tunnel_processing_turn plain_tunnel_env (ready_tunnel HTTP_Tunneling_With_CONNECT TunnlingConnected) = Some u \<and>
     tunneling_no (tn_state (ready_tunnel HTTP_Tunneling_With_CONNECT TunnlingConnected)) \<le> tunneling_no (tn_state u) \<and>
     prefix (backend_out (ready_tunnel HTTP_Tunneling_With_CONNECT TunnlingConnected)) (backend_out u)"
proof -
  obtain u where "tunnel_processing_turn plain_tunnel_env (ready_tunnel HTTP_Tunneling_With_CONNECT TunnlingConnected) = Some u"
    by (auto simp: tunnel_processing_turn_def tunnel_connect_def tunnel_connected_def tunnel_relay_def ready_tunnel_def new_tunneling_def
        tn_send_def client_send_def Let_def)
  then show ?thesis
    using tunnel_never_goes_back by blast
qed

theorem unframed_response_never_ends_witness:
  "let c = (new_http_client ''u'' no_relay)\<lparr> hc_state := Parse_Content \<rparr>;
       t = (ready_tunnel HTTP_Tunneling_Without_CONNECT TunnlingRelayingData1)\<lparr> tn_client := Some c \<rparr>
   in \<exists>u. tunnel_turns plain_tunnel_env [[1], [2, 3]] t = Some u \<and> tn_state u = TunnlingRelayingData1 \<and>
     client_out (tn_relay u) = client_out (tn_relay t) @ concat [[1], [2, 3]]"
  unfolding Let_def
  by (rule unframed_response_never_ends [where c = "(new_http_client ''u'' no_relay)\<lparr> hc_state := Parse_Content \<rparr>"])
    (simp_all add: ready_tunnel_def new_tunneling_def unframed_def new_http_client_def)


end
