(* ===== verification/Ringbuf.thy ===== *)
theory Ringbuf
  imports Prelude
begin

section \<open>The ring buffers of a blocking tunnel\<close>

text \<open>
  \<open>relay_processing\<close> of the blocking build (tunneling.h, tunneling.cpp) keeps the octets of each direction of a \<open>CONNECT\<close> in a ring of \<open>N\<close> octets, doubled so that
  what runs over its end is still in one piece; \<open>N\<close> is \<open>BUFFER_DESCR_BUF_LEN\<close>. What \<open>recv\<close> delivers and how much \<open>send\<close> takes is given. The
  positions are counted on as \<open>int\<close>; beyond its range the sum is undefined. The loop of \<open>select\<close> around the two
  is not modelled.
\<close>

definition BUFFER_DESCR_BUF_LEN :: nat where "BUFFER_DESCR_BUF_LEN = 4096 * 3"

record Buffer_Descr =
  rb_buf :: bytes
  r_pos :: nat
  w_pos :: nat

definition new_ring :: "bytes \<Rightarrow> Buffer_Descr" where
  "new_ring memory = \<lparr> rb_buf = memory, r_pos = 0, w_pos = 0 \<rparr>"

definition put_at :: "nat \<Rightarrow> bytes \<Rightarrow> bytes \<Rightarrow> bytes" where
  "put_at i d m = take i m @ d @ drop (i + length d) m"

definition ring_store :: "nat \<Rightarrow> nat \<Rightarrow> bytes \<Rightarrow> bytes \<Rightarrow> bytes" where
  "ring_store N at d m =
     (let m = put_at at d m in if length d > N - at then put_at 0 (take (length d - (N - at)) (drop N m)) m else m)"

text \<open>\<open>recv\<close> is asked for as much as is free; what runs over the end is copied to the front as well.\<close>

definition ring_recv :: "nat \<Rightarrow> bytes \<Rightarrow> Buffer_Descr \<Rightarrow> Buffer_Descr outcome" where
  "ring_recv N sock rb =
     (let wanna_recv_len = int N - (int (w_pos rb) - int (r_pos rb))
      in if 0 < wanna_recv_len \<and> wanna_recv_len \<le> int N then
           let d = take (nat wanna_recv_len) sock
           in if w_pos rb + length d \<ge> 2 ^ 31 then None
              else Some (rb\<lparr> rb_buf := ring_store N (w_pos rb mod N) d (rb_buf rb), w_pos := w_pos rb + length d \<rparr>)
         else Some rb)"

text \<open>\<open>send\<close> is offered all that waits and takes the first \<open>n\<close> octets of it.\<close>

definition ring_send :: "nat \<Rightarrow> nat \<Rightarrow> Buffer_Descr \<Rightarrow> bytes \<times> Buffer_Descr" where
  "ring_send N n rb =
     (let wanna_send_len = int (w_pos rb) - int (r_pos rb)
      in if 0 < wanna_send_len \<and> wanna_send_len \<le> int N then
           let b = take n (take (nat wanna_send_len) (drop (r_pos rb mod N) (rb_buf rb)))
           in (b, rb\<lparr> r_pos := r_pos rb + length b \<rparr>)
         else ([], rb))"

datatype ring_op = Ring_recv bytes | Ring_send nat

fun ring_run :: "nat \<Rightarrow> ring_op list \<Rightarrow> bytes \<times> Buffer_Descr \<Rightarrow> (bytes \<times> Buffer_Descr) outcome" where
  "ring_run N [] s = Some s"
| "ring_run N (Ring_recv d # ops) (sent, rb) = Option.bind (ring_recv N d rb) (\<lambda>rb. ring_run N ops (sent, rb))"
| "ring_run N (Ring_send n # ops) (sent, rb) = (let (b, rb) = ring_send N n rb in ring_run N ops (sent @ b, rb))"

subsection \<open>What waits\<close>

definition ring_holds :: "nat \<Rightarrow> bytes \<Rightarrow> Buffer_Descr \<Rightarrow> bool" where
  "ring_holds N u rb \<longleftrightarrow> w_pos rb = r_pos rb + length u \<and> length u \<le> N \<and> length (rb_buf rb) = 2 * N + 1 \<and>
     (\<forall>j < length u. rb_buf rb ! (r_pos rb mod N + j) = u ! j \<and>
        (r_pos rb mod N + j \<ge> N \<longrightarrow> rb_buf rb ! (r_pos rb mod N + j - N) = u ! j))"

lemma put_at_length: "i + length d \<le> length m \<Longrightarrow> length (put_at i d m) = length m"
  by (simp add: put_at_def)

lemma put_at_nth:
  "i + length d \<le> length m \<Longrightarrow> k < length m \<Longrightarrow> put_at i d m ! k = (if i \<le> k \<and> k < i + length d then d ! (k - i) else m ! k)"
  by (auto simp: put_at_def nth_append min_def)

lemma ring_send_holds:
  assumes "ring_holds N u rb" and "0 < N"
  shows "ring_send N n rb = (take n u, snd (ring_send N n rb)) \<and> ring_holds N (drop n u) (snd (ring_send N n rb))"
proof (cases "u = []")
  case True
  then show ?thesis
    using assms by (auto simp: ring_send_def ring_holds_def)
next
  case False
  let ?r = "r_pos rb mod N"
  have h: "w_pos rb = r_pos rb + length u" "length u \<le> N" "length (rb_buf rb) = 2 * N + 1" "?r < N"
    "\<And>j. j < length u \<Longrightarrow> rb_buf rb ! (?r + j) = u ! j" "\<And>j. j < length u \<Longrightarrow> ?r + j \<ge> N \<Longrightarrow> rb_buf rb ! (?r + j - N) = u ! j"
    using assms by (auto simp: ring_holds_def)
  have le: "?r \<le> length (rb_buf rb)"
    using h(3,4) by linarith
  have room: "length u \<le> length (rb_buf rb) - ?r"
    using h(2,3,4) by linarith
  have w: "take (length u) (drop ?r (rb_buf rb)) = u"
  proof (rule nth_equalityI)
    show "length (take (length u) (drop ?r (rb_buf rb))) = length u"
      using room by (simp only: length_take length_drop min_absorb2)
    show "take (length u) (drop ?r (rb_buf rb)) ! j = u ! j" if "j < length (take (length u) (drop ?r (rb_buf rb)))" for j
      using h(5) [of j] that by (simp add: nth_drop [OF le])
  qed
  have s: "ring_send N n rb = (take n u, rb\<lparr> r_pos := r_pos rb + length (take n u) \<rparr>)"
    using False h w by (simp add: ring_send_def)
  let ?k = "length (take n u)"
  have "ring_holds N (drop n u) (rb\<lparr> r_pos := r_pos rb + ?k \<rparr>)"
  proof (cases "?r + ?k < N")
    case True
    then have m: "(r_pos rb + ?k) mod N = ?r + ?k"
      by (metis mod_add_left_eq mod_less)
    then show ?thesis
      using h by (auto simp: ring_holds_def add.assoc)
  next
    case False
    then have m: "(r_pos rb + ?k) mod N = ?r + ?k - N"
    proof -
      have "?r + ?k < 2 * N"
        using h(2,4) by (simp add: min_def)
      then have "(?r + ?k) mod N = ?r + ?k - N"
        using False mod_once [of N "?r + ?k"] by linarith
      then show ?thesis
        by (simp only: mod_add_left_eq)
    qed
    have a: "rb_buf rb ! (?r + ?k - N + j) = drop n u ! j" if "j < length (drop n u)" for j
      using h(6) [of "?k + j"] that False by (auto simp: min_def not_less algebra_simps)
    have b: "\<not> ?r + ?k - N + j \<ge> N" if "j < length (drop n u)" for j
    proof -
      have "?k + j < length u"
        using that by (cases "length u \<le> n") auto
      then show ?thesis
        using h(2,4) by linarith
    qed
    show ?thesis
    proof -
      have "w_pos rb = r_pos rb + ?k + length (drop n u)" "length (drop n u) \<le> N"
        using h(1,2) by auto
      then show ?thesis
        using a b h(3) m by (simp add: ring_holds_def del: length_take length_drop)
    qed
  qed
  then show ?thesis
    using s by simp
qed


lemma ring_write:
  fixes m u d :: bytes
  assumes m: "length m = 2 * N + 1" "\<And>j. j < length u \<Longrightarrow> m ! (r + j) = u ! j" and a: "a = r + length u" "a < N" and d: "length d \<le> N - length u"
  defines "m2 \<equiv> ring_store N a d m"
  shows "length m2 = 2 * N + 1" and "\<And>j. j < length (u @ d) \<Longrightarrow> m2 ! (r + j) = (u @ d) ! j"
    and "\<And>j. j < length (u @ d) \<Longrightarrow> N \<le> r + j \<Longrightarrow> m2 ! (r + j - N) = (u @ d) ! j"
proof -
  define m1 where "m1 = put_at a d m"
  define f where "f = take (length d - (N - a)) (drop N m1)"
  have m2_def: "m2 = (if length d > N - a then put_at 0 f m1 else m1)"
    by (simp add: \<open>m2 \<equiv> _\<close> ring_store_def m1_def f_def Let_def)
  have fit: "a + length d \<le> length m"
    using m(1) a(2) d by linarith
  have l1: "length m1 = 2 * N + 1"
    using put_at_length [OF fit] m(1) by (simp add: m1_def)
  have lf: "length f = length d - (N - a)" "length f \<le> r"
    using l1 a d by (simp_all add: f_def)
  have m2: "m2 ! k = (if k < length f then f ! k else m1 ! k)" if "k < 2 * N + 1" for k
    using put_at_nth [of 0 f m1 k] l1 lf(1) that a d by (auto simp: m2_def)
  have m1: "m1 ! k = (if a \<le> k \<and> k < a + length d then d ! (k - a) else m ! k)" if "k < 2 * N + 1" for k
    using put_at_nth [OF fit, of k] that m(1) by (simp add: m1_def)
  have f: "f ! k = m1 ! (N + k)" if "k < length f" for k
    using that l1 by (simp add: f_def)
  show "length m2 = 2 * N + 1"
    using put_at_length [of 0 f m1] l1 lf a d by (auto simp: m2_def)
  show old: "m2 ! (r + j) = (u @ d) ! j" if j: "j < length (u @ d)" for j
  proof -
    have k: "r + j < 2 * N + 1" "\<not> r + j < length f"
      using j a d lf(2) by auto
    show ?thesis
      using m1 [OF k(1)] m2 [OF k(1)] k(2) a(1) j m(2) [of j] by (auto simp: nth_append)
  qed
  show "m2 ! (r + j - N) = (u @ d) ! j" if j: "j < length (u @ d)" "N \<le> r + j" for j
  proof -
    have k: "r + j - N < 2 * N + 1" "r + j - N < length f" "r + j < 2 * N + 1" "length u \<le> j"
      using j a d lf(1) by auto
    show ?thesis
      using m2 [OF k(1)] f [OF k(2)] m1 [OF k(3)] k(2,4) j a(1) by (auto simp: nth_append)
  qed
qed

text \<open>What comes in is kept as long as what waits does not run over the end of the ring.\<close>

lemma ring_recv_holds:
  assumes "ring_holds N u rb" and "0 < N" and "u \<noteq> [] \<longrightarrow> r_pos rb mod N + length u < N" and "ring_recv N d rb = Some rb'"
  shows "ring_holds N (u @ take (N - length u) d) rb'"
proof (cases "length u = N")
  case True
  then show ?thesis
    using assms(1,4) by (auto simp: ring_recv_def ring_holds_def)
next
  case False
  let ?d = "take (N - length u) d"
  have h: "w_pos rb = r_pos rb + length u" "length u < N" "length (rb_buf rb) = 2 * N + 1"
    "\<And>j. j < length u \<Longrightarrow> rb_buf rb ! (r_pos rb mod N + j) = u ! j"
    using assms(1) False by (auto simp: ring_holds_def)
  have at: "w_pos rb mod N = r_pos rb mod N + length u" "w_pos rb mod N < N"
    using assms(2,3) h(1) by (cases "u = []"; simp; metis mod_add_left_eq mod_less)+
  have ld: "length ?d \<le> N - length u"
    by simp
  note wr = ring_write [OF h(3,4) at ld]
  have want: "nat (int N - (int (w_pos rb) - int (r_pos rb))) = N - length u" "0 < int N - (int (w_pos rb) - int (r_pos rb))"
    "int N - (int (w_pos rb) - int (r_pos rb)) \<le> int N"
    using h(1,2) by simp_all
  have rb': "rb' = rb\<lparr> rb_buf := ring_store N (w_pos rb mod N) ?d (rb_buf rb), w_pos := w_pos rb + length ?d \<rparr>"
    using assms(4) unfolding ring_recv_def Let_def want(1) using want(2,3) by (simp split: if_splits)
  have "length (u @ ?d) \<le> N"
    using h(2) by simp
  then show ?thesis
    using wr h(1) unfolding ring_holds_def rb' by (simp del: length_take)
qed


text \<open>
  Whether nothing comes in while what waits runs over the end of the ring: the octets that have come in and not been sent are followed along a run.
\<close>

fun ring_fits :: "nat \<Rightarrow> ring_op list \<Rightarrow> nat \<Rightarrow> bytes \<Rightarrow> bool" where
  "ring_fits N [] r u = True"
| "ring_fits N (Ring_recv d # ops) r u = ((u \<noteq> [] \<longrightarrow> r mod N + length u < N) \<and> ring_fits N ops r (u @ take (N - length u) d))"
| "ring_fits N (Ring_send n # ops) r u = ring_fits N ops (r + length (take n u)) (drop n u)"

fun ring_octets :: "nat \<Rightarrow> ring_op list \<Rightarrow> bytes \<Rightarrow> bytes" where
  "ring_octets N [] u = u"
| "ring_octets N (Ring_recv d # ops) u = ring_octets N ops (u @ take (N - length u) d)"
| "ring_octets N (Ring_send n # ops) u = take n u @ ring_octets N ops (drop n u)"

lemma ring_run_holds:
  "0 < N \<Longrightarrow> ring_holds N u rb \<Longrightarrow> ring_fits N ops (r_pos rb) u \<Longrightarrow> ring_run N ops (sent, rb) = Some (sent', rb') \<Longrightarrow>
   \<exists>u'. ring_holds N u' rb' \<and> sent' @ u' = sent @ ring_octets N ops u"
proof (induction N ops "(sent, rb)" arbitrary: sent rb u rule: ring_run.induct)
  case (2 N d ops sent rb)
  obtain rb1 where r: "ring_recv N d rb = Some rb1" "ring_run N ops (sent, rb1) = Some (sent', rb')"
    using 2(5) by (auto simp: bind_eq_Some_conv)
  have h: "ring_holds N (u @ take (N - length u) d) rb1"
    using ring_recv_holds [OF 2(3,2) _ r(1)] 2(4) by simp
  have p: "r_pos rb1 = r_pos rb"
    using r(1) by (auto simp: ring_recv_def Let_def split: if_splits)
  show ?case
    using 2(1) [OF r(1) 2(2) h _ r(2)] 2(4) p by simp
next
  case (3 N n ops sent rb)
  let ?rb = "snd (ring_send N n rb)"
  have h: "ring_send N n rb = (take n u, ?rb)" "ring_holds N (drop n u) ?rb"
    using ring_send_holds [OF 3(3,2), of n] by simp_all
  have p: "r_pos ?rb = r_pos rb + length (take n u)"
    using 3(3) h by (auto simp: ring_holds_def ring_send_def Let_def split: if_splits)
  show ?case
    using 3(1) [OF h(1) [symmetric] refl 3(2) h(2)] 3(4,5) h(1) p by (auto simp: Let_def split: prod.splits)
qed auto

text \<open>
  C19: a blocking tunnel relays in order while its ring does not overlap its end. As long as nothing comes in while what waits runs over the end, what is
  sent is what came in, and the rest waits.
\<close>

theorem ring_in_order:
  assumes "0 < N" and "length memory = 2 * N + 1" and "ring_fits N ops 0 []" and "ring_run N ops ([], new_ring memory) = Some (sent, rb)"
  shows "prefix sent (ring_octets N ops [])"
proof -
  have "ring_holds N [] (new_ring memory)"
    using assms(2) by (simp add: ring_holds_def new_ring_def)
  moreover have "ring_fits N ops (r_pos (new_ring memory)) []"
    using assms(3) by (simp add: new_ring_def)
  ultimately show ?thesis
    using ring_run_holds [OF assms(1) _ _ assms(4)] by (metis append_Nil prefixI)
qed


lemma ring_store_length:
  "length m = 2 * N + 1 \<Longrightarrow> at + length d \<le> 2 * N + 1 \<Longrightarrow> length d \<le> N \<Longrightarrow> length (ring_store N at d m) = 2 * N + 1"
  by (simp add: ring_store_def put_at_def Let_def)

lemma ring_store_nth:
  assumes "length m = 2 * N + 1" and "at + length d \<le> 2 * N + 1" and "k < 2 * N + 1" and "\<not> (at \<le> k \<and> k < at + length d)"
    and "length d \<le> N" and "length d - (N - at) \<le> k"
  shows "ring_store N at d m ! k = m ! k"
proof -
  have fit: "at + length d \<le> length m"
    using assms(1,2) by simp
  have "put_at at d m ! k = m ! k"
    using put_at_nth [OF fit, of k] assms(1,3,4) by simp
  then show ?thesis
    using put_at_nth [of 0 "take (length d - (N - at)) (drop N (put_at at d m))" "put_at at d m" k] put_at_length [OF fit] assms(1,3,5,6)
    by (auto simp: ring_store_def Let_def)
qed

definition overlap_ops :: "nat \<Rightarrow> bytes \<Rightarrow> byte \<Rightarrow> byte \<Rightarrow> byte \<Rightarrow> ring_op list" where
  "overlap_ops N a x y z = [Ring_recv a, Ring_send (N - 2), Ring_recv [x, y], Ring_recv [z], Ring_send 4]"

lemma ring_recv_some:
  assumes "w_pos rb = r_pos rb + u" and "u < N" and "length d \<le> N - u" and "w_pos rb + length d < 2 ^ 31"
  shows "ring_recv N d rb = Some (rb\<lparr> rb_buf := ring_store N (w_pos rb mod N) d (rb_buf rb), w_pos := w_pos rb + length d \<rparr>)"
proof -
  have want: "nat (int N - (int (w_pos rb) - int (r_pos rb))) = N - u" "0 < int N - (int (w_pos rb) - int (r_pos rb))"
    "int N - (int (w_pos rb) - int (r_pos rb)) \<le> int N"
    using assms(1,2) by simp_all
  show ?thesis
    unfolding ring_recv_def Let_def want(1) using want(2,3) assms(3,4) by simp
qed

text \<open>
  C20: a blocking tunnel sends stale octets once its ring overlaps its end. After a full pass over the end an octet that comes in is stored at the
  front only; what is sent instead is what stood in the memory behind, as \<open>malloc\<close> left it.
\<close>

theorem ring_overlap_sends_stale:
  assumes "4 \<le> N" and "N < 2 ^ 30" and "length memory = 2 * N + 1" and "length a = N - 1"
  shows "(\<exists>rb. ring_run N (overlap_ops N a x y z) ([], new_ring memory) = Some (a @ [x, y, memory ! (N + 1)], rb)) \<and>
    ring_octets N (overlap_ops N a x y z) [] = a @ [x, y, z]"
proof -
  obtain b l where a: "a = b @ [l]" "length b = N - 2"
    using assms(1,4) by (cases a rule: rev_cases) auto
  have oct: "ring_octets N (overlap_ops N a x y z) [] = a @ [x, y, z]"
    using assms(1) a by (simp add: overlap_ops_def numeral_eq_Suc)
  have N: "0 < N"
    using assms(1) by simp
  let ?rb1 = "\<lparr> rb_buf = ring_store N 0 a memory, r_pos = 0, w_pos = N - 1 \<rparr>"
  have r1: "ring_recv N a (new_ring memory) = Some ?rb1"
    using ring_recv_some [of "new_ring memory" 0 N a] assms by (simp add: new_ring_def)
  have h1: "ring_holds N a ?rb1"
  proof -
    have "ring_holds N [] (new_ring memory)"
      using assms(3) by (simp add: ring_holds_def new_ring_def)
    from ring_recv_holds [OF this N _ r1] show ?thesis
      using assms(4) by simp
  qed
  let ?rb2 = "?rb1\<lparr> r_pos := N - 2 \<rparr>"
  have r2: "ring_send N (N - 2) ?rb1 = (b, ?rb2)"
    using ring_send_holds [OF h1 N, of "N - 2"] a assms(1) by (simp add: ring_send_def)
  have h2: "ring_holds N [l] ?rb2"
    using ring_send_holds [OF h1 N, of "N - 2"] r2 a by simp
  have n: "N - Suc 0 < N" "N - 2 < N" "(N - 2) mod N = N - 2" "(N - 1) mod N = N - 1"
    using assms(1) by simp_all
  let ?m3 = "ring_store N (N - 1) [x, y] (ring_store N 0 a memory)"
  let ?rb3 = "\<lparr> rb_buf = ?m3, r_pos = N - 2, w_pos = N + 1 \<rparr>"
  have r3: "ring_recv N [x, y] ?rb2 = Some ?rb3"
  proof -
    have p: "w_pos ?rb2 = r_pos ?rb2 + 1" "1 < N" "length [x, y] \<le> N - 1" "w_pos ?rb2 + length [x, y] < 2 ^ 31" "w_pos ?rb2 + length [x, y] = N + 1"
      using assms(1,2) by simp_all
    show ?thesis
      unfolding ring_recv_some [OF p(1-4)] p(5) using n(1) by simp
  qed
  have h3: "ring_holds N [l, x, y] ?rb3"
    using ring_recv_holds [OF h2 N _ r3] assms(1) n by (simp add: numeral_eq_Suc)
  let ?rb4 = "\<lparr> rb_buf = ring_store N 1 [z] ?m3, r_pos = N - 2, w_pos = N + 2 \<rparr>"
  have at: "(N + 1) mod N = 1"
    using mod_once [of N "N + 1"] assms(1) by simp
  have r4: "ring_recv N [z] ?rb3 = Some ?rb4"
  proof -
    have p: "w_pos ?rb3 = r_pos ?rb3 + 3" "3 < N" "length [z] \<le> N - 3" "w_pos ?rb3 + length [z] < 2 ^ 31" "w_pos ?rb3 + length [z] = N + 2"
      using assms(1,2) by simp_all
    show ?thesis
      unfolding ring_recv_some [OF p(1-4)] p(5) using at by simp
  qed
  have l3: "length ?m3 = 2 * N + 1"
    using h3 by (simp add: ring_holds_def)
  have keep: "ring_store N 1 [z] ?m3 ! k = ?m3 ! k" if "2 \<le> k" "k < 2 * N + 1" for k
    using ring_store_nth [OF l3, of 1 "[z]" k] that assms(1) by simp
  have l4: "length (ring_store N 1 [z] ?m3) = 2 * N + 1"
    by (rule ring_store_length [OF l3]) (use assms(1) in simp_all)
  have old: "?m3 ! (N + 1) = memory ! (N + 1)"
  proof -
    have "length (ring_store N 0 a memory) = 2 * N + 1"
      using h1 by (simp add: ring_holds_def)
    then have "?m3 ! (N + 1) = ring_store N 0 a memory ! (N + 1)"
      using ring_store_nth [of "ring_store N 0 a memory" N "N - 1" "[x, y]" "N + 1"] assms(1) by simp
    then show ?thesis
      using ring_store_nth [OF assms(3), of 0 a "N + 1"] assms(1,4) by simp
  qed
  have got: "?m3 ! (N - 2) = l" "?m3 ! (N - 1) = x" "?m3 ! N = y"
  proof -
    have u: "?m3 ! (N - 2 + j) = [l, x, y] ! j" if "j < 3" for j
      using h3 that n by (auto simp: ring_holds_def)
    show "?m3 ! (N - 2) = l" "?m3 ! (N - 1) = x" "?m3 ! N = y"
      using u [of 0] u [of 1] u [of 2] assms(1) by (simp_all add: numeral_eq_Suc Suc_diff_Suc)
  qed
  have r5: "ring_send N 4 ?rb4 = ([l, x, y, memory ! (N + 1)], ?rb4\<lparr> r_pos := N + 2 \<rparr>)"
  proof -
    let ?m4 = "ring_store N 1 [z] ?m3"
    have "take 4 (drop (N - 2) ?m4) = [?m4 ! (N - 2), ?m4 ! (N - 1), ?m4 ! N, ?m4 ! (N + 1)]"
    proof (rule nth_equalityI)
      show "length (take 4 (drop (N - 2) ?m4)) = length [?m4 ! (N - 2), ?m4 ! (N - 1), ?m4 ! N, ?m4 ! (N + 1)]"
        using l4 assms(1) by simp
      fix j assume "j < length (take 4 (drop (N - 2) ?m4))"
      then have "j < 4"
        by simp
      then have "j = 0 \<or> j = 1 \<or> j = 2 \<or> j = 3"
        by linarith
      then show "take 4 (drop (N - 2) ?m4) ! j = [?m4 ! (N - 2), ?m4 ! (N - 1), ?m4 ! N, ?m4 ! (N + 1)] ! j"
        using l4 assms(1) by (auto simp: numeral_eq_Suc Suc_diff_Suc)
    qed
    also have "\<dots> = [l, x, y, memory ! (N + 1)]"
      using keep [of "N - 2"] keep [of "N - 1"] keep [of N] keep [of "N + 1"] old got assms(1) by simp
    finally show ?thesis
      using assms(1) n by (simp add: ring_send_def)
  qed
  show ?thesis
  proof
    have "ring_run N (overlap_ops N a x y z) ([], new_ring memory) = Some ((([] @ b) @ [l, x, y, memory ! (N + 1)]), ?rb4\<lparr> r_pos := N + 2 \<rparr>)"
      by (simp only: overlap_ops_def ring_run.simps r1 r2 r3 r4 r5 Option.bind.simps Let_def prod.case)
    also have "([] @ b) @ [l, x, y, memory ! (N + 1)] = a @ [x, y, memory ! (N + 1)]"
      using a(1) by simp
    finally show "\<exists>rb. ring_run N (overlap_ops N a x y z) ([], new_ring memory) = Some (a @ [x, y, memory ! (N + 1)], rb)"
      by (rule exI)
  qed (rule oct)
qed


theorem ring_overlap_sends_stale_witness:
  "(\<exists>rb. ring_run BUFFER_DESCR_BUF_LEN (overlap_ops BUFFER_DESCR_BUF_LEN (replicate (BUFFER_DESCR_BUF_LEN - 1) 0) 1 2 3)
      ([], new_ring (replicate (2 * BUFFER_DESCR_BUF_LEN + 1) 9)) =
      Some (replicate (BUFFER_DESCR_BUF_LEN - 1) 0 @ [1, 2, replicate (2 * BUFFER_DESCR_BUF_LEN + 1) 9 ! (BUFFER_DESCR_BUF_LEN + 1)], rb)) \<and>
    ring_octets BUFFER_DESCR_BUF_LEN (overlap_ops BUFFER_DESCR_BUF_LEN (replicate (BUFFER_DESCR_BUF_LEN - 1) 0) 1 2 3) [] =
      replicate (BUFFER_DESCR_BUF_LEN - 1) 0 @ [1, 2, 3]"
proof (rule ring_overlap_sends_stale)
  show "4 \<le> BUFFER_DESCR_BUF_LEN" "BUFFER_DESCR_BUF_LEN < 2 ^ 30"
    unfolding BUFFER_DESCR_BUF_LEN_def by simp_all
qed (simp_all only: length_replicate)

theorem ring_in_order_witness:
  "prefix [1, 2, 3] (ring_octets 4 [Ring_recv [1, 2, 3], Ring_send 2, Ring_send 1] [])"
proof (rule ring_in_order [where N = 4 and memory = "[0, 0, 0, 0, 0, 0, 0, 0, 0]"])
  show "ring_run 4 [Ring_recv [1, 2, 3], Ring_send 2, Ring_send 1] ([], new_ring [0, 0, 0, 0, 0, 0, 0, 0, 0]) =
      Some ([1, 2, 3], \<lparr> rb_buf = [1, 2, 3, 0, 0, 0, 0, 0, 0], r_pos = 3, w_pos = 3 \<rparr>)"
    by (simp add: ring_recv_def ring_send_def new_ring_def ring_store_def put_at_def)
qed simp_all

end
