(* ===== verification/Vars.thy ===== *)
theory Vars
  imports Httpcomm "HOL-Library.Product_Lexorder"
begin

section \<open>Cookies, session and server variables\<close>

text \<open>
  \<open>Cookie\<close>, \<open>session_var\<close> and \<open>server_var\<close> (cookie.cpp, httpsessionvar.cpp, httpservervar.cpp) with the lines they are written as, and the maps of \<open>memory_cache\<close>
  (cache.cpp) with the files by which the processes of the server share them. The time is given; a file is the list of its lines as they are read. A member that is not
  set and read afterwards is undefined, as is a copy behind the end of an identifier. The locks are not modelled.
\<close>

subsection \<open>Cookies\<close>

record cookie =
  co_create :: int
  co_access :: int
  co_name :: string
  co_value :: string
  co_version :: string
  co_domain :: string
  co_expires :: string
  co_path :: string
  co_max_age :: int
  co_secure :: bool
  co_http_only :: bool

definition new_cookie :: "int \<Rightarrow> string option \<Rightarrow> string option \<Rightarrow> int \<Rightarrow> string option \<Rightarrow> string option \<Rightarrow> string option \<Rightarrow> bool \<Rightarrow> bool \<Rightarrow> string option \<Rightarrow> cookie" where
  "new_cookie now nm v max_age expires path domain secure http_only version =
     \<lparr> co_create = now, co_access = now, co_name = cstr (case nm of None \<Rightarrow> [] | Some s \<Rightarrow> s), co_value = cstr (case v of None \<Rightarrow> [] | Some s \<Rightarrow> s),
       co_version = cstr (case version of None \<Rightarrow> ''1'' | Some s \<Rightarrow> s), co_domain = cstr (case domain of None \<Rightarrow> [] | Some s \<Rightarrow> s),
       co_expires = cstr (case expires of None \<Rightarrow> [] | Some s \<Rightarrow> s), co_path = cstr (case path of None \<Rightarrow> ''/'' | Some s \<Rightarrow> s), co_max_age = max_age,
       co_secure = secure, co_http_only = http_only \<rparr>"

definition after_equals :: "string \<Rightarrow> string" where
  "after_equals strField = strtrim (strcut (cstr strField) (Some ''='') None)"

definition cookie_option :: "string \<Rightarrow> cookie \<Rightarrow> cookie" where
  "cookie_option strField c =
     (if strncaseeq strField ''Version'' 7 then c\<lparr> co_version := after_equals strField \<rparr>
      else if strncaseeq strField ''Expires'' 7 then c\<lparr> co_expires := after_equals strField \<rparr>
      else if strncaseeq strField ''Path'' 4 then c\<lparr> co_path := after_equals strField \<rparr>
      else if strncaseeq strField ''Domain'' 6 then c\<lparr> co_domain := after_equals strField \<rparr>
      else if strncaseeq strField ''MaxAge'' 6 then c\<lparr> co_max_age := atoi (cstr (after_equals strField)) \<rparr>
      else if strncaseeq strField ''Secure'' 6 then c\<lparr> co_secure := True \<rparr>
      else if strncaseeq strField ''HttpOnly'' 8 then c\<lparr> co_http_only := True \<rparr>
      else c)"

text \<open>The parts of a line between semicolons, trimmed.\<close>

definition line_parts :: "string \<Rightarrow> string list" where
  "line_parts szline = map strtrim (vSplitString (cstr szline) [] '';'' True default_count)"

definition name_part :: "string \<Rightarrow> string" where
  "name_part strField = strtrim (strcut (cstr strField) None (Some ''=''))"

definition cookie_of_line :: "string \<Rightarrow> cookie outcome" where
  "cookie_of_line szSetCookie =
     (case line_parts szSetCookie of
        create # access # parts \<Rightarrow>
          let c = \<lparr> co_create = atoi (cstr create), co_access = atoi (cstr access), co_name = [], co_value = [], co_version = [], co_domain = [],
                co_expires = [], co_path = ''/'', co_max_age = - 1, co_secure = False, co_http_only = False \<rparr>
          in Some (case parts of [] \<Rightarrow> c
             | keyval # options \<Rightarrow> fold cookie_option options (c\<lparr> co_name := name_part keyval, co_value := after_equals keyval \<rparr>))
      | _ \<Rightarrow> None)"

text \<open>A time or a number as \<open>%d\<close> prints it: its low 32 bits.\<close>

definition dec32 :: "int \<Rightarrow> string" where
  "dec32 n = lld (signed_take_bit 31 n)"

definition cookie_field :: "string \<Rightarrow> string \<Rightarrow> string" where
  "cookie_field f v = (if cstr v \<noteq> [] then '' '' @ f @ ''='' @ v @ '';'' else [])"

definition cookie_toString :: "cookie \<Rightarrow> string" where
  "cookie_toString c = co_name c @ ''='' @ co_value c @ '';'' @
     (if co_version c \<noteq> [] then '' Version='' @ co_version c @ '';'' else []) @
     (if co_max_age c \<noteq> - 1 then '' MaxAge='' @ dec32 (co_max_age c) @ '';'' else []) @
     cookie_field ''Expires'' (co_expires c) @ cookie_field ''Path'' (co_path c) @ cookie_field ''Domain'' (co_domain c) @
     (if co_secure c then '' Secure;'' else []) @ (if co_http_only c then '' HttpOnly'' else [])"

text \<open>The line of a file: the times in front.\<close>

definition cookie_line :: "cookie \<Rightarrow> string" where
  "cookie_line c = dec32 (co_create c) @ '';'' @ dec32 (co_access c) @ '';'' @ cookie_toString c"

subsection \<open>Variables\<close>

record session_variable =
  sv_uid :: string
  sv_create :: int
  sv_access :: int
  sv_name :: string
  sv_value :: string

record server_var =
  srv_create :: int
  srv_access :: int
  srv_name :: string
  srv_value :: string

definition HTTP_SESSION_UID_LEN :: nat where "HTTP_SESSION_UID_LEN = 32"

text \<open>The identifier is copied with a fixed length.\<close>

definition copy_uid :: "string \<Rightarrow> string outcome" where
  "copy_uid uid = (if length (cstr uid) + 1 < HTTP_SESSION_UID_LEN then None else Some (take HTTP_SESSION_UID_LEN (cstr uid)))"

definition new_session_var :: "int \<Rightarrow> string \<Rightarrow> string \<Rightarrow> string \<Rightarrow> session_variable outcome" where
  "new_session_var now uid nm v =
     map_option (\<lambda>u. \<lparr> sv_uid = u, sv_create = now, sv_access = now, sv_name = cstr nm, sv_value = cstr v \<rparr>) (copy_uid uid)"

definition session_var_of_line :: "string \<Rightarrow> session_variable outcome" where
  "session_var_of_line szline =
     (case line_parts szline of
        uid # create # access # parts \<Rightarrow>
          map_option (\<lambda>u. \<lparr> sv_uid = u, sv_create = atoi (cstr create), sv_access = atoi (cstr access),
              sv_name = (case parts of [] \<Rightarrow> [] | keyval # _ \<Rightarrow> name_part keyval),
              sv_value = (case parts of [] \<Rightarrow> [] | keyval # _ \<Rightarrow> after_equals keyval) \<rparr>) (copy_uid uid)
      | _ \<Rightarrow> None)"

definition session_var_line :: "session_variable \<Rightarrow> string" where
  "session_var_line v = sv_uid v @ '';'' @ dec32 (sv_create v) @ '';'' @ dec32 (sv_access v) @ '';'' @ sv_name v @ ''='' @ sv_value v"

definition new_server_var :: "int \<Rightarrow> string \<Rightarrow> string \<Rightarrow> server_var" where
  "new_server_var now nm v = \<lparr> srv_create = now, srv_access = now, srv_name = cstr nm, srv_value = cstr v \<rparr>"

definition server_var_of_line :: "string \<Rightarrow> server_var outcome" where
  "server_var_of_line szline =
     (case line_parts szline of
        create # access # parts \<Rightarrow>
          Some \<lparr> srv_create = atoi (cstr create), srv_access = atoi (cstr access),
            srv_name = (case parts of [] \<Rightarrow> [] | keyval # _ \<Rightarrow> name_part keyval),
            srv_value = (case parts of [] \<Rightarrow> [] | keyval # _ \<Rightarrow> after_equals keyval) \<rparr>
      | _ \<Rightarrow> None)"

definition server_var_line :: "server_var \<Rightarrow> string" where
  "server_var_line v = dec32 (srv_create v) @ '';'' @ dec32 (srv_access v) @ '';'' @ srv_name v @ ''='' @ srv_value v"

subsection \<open>The maps and their files\<close>

text \<open>The lines \<open>getline\<close> finds in a file that was written line by line.\<close>

fun getlines :: "string \<Rightarrow> string \<Rightarrow> string list" where
  "getlines l [] = (if l = [] then [] else [l])"
| "getlines l (c # s) = (if c = CHR 0x0A then l # getlines [] s else getlines (l @ [c]) s)"

definition file_of :: "string list \<Rightarrow> string list" where
  "file_of ls = getlines [] (concat (map (\<lambda>l. l @ [CHR 0x0A]) ls))"

text \<open>The version in the first line of a file, as \<open>sscanf\<close> reads it with \<open>#%lu\<close>.\<close>

definition scan_version :: "string \<Rightarrow> u64 option" where
  "scan_version strline =
     (let s = dropWhile (\<lambda>c. is_ws c \<or> c = CHR 0x0B \<or> c = CHR 0x0C) (drop 1 (cstr strline));
          neg = (take 1 s = ''-''); s = (if take 1 s = ''-'' \<or> take 1 s = ''+'' then drop 1 s else s)
      in if s = [] \<or> \<not> (CHR ''0'' \<le> hd s \<and> hd s \<le> CHR ''9'') then None
         else let n = digits_value 0 s
           in Some (if n \<ge> 2 ^ 64 then - 1 else if neg then - word_of_nat n else word_of_nat n))"

definition version_line :: "u64 \<Rightarrow> string" where
  "version_line v = ''#'' @ nat_dec (unat v)"

text \<open>
  The variables of a process and the versions of the files it knows; the files of a folder are their names and lines, in the order in which they are read. A file is
  written anew when at least one entry is to be kept; else the old one stays.
\<close>

record ('k, 'v) var_cache =
  vc_vars :: "('k, 'v) stdmap"
  vc_versions :: "(string, u64) stdmap"

record var_env =
  ve_dirpath :: string
  ve_service_name :: string
  ve_process_seq :: int
  ve_localhostname :: string

definition own_file :: "string \<Rightarrow> var_env \<Rightarrow> string" where
  "own_file ext env = ve_service_name env @ ''-'' @ dec32 (ve_process_seq env) @ ''@'' @ ve_localhostname env @ ext"

definition var_path :: "var_env \<Rightarrow> string \<Rightarrow> string" where
  "var_path env f = ve_dirpath env @ ''/variable/'' @ f"

definition known_version :: "string \<Rightarrow> ('k, 'v) var_cache \<Rightarrow> u64" where
  "known_version path s = (case mfind (vc_versions s) path of None \<Rightarrow> 0 | Some v \<Rightarrow> v)"

definition save_vars :: "string \<Rightarrow> ('v \<Rightarrow> bool) \<Rightarrow> ('v \<Rightarrow> string) \<Rightarrow> var_env \<Rightarrow> ('k, 'v) var_cache \<Rightarrow> ('k, 'v) var_cache \<times> (string \<times> string list) option" where
  "save_vars ext bSave line env s =
     (let vs = filter bSave (map snd (vc_vars s)); f = own_file ext env; nVersion = known_version (var_path env f) s + 1
      in if vs = [] then (s, None)
         else (s\<lparr> vc_versions := mput (var_path env f) nVersion (vc_versions s) \<rparr>, Some (f, file_of (version_line nVersion # map line vs))))"

definition save_session_vars :: "int \<Rightarrow> var_env \<Rightarrow> (string \<times> string, session_variable) var_cache \<Rightarrow> (string \<times> string, session_variable) var_cache \<times> (string \<times> string list) option" where
  "save_session_vars now = save_vars ''.session'' (\<lambda>v. now - sv_access v \<le> 90) session_var_line"

definition save_server_vars :: "var_env \<Rightarrow> (string, server_var) var_cache \<Rightarrow> (string, server_var) var_cache \<times> (string \<times> string list) option" where
  "save_server_vars = save_vars ''.server'' (\<lambda>v. True) server_var_line"

text \<open>An entry from a file takes the place of an older one.\<close>

definition newer :: "('v \<Rightarrow> int) \<Rightarrow> 'k::linorder \<Rightarrow> 'v \<Rightarrow> ('k, 'v) stdmap \<Rightarrow> ('k, 'v) stdmap" where
  "newer created k v m = (case mfind m k of None \<Rightarrow> mput k v m | Some w \<Rightarrow> if created w < created v then mput k v m else m)"

fun reload_lines :: "(string \<Rightarrow> 'v outcome) \<Rightarrow> ('v \<Rightarrow> 'k::linorder) \<Rightarrow> ('v \<Rightarrow> int) \<Rightarrow> u64 \<Rightarrow> string list \<Rightarrow> u64 \<times> ('k, 'v) stdmap \<Rightarrow> (u64 \<times> ('k, 'v) stdmap) outcome" where
  "reload_lines parse_line key created old [] s = Some s"
| "reload_lines parse_line key created old (l # ls) (version, m) =
     (if l = [] then reload_lines parse_line key created old ls (version, m)
      else if hd l = CHR ''#'' then
        (case scan_version l of None \<Rightarrow> None
         | Some v \<Rightarrow> if v = old then Some (version, m) else reload_lines parse_line key created old ls (v, m))
      else case parse_line l of None \<Rightarrow> None
        | Some v \<Rightarrow> reload_lines parse_line key created old ls (version, newer created (key v) v m))"

text \<open>The files of a folder with the extension of the variables.\<close>

definition named_files :: "string \<Rightarrow> (string \<times> 'a) list \<Rightarrow> (string \<times> 'a) list" where
  "named_files ext fs = filter (\<lambda>(f, ls). length f > length ext \<and> suffix ext f) fs"

fun reload_files :: "(string \<Rightarrow> 'v outcome) \<Rightarrow> ('v \<Rightarrow> 'k::linorder) \<Rightarrow> ('v \<Rightarrow> int) \<Rightarrow> var_env \<Rightarrow> (string \<times> string list) list \<Rightarrow> ('k, 'v) var_cache \<Rightarrow> ('k, 'v) var_cache outcome" where
  "reload_files parse_line key created env [] s = Some s"
| "reload_files parse_line key created env ((f, ls) # fs) s =
     (let nOldVersion = known_version (var_path env f) s
      in Option.bind (reload_lines parse_line key created nOldVersion ls (nOldVersion, vc_vars s))
           (\<lambda>(v, m). reload_files parse_line key created env fs
              (s\<lparr> vc_vars := m, vc_versions := if v = nOldVersion then vc_versions s else mput (var_path env f) v (vc_versions s) \<rparr>)))"

definition session_key :: "session_variable \<Rightarrow> string \<times> string" where
  "session_key v = (cstr (sv_uid v), cstr (sv_name v))"

definition reload_session_vars :: "var_env \<Rightarrow> (string \<times> string list) list \<Rightarrow> (string \<times> string, session_variable) var_cache \<Rightarrow> (string \<times> string, session_variable) var_cache outcome" where
  "reload_session_vars env fs = reload_files session_var_of_line session_key sv_create env (named_files ''.session'' fs)"

definition reload_server_vars :: "var_env \<Rightarrow> (string \<times> string list) list \<Rightarrow> (string, server_var) var_cache \<Rightarrow> (string, server_var) var_cache outcome" where
  "reload_server_vars env fs =
     reload_files server_var_of_line (cstr \<circ> srv_name) srv_create env (map (\<lambda>(f, ls). (f, map strtrim ls)) (named_files ''.server'' fs))"

text \<open>Setting a variable writes the file of the process, reading one reads the files of all.\<close>

definition push_session_var :: "int \<Rightarrow> string \<Rightarrow> string \<Rightarrow> string \<Rightarrow> var_env \<Rightarrow> (string \<times> string, session_variable) var_cache \<Rightarrow> ((string \<times> string, session_variable) var_cache \<times> (string \<times> string list) option) outcome" where
  "push_session_var now uid nm v env s =
     map_option (\<lambda>var. save_session_vars now env (s\<lparr> vc_vars := mput (cstr uid, cstr nm) var (vc_vars s) \<rparr>)) (new_session_var now uid nm v)"

definition get_session_var :: "string \<Rightarrow> string \<Rightarrow> var_env \<Rightarrow> (string \<times> string list) list \<Rightarrow> (string \<times> string, session_variable) var_cache \<Rightarrow> (string option \<times> (string \<times> string, session_variable) var_cache) outcome" where
  "get_session_var uid nm env fs s =
     map_option (\<lambda>s. (map_option (cstr \<circ> sv_value) (mfind (vc_vars s) (cstr uid, cstr nm)), s)) (reload_session_vars env fs s)"

definition push_server_var :: "int \<Rightarrow> string \<Rightarrow> string \<Rightarrow> var_env \<Rightarrow> (string, server_var) var_cache \<Rightarrow> (string, server_var) var_cache \<times> (string \<times> string list) option" where
  "push_server_var now nm v env s = save_server_vars env (s\<lparr> vc_vars := mput (cstr nm) (new_server_var now nm v) (vc_vars s) \<rparr>)"

definition get_server_var :: "string \<Rightarrow> var_env \<Rightarrow> (string \<times> string list) list \<Rightarrow> (string, server_var) var_cache \<Rightarrow> (string option \<times> (string, server_var) var_cache) outcome" where
  "get_server_var nm env fs s =
     map_option (\<lambda>s. (map_option (cstr \<circ> srv_value) (mfind (vc_vars s) (cstr nm)), s)) (reload_server_vars env fs s)"

definition clear_vars :: "('k, 'v) var_cache \<Rightarrow> ('k, 'v) var_cache" where
  "clear_vars s = s\<lparr> vc_vars := [] \<rparr>"

text \<open>The cookies. \<open>get_cookie\<close> sets its own copy of the pointer, so that only its result reaches the caller.\<close>

definition pop_cookie :: "string \<Rightarrow> (string, cookie) stdmap \<Rightarrow> (string, cookie) stdmap" where
  "pop_cookie nm m = merase (cstr nm) m"

definition get_cookie :: "string \<Rightarrow> cookie \<Rightarrow> (string, cookie) stdmap \<Rightarrow> int \<times> cookie" where
  "get_cookie nm ck m = (if mfind m (cstr nm) \<noteq> None then 0 else - 1, ck)"

definition access_cookie :: "int \<Rightarrow> string \<Rightarrow> (string, cookie) stdmap \<Rightarrow> (string, cookie) stdmap" where
  "access_cookie now nm m = mmap (cstr nm) (\<lambda>c. c\<lparr> co_access := now \<rparr>) m"

definition cookie_alive :: "(string \<Rightarrow> int) \<Rightarrow> int \<Rightarrow> cookie \<Rightarrow> bool" where
  "cookie_alive gmt now c =
     (\<not> (cstr (co_expires c) \<noteq> [] \<and> now > gmt (cstr (co_expires c))) \<and>
      \<not> (if co_max_age c = - 1 \<and> now - co_access c > 90 then True
         else if co_max_age c = 0 then True
         else co_max_age c > 0 \<and> now - co_create c > co_max_age c))"

definition save_cookies :: "(string \<Rightarrow> int) \<Rightarrow> int \<Rightarrow> (string, cookie) stdmap \<Rightarrow> string list option" where
  "save_cookies gmt now m =
     (let cs = filter (cookie_alive gmt now) (map snd m) in if cs = [] then None else Some (file_of (map cookie_line cs)))"

definition push_cookie :: "(string \<Rightarrow> int) \<Rightarrow> int \<Rightarrow> string \<Rightarrow> cookie \<Rightarrow> (string, cookie) stdmap \<Rightarrow> (string, cookie) stdmap \<times> string list option" where
  "push_cookie gmt now nm ck m = (let m = mput (cstr nm) ck m in (m, save_cookies gmt now m))"

fun reload_cookies :: "string list \<Rightarrow> (string, cookie) stdmap \<Rightarrow> (string, cookie) stdmap outcome" where
  "reload_cookies [] m = Some m"
| "reload_cookies (l # ls) m =
     (let l = strtrim l in
      if l = [] then reload_cookies ls m
      else case cookie_of_line l of None \<Rightarrow> None | Some c \<Rightarrow> reload_cookies ls (newer co_create (cstr (co_name c)) c m))"

end
