(* ===== verification/Vars_shared.thy ===== *)
theory Vars_shared
  imports Vars
begin

section \<open>What the processes share through the files of variables\<close>

text \<open>
  Lines and times are read back as they were written; a file brings a process the newer entries of another one; a cookie keeps its attributes. The locale \<open>var_kind\<close> is what the reading of a
  file relies on, interpreted for the variables of sessions and of the server.
\<close>

subsection \<open>Numbers\<close>

lemma digits_value_dec: "digits_value 0 (nat_dec k) = k"
  using digits_nat_dec [of 0 k "[]"] by simp

definition plain_char :: "char \<Rightarrow> bool" where
  "plain_char c \<longleftrightarrow> c = CHR ''-'' \<or> (CHR ''0'' \<le> c \<and> c \<le> CHR ''9'')"

lemma nat_dec_chars: "c \<in> set (nat_dec n) \<Longrightarrow> CHR ''0'' \<le> c \<and> c \<le> CHR ''9''"
proof (induction n rule: nat_dec.induct)
  case (1 n)
  have d: "CHR ''0'' \<le> char_of (48 + k :: nat) \<and> char_of (48 + k) \<le> CHR ''9''" if "k < 10" for k
    using that by (simp add: less_eq_char_def of_char_of)
  show ?case
  proof (cases "n < 10")
    case True
    then have "nat_dec n = [char_of (48 + n)]"
      by (subst nat_dec.simps) simp
    then show ?thesis
      using "1.prems" d [OF True] by simp
  next
    case False
    then have "c \<in> set (nat_dec (n div 10)) \<or> c = char_of (48 + n mod 10)"
      using "1.prems" False by (subst (asm) nat_dec.simps) auto
    then show ?thesis
      using "1.IH" [OF False] d [of "n mod 10"] by auto
  qed
qed

lemma lld_chars: "c \<in> set (lld n) \<Longrightarrow> plain_char c"
  using nat_dec_chars by (auto simp: lld_def plain_char_def split: if_splits)

lemma lld_ne: "lld n \<noteq> []"
  using nat_dec_first [of "nat n"] by (auto simp: lld_def)

lemma plain_char_other: "plain_char c \<Longrightarrow> \<not> is_ws c \<and> c \<noteq> NUL \<and> c \<noteq> CHR '';'' \<and> c \<noteq> CHR 0x0A"
  by (auto simp: plain_char_def is_ws_def less_eq_char_def)

lemma atoi_lld: "atoi (lld n) = n"
proof -
  obtain c cs where c: "nat_dec (nat n) = c # cs" "CHR ''0'' \<le> c" "c \<le> CHR ''9''"
    using nat_dec_first by blast
  then have "\<not> is_ws c" "c \<noteq> CHR 0x0B" "c \<noteq> CHR 0x0C" "c \<noteq> CHR ''-''" "c \<noteq> CHR ''+''"
    by (auto simp: is_ws_def less_eq_char_def)
  then show ?thesis
    using digits_value_dec [of "nat n"] digits_value_dec [of "nat (- n)"] c(1) by (auto simp: atoi_def lld_def is_ws_def)
qed

definition int32 :: "int \<Rightarrow> bool" where
  "int32 n \<longleftrightarrow> - (2 ^ 31) \<le> n \<and> n < 2 ^ 31"

lemma dec32_lld: "int32 n \<Longrightarrow> dec32 n = lld n"
  unfolding int32_def dec32_def by (subst signed_take_bit_int_eq_self) simp_all

text \<open>A text that trimming leaves as it is.\<close>

definition trimmed :: "string \<Rightarrow> bool" where
  "trimmed s \<longleftrightarrow> no_nul s \<and> (s = [] \<or> \<not> is_ws (hd s) \<and> \<not> is_ws (last s))"

lemma strtrim_trimmed: "trimmed s \<Longrightarrow> strtrim s = s"
  by (simp add: trimmed_def strtrim_no_nul strip_id)

lemma strtrim_blank: "trimmed s \<Longrightarrow> s \<noteq> [] \<Longrightarrow> strtrim ('' '' @ s) = s"
proof -
  assume t: "trimmed s" and s: "s \<noteq> []"
  then have "no_nul ('' '' @ s)" and d: "dropWhile is_ws ('' '' @ s) = s"
    by (auto simp: trimmed_def is_ws_def dropWhile_eq_self_iff)
  moreover have "dropWhile is_ws (rev s) = rev s"
    using t s by (simp add: trimmed_def dropWhile_eq_self_iff hd_rev)
  ultimately show ?thesis
    by (simp add: strtrim_no_nul strip_def)
qed

lemma trimmed_lld: "trimmed (lld n)"
proof -
  have "plain_char (hd (lld n))" "plain_char (last (lld n))"
    by (rule lld_chars [OF hd_in_set [OF lld_ne]], rule lld_chars [OF last_in_set [OF lld_ne]])
  then show ?thesis
    using lld_chars [of _ n] plain_char_other by (auto simp: trimmed_def no_nul_def)
qed

lemma trimmed_pair: "trimmed a \<Longrightarrow> trimmed b \<Longrightarrow> trimmed (a @ ''='' @ b)"
  by (auto simp: trimmed_def is_ws_def hd_append)

subsection \<open>Lines\<close>

lemma split_part:
  "c \<notin> set p \<Longrightarrow> 0 < n \<Longrightarrow> split_loop [c] e n tok (p @ c # s) = (if tok @ p = [] \<and> e then [] else [tok @ p]) @ split_loop [c] e (n - 1) [] s"
  by (induction p arbitrary: tok) auto

lemma split_last: "c \<notin> set p \<Longrightarrow> split_loop [c] e n tok p = last_part e (tok @ p)"
  by (induction p arbitrary: tok) auto

text \<open>The parts of a line whose parts each end with a semicolon, and the rest.\<close>

definition line_part :: "string \<Rightarrow> bool" where
  "line_part p \<longleftrightarrow> p \<noteq> [] \<and> CHR '';'' \<notin> set p \<and> no_nul p"

lemma split_parts:
  assumes "list_all line_part ps" and "CHR '';'' \<notin> set p" and "no_nul p" and "length ps < n"
  shows "split_loop '';'' True n [] (concat (map (\<lambda>p. p @ '';'') ps) @ p) = ps @ (if p = [] then [] else [p])"
  using assms(1,4)
proof (induction ps arbitrary: n)
  case Nil
  then show ?case
    using assms(2,3) by (simp add: split_last last_part_def)
next
  case (Cons q ps)
  then show ?case
    using split_part [of "CHR '';''" q n True "[]" "concat (map (\<lambda>p. p @ '';'') ps) @ p"] by (simp add: line_part_def)
qed

lemma line_parts_of:
  assumes "list_all line_part ps" and "CHR '';'' \<notin> set p" and "no_nul p" and "length ps < default_count"
  shows "line_parts (concat (map (\<lambda>p. p @ '';'') ps) @ p) = map strtrim (ps @ (if p = [] then [] else [p]))"
proof -
  have "no_nul (concat (map (\<lambda>p. p @ '';'') ps))"
    using assms(1) by (induction ps) (auto simp: line_part_def)
  then have n: "no_nul (concat (map (\<lambda>p. p @ '';'') ps) @ p)"
    using assms(3) by simp
  show ?thesis
  proof (cases "concat (map (\<lambda>p. p @ '';'') ps) @ p = []")
    case True
    then have "p = []" "ps = []"
      by (auto simp: concat_eq_Nil_conv)
    then show ?thesis
      by (simp add: line_parts_def vSplitString_def)
  next
    case False
    then show ?thesis
      by (simp only: line_parts_def cstr_id [OF n] vSplitString_def False if_False split_parts [OF assms])
  qed
qed

definition plain_text :: "string \<Rightarrow> bool" where
  "plain_text s \<longleftrightarrow> trimmed s \<and> CHR '';'' \<notin> set s \<and> CHR 0x0A \<notin> set s"

definition plain_name :: "string \<Rightarrow> bool" where
  "plain_name s \<longleftrightarrow> plain_text s \<and> CHR ''='' \<notin> set s"

lemma pair_parts:
  assumes "plain_name n" and "plain_text v"
  shows "name_part (n @ ''='' @ v) = n" and "after_equals (n @ ''='' @ v) = v"
  using assms by (simp_all add: name_part_def after_equals_def plain_name_def plain_text_def trimmed_def strcut_name strcut_value
      strtrim_no_nul strip_id)

lemma line_part_lld: "line_part (lld n)"
  using lld_ne [of n] lld_chars [of _ n] plain_char_other by (auto simp: line_part_def no_nul_def)

definition session_var_ok :: "session_variable \<Rightarrow> bool" where
  "session_var_ok v \<longleftrightarrow> length (sv_uid v) = HTTP_SESSION_UID_LEN \<and> plain_text (sv_uid v) \<and> hd (sv_uid v) \<noteq> CHR ''#'' \<and>
     int32 (sv_create v) \<and> int32 (sv_access v) \<and> plain_name (sv_name v) \<and> plain_text (sv_value v)"

definition server_var_ok :: "server_var \<Rightarrow> bool" where
  "server_var_ok v \<longleftrightarrow> int32 (srv_create v) \<and> int32 (srv_access v) \<and> plain_name (srv_name v) \<and> plain_text (srv_value v)"

lemma small_count: "length [a, b, c] < default_count" "length [a, b] < default_count"
  by (simp_all add: default_count_def)

lemma session_var_line_read:
  assumes "session_var_ok v"
  shows "session_var_of_line (session_var_line v) = Some v"
proof -
  let ?ps = "[sv_uid v, lld (sv_create v), lld (sv_access v)]" and ?p = "sv_name v @ ''='' @ sv_value v"
  have ok: "list_all line_part ?ps" "CHR '';'' \<notin> set ?p" "no_nul ?p" "trimmed ?p"
    using assms line_part_lld trimmed_pair [of "sv_name v" "sv_value v"]
    by (auto simp: session_var_ok_def plain_name_def plain_text_def line_part_def trimmed_def HTTP_SESSION_UID_LEN_def)
  have l: "session_var_line v = concat (map (\<lambda>p. p @ '';'') ?ps) @ ?p"
    using assms by (simp add: session_var_line_def session_var_ok_def dec32_lld)
  have "line_parts (session_var_line v) = [sv_uid v, lld (sv_create v), lld (sv_access v), ?p]"
    unfolding l using line_parts_of [OF ok(1-3) small_count(1)] assms ok(4)
    by (simp add: strtrim_trimmed trimmed_lld session_var_ok_def plain_text_def)
  then show ?thesis
    using assms pair_parts [of "sv_name v" "sv_value v"] trimmed_lld
    by (simp add: session_var_of_line_def session_var_ok_def copy_uid_def plain_text_def trimmed_def atoi_lld)
qed

lemma server_var_line_read:
  assumes "server_var_ok v"
  shows "server_var_of_line (server_var_line v) = Some v"
proof -
  let ?ps = "[lld (srv_create v), lld (srv_access v)]" and ?p = "srv_name v @ ''='' @ srv_value v"
  have ok: "list_all line_part ?ps" "CHR '';'' \<notin> set ?p" "no_nul ?p" "trimmed ?p"
    using assms line_part_lld trimmed_pair [of "srv_name v" "srv_value v"]
    by (auto simp: server_var_ok_def plain_name_def plain_text_def line_part_def trimmed_def)
  have l: "server_var_line v = concat (map (\<lambda>p. p @ '';'') ?ps) @ ?p"
    using assms by (simp add: server_var_line_def server_var_ok_def dec32_lld)
  have "line_parts (server_var_line v) = [lld (srv_create v), lld (srv_access v), ?p]"
    unfolding l using line_parts_of [OF ok(1-3) small_count(2)] ok(4) by (simp add: strtrim_trimmed trimmed_lld)
  then show ?thesis
    using assms pair_parts [of "srv_name v" "srv_value v"] trimmed_lld
    by (simp add: server_var_of_line_def server_var_ok_def trimmed_def atoi_lld)
qed

subsection \<open>Reading the files of the others\<close>

lemma scan_version_line: "scan_version (version_line v) = Some v"
proof -
  obtain c cs where c: "nat_dec (unat v) = c # cs" "CHR ''0'' \<le> c" "c \<le> CHR ''9''"
    using nat_dec_first by blast
  then have o: "\<not> is_ws c" "c \<noteq> CHR 0x0B" "c \<noteq> CHR 0x0C" "c \<noteq> CHR ''-''" "c \<noteq> CHR ''+''" "c \<noteq> NUL"
    by (auto simp: is_ws_def less_eq_char_def)
  have n: "no_nul (nat_dec (unat v))"
    using nat_dec_chars [of NUL "unat v"] by (auto simp: no_nul_def less_eq_char_def)
  have "digits_value 0 (c # cs) = unat v"
    using digits_value_dec [of "unat v"] by (simp only: c(1))
  moreover have "unat v < 2 ^ 64"
    using unsigned_less [of v] by simp
  ultimately show ?thesis
    using n o c by (simp add: scan_version_def version_line_def Let_def del: digits_value.simps)
qed

lemma getlines_part: "CHR 0x0A \<notin> set l \<Longrightarrow> getlines k (l @ CHR 0x0A # s) = (k @ l) # getlines [] s"
  by (induction l arbitrary: k) auto

lemma file_of_lines: "list_all (\<lambda>l. CHR 0x0A \<notin> set l) ls \<Longrightarrow> file_of ls = ls"
  unfolding file_of_def by (induction ls) (simp_all add: getlines_part)

lemma version_line_one: "CHR 0x0A \<notin> set (version_line v)"
  using nat_dec_chars [of "CHR 0x0A"] by (auto simp: version_line_def less_eq_char_def)

text \<open>What is known of a key after an entry was read, or was not there.\<close>

definition merged :: "('v \<Rightarrow> int) \<Rightarrow> 'v option \<Rightarrow> 'v option \<Rightarrow> 'v option" where
  "merged created old v =
     (case v of None \<Rightarrow> old | Some y \<Rightarrow> (case old of None \<Rightarrow> Some y | Some x \<Rightarrow> Some (if created x < created y then y else x)))"

lemma mfind_newer: "mfind (newer created k v m) j = (if j = k then merged created (mfind m k) (Some v) else mfind m j)"
  by (auto simp: newer_def merged_def split: option.splits)

locale var_kind =
  fixes parse_line :: "string \<Rightarrow> 'v option" and line :: "'v \<Rightarrow> string" and key :: "'v \<Rightarrow> 'k::linorder"
    and created :: "'v \<Rightarrow> int" and ok :: "'v \<Rightarrow> bool"
  assumes line_read: "ok v \<Longrightarrow> parse_line (line v) = Some v"
    and line_first: "ok v \<Longrightarrow> line v \<noteq> [] \<and> hd (line v) \<noteq> CHR ''#''"
    and line_one: "ok v \<Longrightarrow> CHR 0x0A \<notin> set (line v)"
begin

definition vars_ok :: "('k, 'v) stdmap \<Rightarrow> bool" where
  "vars_ok m \<longleftrightarrow> keys_ok m \<and> list_all (\<lambda>(k, v). k = key v \<and> ok v) m"

lemma vars_ok_put: "vars_ok m \<Longrightarrow> ok v \<Longrightarrow> vars_ok (mput (key v) v m)"
proof -
  assume m: "vars_ok m" and v: "ok v"
  have "list_all (\<lambda>(k, v). k = key v \<and> ok v) (mput k v m)" if "k = key v" for k
    using that m v unfolding vars_ok_def by (induction k v m rule: mput.induct) (auto simp: keys_ok_def)
  then show ?thesis
    using m by (simp add: vars_ok_def)
qed

lemma reload_entries:
  assumes "list_all ok vs"
  shows "reload_lines parse_line key created old (map line vs) (ver, m) = Some (ver, fold (\<lambda>v. newer created (key v) v) vs m)"
  using assms by (induction vs arbitrary: m) (simp_all add: line_read line_first)

lemma reload_file:
  assumes "list_all ok vs"
  shows "reload_lines parse_line key created old (version_line ver # map line vs) (old, m) =
    Some (if ver = old then (old, m) else (ver, fold (\<lambda>v. newer created (key v) v) vs m))"
  using reload_entries [OF assms] by (simp add: scan_version_line) (simp add: version_line_def)

lemma mfind_entries:
  assumes "distinct (map key vs)"
  shows "mfind (fold (\<lambda>v. newer created (key v) v) vs m) k = merged created (mfind m k) (find (\<lambda>v. key v = k) vs)"
  using assms
proof (induction vs arbitrary: m)
  case Nil
  then show ?case
    by (simp add: merged_def)
next
  case (Cons v vs)
  moreover have "find (\<lambda>w. key w = key v) vs = None"
    using Cons.prems by (auto simp: find_None_iff) (metis imageI)
  ultimately show ?case
    by (auto simp: mfind_newer) (simp add: merged_def)
qed

lemma find_absent:
  "list_all (\<lambda>(k, v). k = key v \<and> ok v) m \<Longrightarrow> k \<notin> fst ` set m \<Longrightarrow> find (\<lambda>v. key v = k) (filter P (map snd m)) = None"
  by (induction m) auto

lemma find_entry:
  assumes "vars_ok m"
  shows "find (\<lambda>v. key v = k) (filter P (map snd m)) = (case mfind m k of None \<Rightarrow> None | Some v \<Rightarrow> if P v then Some v else None)"
  using assms
proof (induction m)
  case (Cons x m)
  obtain v where x: "x = (key v, v)"
    using Cons.prems by (cases x) (auto simp: vars_ok_def)
  have m: "vars_ok m" "key v \<notin> fst ` set m"
    using Cons.prems by (auto simp: vars_ok_def keys_ok_def x)
  show ?case
  proof (cases "key v = k")
    case True
    then show ?thesis
      using find_absent [of m k P] m by (simp add: x vars_ok_def)
  next
    case False
    then show ?thesis
      using Cons.IH [OF m(1)] by (simp add: x)
  qed
qed simp

text \<open>What one process has written, another one reads: afterwards it knows the newer of both.\<close>

lemma saved_reloaded:
  assumes "vars_ok (vc_vars a)" and "save_vars ext bSave line enva a = (a', Some (f, ls))"
    and "known_version (var_path envb f) b \<noteq> known_version (var_path enva f) a'"
  shows "\<exists>b'. reload_files parse_line key created envb [(f, ls)] b = Some b' \<and>
    (\<forall>k. mfind (vc_vars b') k = merged created (mfind (vc_vars b) k)
      (case mfind (vc_vars a) k of None \<Rightarrow> None | Some v \<Rightarrow> if bSave v then Some v else None))"
proof -
  let ?vs = "filter bSave (map snd (vc_vars a))" and ?ver = "known_version (var_path enva f) a + 1"
  have ok: "list_all ok ?vs" and k: "map key (map snd (vc_vars a)) = map fst (vc_vars a)"
    using assms(1) by (auto simp: vars_ok_def list_all_iff)
  then have "list_all (\<lambda>l. CHR 0x0A \<notin> set l) (version_line ?ver # map line ?vs)"
    using line_one version_line_one by (auto simp: list_all_iff)
  then have s: "ls = version_line ?ver # map line ?vs" "known_version (var_path enva f) a' = ?ver"
    using assms(2) by (auto simp: save_vars_def Let_def known_version_def file_of_lines split: if_splits)
  have "distinct (map key ?vs)"
    using assms(1) by (intro distinct_map_filter) (simp only: k vars_ok_def keys_ok_def strict_sorted_iff)
  then show ?thesis
    using reload_file [OF ok, of "known_version (var_path envb f) b" ?ver "vc_vars b"] assms(3) s
      mfind_entries find_entry [OF assms(1)] by simp
qed

end

lemma session_line_first: "session_var_ok v \<Longrightarrow> session_var_line v \<noteq> [] \<and> hd (session_var_line v) \<noteq> CHR ''#''"
  by (cases "sv_uid v") (auto simp: session_var_ok_def session_var_line_def HTTP_SESSION_UID_LEN_def)

lemma lld_one: "CHR 0x0A \<notin> set (lld n)"
  using lld_chars plain_char_other by blast

lemma session_line_one: "session_var_ok v \<Longrightarrow> CHR 0x0A \<notin> set (session_var_line v)"
  by (simp add: session_var_line_def session_var_ok_def dec32_lld lld_one plain_text_def plain_name_def)

interpretation session_kind: var_kind session_var_of_line session_var_line session_key sv_create session_var_ok
  by unfold_locales (simp_all add: session_var_line_read session_line_first session_line_one)

lemma lld_first: "hd (lld n @ s) \<noteq> CHR ''#'' \<and> lld n @ s \<noteq> []"
  using lld_ne [of n] lld_chars [OF hd_in_set [OF lld_ne], of n] by (auto simp: plain_char_def less_eq_char_def)

lemma server_line_trimmed: "server_var_ok v \<Longrightarrow> strtrim (server_var_line v) = server_var_line v"
proof -
  assume v: "server_var_ok v"
  then have "trimmed (srv_name v @ ''='' @ srv_value v)"
    by (intro trimmed_pair) (auto simp: server_var_ok_def plain_name_def plain_text_def)
  moreover have t: "trimmed (p @ '';'' @ q)" if "trimmed p" "p \<noteq> []" "trimmed q" "q \<noteq> []" for p q
    using that by (auto simp: trimmed_def)
  ultimately have "trimmed (server_var_line v)"
    using v by (simp add: server_var_line_def dec32_lld server_var_ok_def)
      (intro t [simplified] trimmed_lld lld_ne, simp_all)
  then show ?thesis
    by (rule strtrim_trimmed)
qed

interpretation server_kind: var_kind server_var_of_line server_var_line "cstr \<circ> srv_name" srv_create server_var_ok
  by unfold_locales (simp_all add: server_var_line_read, simp_all add: server_var_line_def dec32_lld server_var_ok_def lld_first lld_one plain_text_def plain_name_def)

subsection \<open>Variables of sessions\<close>

abbreviation session_vars_ok :: "(string \<times> string, session_variable) stdmap \<Rightarrow> bool" where
  "session_vars_ok m \<equiv> session_kind.vars_ok m"

lemma own_file_named: "named_files ext [(own_file ext env, ls)] = [(own_file ext env, ls)]"
  by (simp add: named_files_def own_file_def suffix_def)

definition the_var :: "int \<Rightarrow> string \<Rightarrow> string \<Rightarrow> string \<Rightarrow> session_variable" where
  "the_var now uid nm v = \<lparr> sv_uid = uid, sv_create = now, sv_access = now, sv_name = nm, sv_value = v \<rparr>"

lemma pushed_session_var:
  assumes "session_vars_ok (vc_vars a)" and "session_var_ok (the_var now uid nm v)"
  shows "\<exists>a' ls. push_session_var now uid nm v enva a = Some (a', Some (own_file ''.session'' enva, ls)) \<and>
    session_vars_ok (vc_vars a') \<and> mfind (vc_vars a') (uid, nm) = Some (the_var now uid nm v) \<and>
    save_vars ''.session'' (\<lambda>v. now - sv_access v \<le> 90) session_var_line enva (a\<lparr> vc_vars := mput (uid, nm) (the_var now uid nm v) (vc_vars a) \<rparr>) =
      (a', Some (own_file ''.session'' enva, ls)) \<and> vc_vars a' = mput (uid, nm) (the_var now uid nm v) (vc_vars a)"
proof -
  let ?v = "the_var now uid nm v" and ?m = "mput (uid, nm) (the_var now uid nm v) (vc_vars a)"
  have n: "no_nul uid" "no_nul nm" "no_nul v" "length uid = HTTP_SESSION_UID_LEN"
    using assms(2) by (auto simp: session_var_ok_def the_var_def plain_name_def plain_text_def trimmed_def)
  have new: "new_session_var now uid nm v = Some ?v"
    using n by (simp add: new_session_var_def copy_uid_def the_var_def)
  have k: "session_key ?v = (uid, nm)"
    using n by (simp add: session_key_def the_var_def)
  have "((uid, nm), ?v) \<in> set ?m"
    by (rule mfind_in_set) simp
  then have "filter (\<lambda>v. now - sv_access v \<le> 90) (map snd ?m) \<noteq> []"
    by (force simp: filter_empty_conv the_var_def)
  then show ?thesis
    using session_kind.vars_ok_put [OF assms] n new
    by (simp add: k push_session_var_def save_session_vars_def save_vars_def Let_def)
qed

lemma session_var_read_by_other:
  assumes "session_vars_ok (vc_vars a)" and "session_var_ok (the_var now uid nm v)"
    and "push_session_var now uid nm v enva a = Some (a', Some (f, ls))"
    and "known_version (var_path envb f) b \<noteq> known_version (var_path enva f) a'"
  shows "\<exists>b'. get_session_var uid nm envb [(f, ls)] b = Some
    (map_option (cstr \<circ> sv_value) (merged sv_create (mfind (vc_vars b) (uid, nm)) (Some (the_var now uid nm v))), b')"
proof -
  let ?a = "a\<lparr> vc_vars := mput (uid, nm) (the_var now uid nm v) (vc_vars a) \<rparr>"
  have n: "no_nul uid" "no_nul nm"
    using assms(2) by (auto simp: session_var_ok_def the_var_def plain_name_def plain_text_def trimmed_def)
  have k: "session_key (the_var now uid nm v) = (uid, nm)"
    using n by (simp add: session_key_def the_var_def)
  have f: "f = own_file ''.session'' enva" and
    s: "save_vars ''.session'' (\<lambda>v. now - sv_access v \<le> 90) session_var_line enva ?a = (a', Some (f, ls))"
    using pushed_session_var [OF assms(1,2), of enva] assms(3) by auto
  obtain b' where "reload_files session_var_of_line session_key sv_create envb [(f, ls)] b = Some b'"
    and b: "mfind (vc_vars b') (uid, nm) = merged sv_create (mfind (vc_vars b) (uid, nm)) (Some (the_var now uid nm v))"
    using session_kind.saved_reloaded [OF _ s, of envb b] session_kind.vars_ok_put [OF assms(1,2)] assms(4) k
    by (auto simp: the_var_def)
  then show ?thesis
    using n own_file_named [of "''.session''" enva ls] by (simp add: get_session_var_def reload_session_vars_def f)
qed

text \<open>
  C23: a session variable set in one process is read in the others. Whatever else the processes know, once the file is written another process that has no entry,
  or one of an earlier second, gets the value that was set, character for character.
\<close>

theorem session_var_shared:
  assumes "session_vars_ok (vc_vars a)" and "session_var_ok (the_var now uid nm v)"
    and "push_session_var now uid nm v enva a = Some (a', Some (f, ls))"
    and "known_version (var_path envb f) b \<noteq> known_version (var_path enva f) a'"
    and "\<forall>w. mfind (vc_vars b) (uid, nm) = Some w \<longrightarrow> sv_create w < now"
  shows "\<exists>b'. get_session_var uid nm envb [(f, ls)] b = Some (Some v, b')"
proof -
  have "merged sv_create (mfind (vc_vars b) (uid, nm)) (Some (the_var now uid nm v)) = Some (the_var now uid nm v)"
    using assms(5) by (auto simp: merged_def the_var_def split: option.splits)
  moreover have "no_nul v"
    using assms(2) by (auto simp: session_var_ok_def the_var_def plain_text_def trimmed_def)
  ultimately show ?thesis
    using session_var_read_by_other [OF assms(1-4)] by (simp add: the_var_def)
qed


lemma session_vars_ok_Nil: "session_vars_ok []"
  by (simp add: session_kind.vars_ok_def keys_ok_def)

definition example_env :: "int \<Rightarrow> var_env" where
  "example_env n = \<lparr> ve_dirpath = ''/var'', ve_service_name = ''heaphttpd'', ve_process_seq = n, ve_localhostname = ''host'' \<rparr>"

definition example_uid :: string where
  "example_uid = ''0123456789abcdef0123456789abcdef''"

definition empty_vars :: "(string \<times> string, session_variable) var_cache" where
  "empty_vars = \<lparr> vc_vars = [], vc_versions = [] \<rparr>"

lemma example_var: "session_var_ok (the_var 1000 example_uid ''user'' ''bob'')"
  by code_simp

lemma example_pushed:
  obtains a' ls where "push_session_var 1000 example_uid ''user'' ''bob'' (example_env 1) empty_vars = Some (a', Some (own_file ''.session'' (example_env 1), ls))"
    and "known_version (var_path (example_env 1) (own_file ''.session'' (example_env 1))) a' = 1"
proof -
  obtain a' ls where p: "push_session_var 1000 example_uid ''user'' ''bob'' (example_env 1) empty_vars = Some (a', Some (own_file ''.session'' (example_env 1), ls))"
    and s: "save_vars ''.session'' (\<lambda>v. 1000 - sv_access v \<le> 90) session_var_line (example_env 1)
      (empty_vars\<lparr> vc_vars := mput (example_uid, ''user'') (the_var 1000 example_uid ''user'' ''bob'') (vc_vars empty_vars) \<rparr>) =
      (a', Some (own_file ''.session'' (example_env 1), ls))"
    using pushed_session_var [of empty_vars 1000 example_uid "''user''" "''bob''" "example_env 1"] example_var session_vars_ok_Nil
    by (auto simp: empty_vars_def)
  have "known_version (var_path (example_env 1) (own_file ''.session'' (example_env 1))) a' = 1"
    using s by (auto simp: save_vars_def Let_def known_version_def empty_vars_def split: if_splits)
  then show ?thesis
    using that p by blast
qed

theorem session_var_shared_witness:
  "\<exists>a' ls b'. push_session_var 1000 example_uid ''user'' ''bob'' (example_env 1) empty_vars = Some (a', Some (own_file ''.session'' (example_env 1), ls)) \<and>
    get_session_var example_uid ''user'' (example_env 2) [(own_file ''.session'' (example_env 1), ls)] empty_vars = Some (Some ''bob'', b')"
proof -
  obtain a' ls where p: "push_session_var 1000 example_uid ''user'' ''bob'' (example_env 1) empty_vars = Some (a', Some (own_file ''.session'' (example_env 1), ls))"
    and v: "known_version (var_path (example_env 1) (own_file ''.session'' (example_env 1))) a' = 1"
    by (rule example_pushed)
  have "session_vars_ok (vc_vars empty_vars)" "known_version (var_path (example_env 2) (own_file ''.session'' (example_env 1))) empty_vars \<noteq> 1"
    using session_vars_ok_Nil by (simp_all add: empty_vars_def known_version_def)
  then show ?thesis
    using session_var_shared [OF _ example_var p, of "example_env 2" empty_vars] v p by (auto simp: empty_vars_def)
qed


subsection \<open>Cookies\<close>

definition cookie_ok :: "cookie \<Rightarrow> bool" where
  "cookie_ok c \<longleftrightarrow> int32 (co_create c) \<and> int32 (co_access c) \<and> int32 (co_max_age c) \<and> plain_name (co_name c) \<and>
     list_all plain_text [co_value c, co_version c, co_domain c, co_expires c, co_path c] \<and> co_path c \<noteq> []"

definition cookie_options :: "cookie \<Rightarrow> string list" where
  "cookie_options c =
     (if co_version c = [] then [] else ['' Version='' @ co_version c]) @
     (if co_max_age c = - 1 then [] else ['' MaxAge='' @ lld (co_max_age c)]) @
     (if co_expires c = [] then [] else ['' Expires='' @ co_expires c]) @ ['' Path='' @ co_path c] @
     (if co_domain c = [] then [] else ['' Domain='' @ co_domain c]) @ (if co_secure c then ['' Secure''] else [])"

lemma cookie_line_parts:
  assumes "cookie_ok c"
  shows "cookie_line c = concat (map (\<lambda>p. p @ '';'') ([lld (co_create c), lld (co_access c), co_name c @ ''='' @ co_value c] @ cookie_options c)) @
    (if co_http_only c then '' HttpOnly'' else [])"
  using assms
  by (simp add: cookie_line_def cookie_toString_def cookie_options_def cookie_field_def cookie_ok_def dec32_lld plain_text_def trimmed_def)

lemma plain_pair_trim: "plain_text v \<Longrightarrow> f \<noteq> [] \<Longrightarrow> trimmed f \<Longrightarrow> strtrim ('' '' @ f @ ''='' @ v) = f @ ''='' @ v"
  by (intro strtrim_blank trimmed_pair) (auto simp: plain_text_def)

lemma after_equals_pair: "CHR ''='' \<notin> set f \<Longrightarrow> no_nul f \<Longrightarrow> plain_text v \<Longrightarrow> after_equals (f @ ''='' @ v) = v"
  by (simp add: after_equals_def plain_text_def strcut_value strtrim_trimmed trimmed_def)

lemma cstr_append_no_nul: "no_nul f \<Longrightarrow> cstr (f @ s) = f @ cstr s"
  by (induction f) (simp_all add: cstr_def)

lemma same_name: "no_nul f \<Longrightarrow> n = length f \<Longrightarrow> strncaseeq (f @ s) f n"
proof -
  assume f: "no_nul f" and n: "n = length f"
  then have "cstr (f @ s) = f @ cstr s" "cstr f = f"
    by (simp_all add: cstr_append_no_nul)
  then show ?thesis
    by (simp add: strncaseeq_def n)
qed

lemma other_name: "LOCH a \<noteq> LOCH b \<Longrightarrow> a \<noteq> NUL \<Longrightarrow> b \<noteq> NUL \<Longrightarrow> 0 < n \<Longrightarrow> \<not> strncaseeq (a # s) (b # t) n"
  by (cases n) (simp_all add: strncaseeq_def cstr_def)

lemma option_letters:
  "LOCH (CHR ''V'') = CHR ''v''" "LOCH (CHR ''E'') = CHR ''e''" "LOCH (CHR ''P'') = CHR ''p''" "LOCH (CHR ''D'') = CHR ''d''"
  "LOCH (CHR ''M'') = CHR ''m''" "LOCH (CHR ''S'') = CHR ''s''" "LOCH (CHR ''H'') = CHR ''h''"
  by code_simp+

lemmas option_name = cookie_option_def same_name [of "''Version''", simplified] same_name [of "''Expires''", simplified]
  same_name [of "''Path''", simplified] same_name [of "''Domain''", simplified] same_name [of "''MaxAge''", simplified]
  same_name [of "''Secure''" _ "[]", simplified] same_name [of "''HttpOnly''" _ "[]", simplified] other_name option_letters

lemma option_read:
  assumes "plain_text v"
  shows "cookie_option (strtrim ('' Version='' @ v)) c = c\<lparr> co_version := v \<rparr>"
    and "cookie_option (strtrim ('' Expires='' @ v)) c = c\<lparr> co_expires := v \<rparr>"
    and "cookie_option (strtrim ('' Path='' @ v)) c = c\<lparr> co_path := v \<rparr>"
    and "cookie_option (strtrim ('' Domain='' @ v)) c = c\<lparr> co_domain := v \<rparr>"
    and "cookie_option (strtrim ('' MaxAge='' @ v)) c = c\<lparr> co_max_age := atoi v \<rparr>"
    and "cookie_option (strtrim '' Secure'') c = c\<lparr> co_secure := True \<rparr>"
    and "cookie_option (strtrim '' HttpOnly'') c = c\<lparr> co_http_only := True \<rparr>"
proof -
  have n: "cstr v = v"
    using assms by (simp add: plain_text_def trimmed_def)
  note t = plain_pair_trim [OF assms] and e = after_equals_pair [OF _ _ assms]
  show "cookie_option (strtrim ('' Version='' @ v)) c = c\<lparr> co_version := v \<rparr>"
    using t [of "''Version''"] e [of "''Version''"] by (simp add: trimmed_def is_ws_def option_name)
  show "cookie_option (strtrim ('' Expires='' @ v)) c = c\<lparr> co_expires := v \<rparr>"
    using t [of "''Expires''"] e [of "''Expires''"] by (simp add: trimmed_def is_ws_def option_name)
  show "cookie_option (strtrim ('' Path='' @ v)) c = c\<lparr> co_path := v \<rparr>"
    using t [of "''Path''"] e [of "''Path''"] by (simp add: trimmed_def is_ws_def option_name)
  show "cookie_option (strtrim ('' Domain='' @ v)) c = c\<lparr> co_domain := v \<rparr>"
    using t [of "''Domain''"] e [of "''Domain''"] by (simp add: trimmed_def is_ws_def option_name)
  show "cookie_option (strtrim ('' MaxAge='' @ v)) c = c\<lparr> co_max_age := atoi v \<rparr>"
    using t [of "''MaxAge''"] e [of "''MaxAge''"] n by (simp add: trimmed_def is_ws_def option_name)
  show "cookie_option (strtrim '' Secure'') c = c\<lparr> co_secure := True \<rparr>"
    using strtrim_blank [of "''Secure''"] by (simp add: trimmed_def is_ws_def option_name)
  show "cookie_option (strtrim '' HttpOnly'') c = c\<lparr> co_http_only := True \<rparr>"
    using strtrim_blank [of "''HttpOnly''"] by (simp add: trimmed_def is_ws_def option_name)
qed

lemma options_parts:
  assumes "cookie_ok c"
  shows "list_all line_part ([lld (co_create c), lld (co_access c), co_name c @ ''='' @ co_value c] @ cookie_options c)"
proof -
  have l: "list_all (\<lambda>p. CHR '';'' \<notin> set p \<and> no_nul p) [co_name c, co_value c, co_version c, co_domain c, co_expires c, co_path c]"
    using assms by (simp add: cookie_ok_def plain_text_def plain_name_def trimmed_def)
  then show ?thesis
    using line_part_lld [of "co_create c"] line_part_lld [of "co_access c"] line_part_lld [of "co_max_age c"]
    by (simp add: cookie_options_def line_part_def)
qed

lemma options_read:
  assumes "cookie_ok c"
  shows "fold cookie_option (map strtrim (cookie_options c @ (if co_http_only c then ['' HttpOnly''] else [])))
    \<lparr> co_create = a, co_access = b, co_name = n, co_value = v, co_version = [], co_domain = d,
      co_expires = [], co_path = ''/'', co_max_age = - 1, co_secure = False, co_http_only = False \<rparr> =
    c\<lparr> co_create := a, co_access := b, co_name := n, co_value := v, co_domain := if co_domain c = [] then d else co_domain c \<rparr>"
proof -
  have p: "plain_text (co_version c)" "plain_text (co_expires c)" "plain_text (co_path c)" "plain_text (co_domain c)" "plain_text (lld (co_max_age c))"
    using assms lld_chars [of _ "co_max_age c"] plain_char_other by (auto simp: cookie_ok_def plain_text_def trimmed_lld)
  note o = option_read(1) [OF p(1)] option_read(2) [OF p(2)] option_read(3) [OF p(3)] option_read(4) [OF p(4)]
    option_read(5) [OF p(5)] option_read(6,7) [OF p(1)]
  have g: "fold cookie_option (map strtrim (if co_version c = [] then [] else ['' Version='' @ co_version c])) x = x\<lparr> co_version := if co_version c = [] then co_version x else co_version c \<rparr>"
    "fold cookie_option (map strtrim (if co_max_age c = - 1 then [] else ['' MaxAge='' @ lld (co_max_age c)])) x = x\<lparr> co_max_age := if co_max_age c = - 1 then co_max_age x else co_max_age c \<rparr>"
    "fold cookie_option (map strtrim (if co_expires c = [] then [] else ['' Expires='' @ co_expires c])) x = x\<lparr> co_expires := if co_expires c = [] then co_expires x else co_expires c \<rparr>"
    "fold cookie_option (map strtrim ['' Path='' @ co_path c]) x = x\<lparr> co_path := co_path c \<rparr>"
    "fold cookie_option (map strtrim (if co_domain c = [] then [] else ['' Domain='' @ co_domain c])) x = x\<lparr> co_domain := if co_domain c = [] then co_domain x else co_domain c \<rparr>"
    "fold cookie_option (map strtrim (if co_secure c then ['' Secure''] else [])) x = x\<lparr> co_secure := co_secure x \<or> co_secure c \<rparr>"
    "fold cookie_option (map strtrim (if co_http_only c then ['' HttpOnly''] else [])) x = x\<lparr> co_http_only := co_http_only x \<or> co_http_only c \<rparr>" for x
    using o by (simp_all add: atoi_lld)
  have r: "(if s = [] then [] else s) = s" for s :: string
    by simp
  have m: "(if n = - 1 then - 1 else n) = n" for n :: int
    by simp
  show ?thesis
    by (simp only: cookie_options_def map_append fold_append comp_apply g cookie.simps r m simp_thms) (cases c, simp)
qed

text \<open>
  C26: a cookie is read back from its line. A cookie whose texts have no semicolon, line break or blanks around them, whose name has no equals
  sign and whose times fit 32 bits comes back with all of its attributes.
\<close>

theorem cookie_round_trip:
  assumes "cookie_ok c"
  shows "cookie_of_line (cookie_line c) = Some c"
proof -
  let ?o = "if co_http_only c then '' HttpOnly'' else []"
  have "line_parts (cookie_line c) = map strtrim (([lld (co_create c), lld (co_access c), co_name c @ ''='' @ co_value c] @ cookie_options c) @
      (if ?o = [] then [] else [?o]))"
    unfolding cookie_line_parts [OF assms]
    by (rule line_parts_of [OF options_parts [OF assms]]) (simp_all add: cookie_options_def default_count_def)
  moreover have "strtrim (co_name c @ ''='' @ co_value c) = co_name c @ ''='' @ co_value c"
    using assms by (intro strtrim_trimmed trimmed_pair) (simp_all add: cookie_ok_def plain_name_def plain_text_def)
  moreover have "plain_name (co_name c)" "plain_text (co_value c)"
    using assms by (simp_all add: cookie_ok_def)
  ultimately show ?thesis
    using options_read [OF assms, of "co_create c" "co_access c" "co_name c" "co_value c" "[]"] trimmed_lld pair_parts [of "co_name c" "co_value c"]
    by (cases "co_http_only c") (simp_all add: cookie_of_line_def strtrim_trimmed atoi_lld Let_def trimmed_def)
qed

text \<open>
  C28: a value can bring attributes of its own. A value with a semicolon is cut there and what follows is read as attributes, so
  that a cookie without a domain gets the one that stands in its value.
\<close>

theorem cookie_attribute_injection:
  assumes "cookie_ok c" and "co_domain c = []" and "plain_text d"
  shows "cookie_of_line (cookie_line (c\<lparr> co_value := co_value c @ '';Domain='' @ d \<rparr>)) = Some (c\<lparr> co_domain := d \<rparr>)"
proof -
  let ?o = "if co_http_only c then '' HttpOnly'' else []" and ?d = "''Domain='' @ d" and ?c = "c\<lparr> co_value := co_value c @ '';Domain='' @ d \<rparr>"
  let ?ps = "[lld (co_create c), lld (co_access c), co_name c @ ''='' @ co_value c, ?d] @ cookie_options c"
  have t: "trimmed ?d" "CHR '';'' \<notin> set d"
    using assms(3) trimmed_pair [of "''Domain''" d] by (auto simp: plain_text_def trimmed_def is_ws_def)
  have "list_all line_part ?ps"
    using options_parts [OF assms(1)] t by (simp add: line_part_def trimmed_def)
  moreover have "cookie_line ?c = concat (map (\<lambda>p. p @ '';'') ?ps) @ ?o"
    using assms(1)
    by (simp add: cookie_line_def cookie_toString_def cookie_options_def cookie_field_def cookie_ok_def dec32_lld plain_text_def trimmed_def)
  ultimately have "line_parts (cookie_line ?c) = map strtrim (?ps @ (if ?o = [] then [] else [?o]))"
    using line_parts_of [of ?ps ?o] by (simp add: cookie_options_def default_count_def)
  moreover have "strtrim (co_name c @ ''='' @ co_value c) = co_name c @ ''='' @ co_value c"
    using assms by (intro strtrim_trimmed trimmed_pair) (simp_all add: cookie_ok_def plain_name_def plain_text_def)
  moreover have "plain_name (co_name c)" "plain_text (co_value c)"
    using assms by (simp_all add: cookie_ok_def)
  moreover have "cookie_option ?d x = x\<lparr> co_domain := d \<rparr>" for x
    using after_equals_pair [of "''Domain''" d] assms(3) by (simp add: option_name)
  ultimately show ?thesis
    using options_read [OF assms(1), of "co_create c" "co_access c" "co_name c" "co_value c" d] trimmed_lld pair_parts [of "co_name c" "co_value c"]
      assms(2) strtrim_trimmed [OF t(1)]
    by (cases "co_http_only c") (simp_all add: cookie_of_line_def strtrim_trimmed atoi_lld Let_def trimmed_def)
qed

definition example_cookie :: cookie where
  "example_cookie = new_cookie 1000 (Some ''id'') (Some ''42'') 3600 None None None True True None"

theorem cookie_round_trip_witness: "cookie_of_line (cookie_line example_cookie) = Some example_cookie"
proof -
  have "cookie_ok example_cookie"
    by code_simp
  then show ?thesis
    by (rule cookie_round_trip)
qed

theorem cookie_attribute_injection_witness:
  "cookie_of_line (cookie_line (example_cookie\<lparr> co_value := ''42;Domain=evil.org'' \<rparr>)) = Some (example_cookie\<lparr> co_domain := ''evil.org'' \<rparr>)"
proof -
  have "cookie_ok example_cookie" "co_domain example_cookie = []" "plain_text ''evil.org''" "co_value example_cookie = ''42''"
    by code_simp+
  then show ?thesis
    using cookie_attribute_injection [of example_cookie "''evil.org''"] by simp
qed

end
