(* ===== verification/Filecache.thy ===== *)
theory Filecache
  imports Stdmap
begin

section \<open>The caches of files and of responses\<close>

text \<open>
  The two caches of \<open>memory_cache\<close> (cache.cpp, cache.h): entries with a lock each, the total length, finding, storing with eviction, locking and clearing. The
  code of both is the same but for what an entry says of its content, which is a parameter here. A lock is the number of its readers: deleting an entry
  waits until there are none, and releasing a lock nobody holds is undefined.
\<close>

subsection \<open>Entries and their locks\<close>

datatype 'a lock_outcome = Returns 'a | Blocks | Undefined

primrec lbind :: "'a lock_outcome \<Rightarrow> ('a \<Rightarrow> 'b lock_outcome) \<Rightarrow> 'b lock_outcome" where
  "lbind (Returns x) f = f x"
| "lbind Blocks f = Blocks"
| "lbind Undefined f = Undefined"

lemma lbind_Returns: "lbind m f = Returns y \<longleftrightarrow> (\<exists>x. m = Returns x \<and> f x = Returns y)"
  by (cases m) auto

record 'a cache_item =
  ci_buf :: bytes
  ci_len :: u32
  ci_access :: int
  ci_max_time :: int
  ci_readers :: nat
  ci_about :: 'a

record file_about =
  fa_modify :: int
  fa_create :: int
  fa_etag :: string

definition new_file_cache :: "int \<Rightarrow> bytes \<Rightarrow> int \<Rightarrow> string \<Rightarrow> file_about cache_item" where
  "new_file_cache now buf t_modify etag =
     \<lparr> ci_buf = buf, ci_len = word_of_nat (length buf), ci_access = now, ci_max_time = now + 900, ci_readers = 0,
       ci_about = \<lparr> fa_modify = t_modify, fa_create = now, fa_etag = etag \<rparr> \<rparr>"

text \<open>The constructor for responses leaves the time of the last access unset; every read of it comes after \<open>tunneling_rdlock\<close>.\<close>

definition new_tunneling_cache :: "int \<Rightarrow> int \<Rightarrow> bytes \<Rightarrow> (string \<Rightarrow> string) \<Rightarrow> u32 \<Rightarrow> (string \<Rightarrow> string) cache_item" where
  "new_tunneling_cache unset now buf fs max_age =
     \<lparr> ci_buf = buf, ci_len = word_of_nat (length buf), ci_access = unset, ci_max_time = now + int (unat max_age), ci_readers = 0, ci_about = fs \<rparr>"

definition item_rdlock :: "int \<Rightarrow> 'a cache_item \<Rightarrow> 'a cache_item" where
  "item_rdlock now it = it\<lparr> ci_access := now, ci_readers := ci_readers it + 1 \<rparr>"

definition item_unlock :: "'a cache_item \<Rightarrow> 'a cache_item lock_outcome" where
  "item_unlock it = (if ci_readers it = 0 then Undefined else Returns (it\<lparr> ci_readers := ci_readers it - 1 \<rparr>))"

definition item_fresh :: "int \<Rightarrow> 'a cache_item \<Rightarrow> bool" where
  "item_fresh now it = (\<not> now > ci_max_time it)"

text \<open>The destructor takes the lock for writing.\<close>

definition item_delete :: "'a cache_item \<Rightarrow> unit lock_outcome" where
  "item_delete it = (if ci_readers it = 0 then Returns () else Blocks)"

subsection \<open>The cache\<close>

type_synonym 'a items = "(string, 'a cache_item) stdmap"

record 'a cache_of =
  mc_items :: "'a items"
  mc_size :: u64

definition unlock_at :: "string \<Rightarrow> 'a items \<Rightarrow> 'a items lock_outcome" where
  "unlock_at k m =
     (case mfind m k of None \<Rightarrow> Undefined | Some it \<Rightarrow> lbind (item_unlock it) (\<lambda>it. Returns (mmap k (\<lambda>_. it) m)))"

text \<open>
  The scan for the oldest entry: \<open>oldest\<close> is the key of \<open>o_it\<close>, \<open>i\<close> counts the rounds, which read the clock twice each. Locking sets the time of the access
  that is compared; where the times are the same, the assignment in the condition stores its value there. Both locks are released through
  the iterators as they stand then.
\<close>

definition oldest_round :: "(nat \<Rightarrow> int) \<Rightarrow> nat \<Rightarrow> string \<Rightarrow> string \<Rightarrow> 'a items \<Rightarrow> (string \<times> 'a items) lock_outcome" where
  "oldest_round clk i k oldest m =
     (let m = mmap oldest (item_rdlock (clk (Suc (2 * i)))) (mmap k (item_rdlock (clk (2 * i))) m)
      in case (mfind m k, mfind m oldest) of
           (Some curr_data, Some oldest_data) \<Rightarrow>
             let older = ci_access curr_data < ci_access oldest_data;
                 smaller = (ci_access oldest_data \<noteq> 0 \<and> ci_len curr_data < ci_len oldest_data);
                 m = (if older then m else mmap k (\<lambda>it. it\<lparr> ci_access := if smaller then 1 else 0 \<rparr>) m);
                 o_it = (if older \<or> smaller then k else oldest)
             in lbind (unlock_at k m) (\<lambda>m. lbind (unlock_at o_it m) (\<lambda>m. Returns (o_it, m)))
         | _ \<Rightarrow> Undefined)"

fun oldest_scan :: "(nat \<Rightarrow> int) \<Rightarrow> nat \<Rightarrow> string list \<Rightarrow> string \<Rightarrow> 'a items \<Rightarrow> (string \<times> 'a items) lock_outcome" where
  "oldest_scan clk i [] oldest m = Returns (oldest, m)"
| "oldest_scan clk i (k # ks) oldest m =
     lbind (oldest_round clk i k oldest m) (\<lambda>(o_it, m). oldest_scan clk (i + 1) ks o_it m)"

definition find_oldest :: "(nat \<Rightarrow> int) \<Rightarrow> 'a items \<Rightarrow> (string option \<times> 'a items) lock_outcome" where
  "find_oldest clk m =
     (case m of [] \<Rightarrow> Returns (None, m)
      | (k, _) # rest \<Rightarrow> lbind (oldest_scan clk 0 (map fst rest) k m) (\<lambda>(o_it, m). Returns (Some o_it, m)))"

text \<open>One entry is removed when the limit is reached; without any entry the iterator at the end is read.\<close>

definition evict_oldest :: "(nat \<Rightarrow> int) \<Rightarrow> 'a cache_of \<Rightarrow> 'a cache_of lock_outcome" where
  "evict_oldest clk c =
     lbind (find_oldest clk (mc_items c)) (\<lambda>(o_it, m).
       case o_it of None \<Rightarrow> Undefined
       | Some k \<Rightarrow>
           (case mfind m k of None \<Rightarrow> Undefined
            | Some it \<Rightarrow> lbind (item_delete it) (\<lambda>_.
                Returns (c\<lparr> mc_items := merase k m, mc_size := mc_size c - ucast (ci_len it) \<rparr>))))"

definition push_item :: "u64 \<Rightarrow> (nat \<Rightarrow> int) \<Rightarrow> string \<Rightarrow> 'a cache_item \<Rightarrow> 'a cache_of \<Rightarrow> 'a cache_of lock_outcome" where
  "push_item limit clk k it c =
     (case mfind (mc_items c) k of
        Some old \<Rightarrow>
          lbind (item_delete old) (\<lambda>_.
            Returns (c\<lparr> mc_items := mput k it (mc_items c), mc_size := mc_size c - ucast (ci_len old) + ucast (ci_len it) \<rparr>))
      | None \<Rightarrow>
          lbind (if mc_size c < limit then Returns c else evict_oldest clk c) (\<lambda>c.
            Returns (c\<lparr> mc_items := mput k it (mc_items c), mc_size := mc_size c + ucast (ci_len it) \<rparr>)))"

definition find_item :: "int \<Rightarrow> string \<Rightarrow> 'a cache_of \<Rightarrow> 'a cache_item option" where
  "find_item now k c = (case mfind (mc_items c) k of None \<Rightarrow> None | Some it \<Rightarrow> if \<not> item_fresh now it then None else Some it)"

definition lock_item :: "int \<Rightarrow> string \<Rightarrow> 'a cache_of \<Rightarrow> 'a cache_item option \<times> 'a cache_of" where
  "lock_item now k c =
     (case mfind (mc_items c) k of None \<Rightarrow> (None, c)
      | Some it \<Rightarrow> (Some (item_rdlock now it), c\<lparr> mc_items := mmap k (item_rdlock now) (mc_items c) \<rparr>))"

definition unlock_item :: "string \<Rightarrow> 'a cache_of \<Rightarrow> 'a cache_of lock_outcome" where
  "unlock_item k c = lbind (unlock_at k (mc_items c)) (\<lambda>m. Returns (c\<lparr> mc_items := m \<rparr>))"

text \<open>Clearing deletes the entries and leaves the length as it is.\<close>

definition clear_items :: "'a cache_of \<Rightarrow> 'a cache_of lock_outcome" where
  "clear_items c = (if list_ex (\<lambda>(k, it). ci_readers it \<noteq> 0) (mc_items c) then Blocks else Returns (c\<lparr> mc_items := [] \<rparr>))"

text \<open>The operations of both caches.\<close>

definition push_file :: "u64 \<Rightarrow> (nat \<Rightarrow> int) \<Rightarrow> int \<Rightarrow> string \<Rightarrow> bytes \<Rightarrow> int \<Rightarrow> string \<Rightarrow> file_about cache_of \<Rightarrow> file_about cache_of lock_outcome" where
  "push_file limit clk now k buf t_modify etag = push_item limit clk k (new_file_cache now buf t_modify etag)"

definition push_tunneling :: "u64 \<Rightarrow> (nat \<Rightarrow> int) \<Rightarrow> int \<Rightarrow> int \<Rightarrow> string \<Rightarrow> bytes \<Rightarrow> (string \<Rightarrow> string) \<Rightarrow> u32 \<Rightarrow> (string \<Rightarrow> string) cache_of \<Rightarrow> (string \<Rightarrow> string) cache_of lock_outcome" where
  "push_tunneling limit clk unset now k buf fs max_age = push_item limit clk k (new_tunneling_cache unset now buf fs max_age)"

subsection \<open>The length is what is stored\<close>

definition stored_len :: "'a items \<Rightarrow> u64" where
  "stored_len m = (\<Sum>(k, it) \<leftarrow> m. ucast (ci_len it))"

definition accounted :: "'a cache_of \<Rightarrow> bool" where
  "accounted c \<longleftrightarrow> keys_ok (mc_items c) \<and> mc_size c = stored_len (mc_items c)"

lemma stored_len_mmap:
  assumes "\<And>it. ci_len (f it) = ci_len it"
  shows "stored_len (mmap k f m) = stored_len m"
  by (induction m) (auto simp: stored_len_def mmap_def assms)

lemma mmap_absent: "k \<notin> fst ` set m \<Longrightarrow> mmap k f m = m"
  by (induction m) (auto simp: mmap_def)

lemma stored_len_Cons: "stored_len ((k, it) # m) = ucast (ci_len it) + stored_len m"
  by (simp add: stored_len_def)

lemma mmap_Cons: "mmap k f ((j, v) # m) = (j, if j = k then f v else v) # mmap k f m"
  by (simp add: mmap_def)

lemma stored_len_mmap_at:
  assumes "keys_ok m" and "mfind m k = Some it" and "ci_len it' = ci_len it"
  shows "stored_len (mmap k (\<lambda>_. it') m) = stored_len m"
  using assms
proof (induction m)
  case (Cons x m)
  obtain j v where x: "x = (j, v)" by fastforce
  have "j \<notin> fst ` set m" "keys_ok m"
    using Cons.prems(1) by (auto simp: x keys_ok_def)
  then show ?case
    using Cons by (auto simp: x stored_len_Cons mmap_Cons mmap_absent)
qed simp

lemma stored_len_mput:
  "keys_ok m \<Longrightarrow> stored_len (mput k it m) = stored_len m + ucast (ci_len it) - (case mfind m k of None \<Rightarrow> 0 | Some old \<Rightarrow> ucast (ci_len old))"
proof (induction k it m rule: mput.induct)
  case (2 k v j w m)
  have "k < j \<Longrightarrow> mfind m k = None"
    using "2.prems" by (auto simp: mfind_None keys_ok_def)
  with 2 show ?case
    by (auto simp: keys_ok_def stored_len_def split: option.splits)
qed (simp add: stored_len_def)

lemma stored_len_merase:
  "keys_ok m \<Longrightarrow> mfind m k = Some it \<Longrightarrow> stored_len (merase k m) = stored_len m - ucast (ci_len it)"
proof (induction m)
  case (Cons x m)
  obtain j v where x: "x = (j, v)" by fastforce
  have "merase j m = m"
    using Cons.prems(1) by (auto simp: merase_def keys_ok_def x filter_id_conv)
  with Cons show ?case
    by (auto simp: x merase_def keys_ok_def stored_len_def split: if_splits)
qed simp

lemma unlock_at_len:
  assumes "unlock_at k m = Returns m'" and "keys_ok m"
  shows "keys_ok m' \<and> stored_len m' = stored_len m \<and> map fst m' = map fst m"
  using assms stored_len_mmap_at [OF assms(2), of k]
  by (auto simp: unlock_at_def item_unlock_def lbind_Returns split: option.splits if_splits)

lemma oldest_round_len:
  assumes "oldest_round clk i k oldest m = Returns (o_it, m')" and "keys_ok m"
  shows "keys_ok m' \<and> stored_len m' = stored_len m \<and> map fst m' = map fst m"
proof -
  let ?m = "mmap oldest (item_rdlock (clk (Suc (2 * i)))) (mmap k (item_rdlock (clk (2 * i))) m)"
  obtain c old where f: "mfind ?m k = Some c" "mfind ?m oldest = Some old"
    using assms(1) by (auto simp: oldest_round_def Let_def simp del: mfind_mmap split: option.splits)
  define m1 where "m1 = (if ci_access c < ci_access old then ?m
    else mmap k (\<lambda>it. it\<lparr> ci_access := if ci_access old \<noteq> 0 \<and> ci_len c < ci_len old then 1 else 0 \<rparr>) ?m)"
  have m1: "keys_ok m1 \<and> stored_len m1 = stored_len m \<and> map fst m1 = map fst m"
    using assms(2) by (simp add: m1_def stored_len_mmap item_rdlock_def)
  obtain m2 where u: "unlock_at k m1 = Returns m2" "unlock_at o_it m2 = Returns m'"
    using assms(1) f by (auto simp: oldest_round_def Let_def lbind_Returns m1_def simp del: mfind_mmap)
  then show ?thesis
    using unlock_at_len [OF u(1)] unlock_at_len [OF u(2)] m1 by simp
qed

lemma oldest_scan_len:
  assumes "oldest_scan clk i ks oldest m = Returns (o_it, m')" and "keys_ok m"
  shows "keys_ok m' \<and> stored_len m' = stored_len m \<and> map fst m' = map fst m"
  using assms
proof (induction ks arbitrary: i oldest m)
  case (Cons k ks)
  then obtain o1 m1 where r: "oldest_round clk i k oldest m = Returns (o1, m1)" "oldest_scan clk (i + 1) ks o1 m1 = Returns (o_it, m')"
    by (auto simp: lbind_Returns)
  then show ?case
    using oldest_round_len [OF r(1) Cons.prems(2)] Cons.IH [OF r(2)] by simp
qed simp

lemma find_oldest_len:
  assumes "find_oldest clk m = Returns (o_it, m')" and "keys_ok m"
  shows "keys_ok m' \<and> stored_len m' = stored_len m \<and> map fst m' = map fst m"
proof (cases m)
  case (Cons x rest)
  then obtain k where "oldest_scan clk 0 (map fst rest) (fst x) m = Returns (k, m')"
    using assms(1) by (cases x) (auto simp: find_oldest_def lbind_Returns)
  then show ?thesis
    by (rule oldest_scan_len [OF _ assms(2)])
qed (use assms in \<open>simp add: find_oldest_def\<close>)

lemma evict_Returns:
  "evict_oldest clk c = Returns d \<longleftrightarrow>
     (\<exists>k m it. find_oldest clk (mc_items c) = Returns (Some k, m) \<and> mfind m k = Some it \<and> item_delete it = Returns () \<and>
        d = c\<lparr> mc_items := merase k m, mc_size := mc_size c - ucast (ci_len it) \<rparr>)"
proof (cases "find_oldest clk (mc_items c)")
  case (Returns x)
  obtain o_it m where x: "x = (o_it, m)" by fastforce
  show ?thesis
  proof (cases o_it)
    case (Some k)
    then show ?thesis
      by (cases "mfind m k") (auto simp: evict_oldest_def Returns x lbind_Returns item_delete_def)
  qed (simp add: evict_oldest_def Returns x)
qed (simp_all add: evict_oldest_def)

lemma evict_accounted:
  assumes "evict_oldest clk c = Returns c'" and "accounted c"
  shows "accounted c' \<and> set (map fst (mc_items c')) \<subseteq> set (map fst (mc_items c))"
proof -
  obtain k m it where o: "find_oldest clk (mc_items c) = Returns (Some k, m)" "mfind m k = Some it"
    and c: "c' = c\<lparr> mc_items := merase k m, mc_size := mc_size c - ucast (ci_len it) \<rparr>"
    using assms(1) by (auto simp: evict_Returns)
  have "keys_ok m \<and> stored_len m = stored_len (mc_items c) \<and> map fst m = map fst (mc_items c)"
    by (rule find_oldest_len [OF o(1)]) (use assms(2) in \<open>simp add: accounted_def\<close>)
  moreover from this have "set (map fst (merase k m)) \<subseteq> set (map fst (mc_items c))"
    by (metis (no_types, lifting) filter_is_subset image_mono list.set_map merase_def)
  ultimately show ?thesis
    using stored_len_merase [OF _ o(2)] assms(2) by (simp add: c accounted_def)
qed

lemma push_accounted:
  assumes "push_item limit clk k it c = Returns c'" and "accounted c"
  shows "accounted c'"
proof (cases "mfind (mc_items c) k")
  case None
  have e: "accounted d \<and> mfind (mc_items d) k = None" if "evict_oldest clk c = Returns d" for d
    using evict_accounted [OF that assms(2)] None by (auto simp: mfind_None)
  obtain d where "accounted d" "mfind (mc_items d) k = None" "c' = d\<lparr> mc_items := mput k it (mc_items d), mc_size := mc_size d + ucast (ci_len it) \<rparr>"
    using assms None e by (auto simp: push_item_def lbind_Returns split: if_splits)
  then show ?thesis
    by (simp add: accounted_def stored_len_mput)
next
  case (Some old)
  then show ?thesis
    using assms by (auto simp: push_item_def lbind_Returns accounted_def stored_len_mput)
qed

subsection \<open>Which entry is evicted\<close>

definition all_free :: "'a items \<Rightarrow> bool" where
  "all_free m \<longleftrightarrow> list_all (\<lambda>(k, it). ci_readers it = 0) m"

definition lens :: "'a items \<Rightarrow> (string \<times> u32) list" where
  "lens m = map (\<lambda>(k, it). (k, ci_len it)) m"

lemma mfind_lens: "map_option ci_len (mfind m k) = mfind (lens m) k"
  by (induction m) (auto simp: lens_def)

lemma all_free_at: "all_free m \<Longrightarrow> mfind m k = Some it \<Longrightarrow> ci_readers it = 0"
  by (auto simp: all_free_def list_all_iff dest: mfind_in_set)

lemma round_result:
  assumes "all_free m" and "keys_ok m" and "mfind m k = Some a" and "mfind m oldest = Some b" and "k \<noteq> oldest" and "\<forall>i. clk i = now" and "now \<noteq> 0"
  shows "if ci_len a < ci_len b then oldest_round clk i k oldest m = Undefined
    else \<exists>m'. oldest_round clk i k oldest m = Returns (oldest, m') \<and> all_free m' \<and> lens m' = lens m \<and> keys_ok m'"
proof -
  have r: "ci_readers a = 0" "ci_readers b = 0"
    using all_free_at assms(1,3,4) by blast+
  let ?a = "a\<lparr> ci_access := 0, ci_readers := 0 \<rparr>" and ?b = "b\<lparr> ci_access := now, ci_readers := 0 \<rparr>"
  show ?thesis
  proof (cases "ci_len a < ci_len b")
    case True
    then show ?thesis
      using assms r by (simp add: oldest_round_def item_rdlock_def unlock_at_def item_unlock_def)
  next
    case False
    define m0 where "m0 = mmap k (\<lambda>it. it\<lparr> ci_access := 0 \<rparr>) (mmap oldest (item_rdlock now) (mmap k (item_rdlock now) m))"
    define m' where "m' = mmap oldest (\<lambda>_. ?b) (mmap k (\<lambda>_. ?a) m0)"
    have "unlock_at k m0 = Returns (mmap k (\<lambda>_. ?a) m0)"
      using assms r by (simp add: unlock_at_def m0_def item_rdlock_def item_unlock_def)
    moreover have "unlock_at oldest (mmap k (\<lambda>_. ?a) m0) = Returns m'"
      using assms r by (simp add: unlock_at_def m0_def m'_def item_rdlock_def item_unlock_def)
    ultimately have "oldest_round clk i k oldest m = Returns (oldest, m')"
      using assms False by (simp add: oldest_round_def m0_def item_rdlock_def del: mmap_def)
    moreover have "all_free m'" "lens m' = lens m"
      using assms(1-4) r in_set_mfind [OF assms(2)]
      by (auto simp: all_free_def lens_def m'_def m0_def mmap_def list_all_iff dest: in_set_mfind)
    ultimately show ?thesis
      using False assms(2) by (auto simp: m'_def m0_def)
  qed
qed

lemma scan_result:
  assumes "all_free m" and "keys_ok m" and "\<forall>k \<in> set ks. k \<noteq> oldest \<and> mfind m k \<noteq> None" and "mfind m oldest \<noteq> None"
    and "\<forall>i. clk i = now" and "now \<noteq> 0"
  shows "if \<forall>k \<in> set ks. the (mfind (lens m) oldest) \<le> the (mfind (lens m) k)
    then \<exists>m'. oldest_scan clk i ks oldest m = Returns (oldest, m') \<and> all_free m' \<and> lens m' = lens m \<and> keys_ok m'
    else oldest_scan clk i ks oldest m = Undefined"
  using assms(1-4)
proof (induction ks arbitrary: i m)
  case (Cons k ks)
  obtain a b where ab: "mfind m k = Some a" "mfind m oldest = Some b"
    using Cons.prems by auto
  then have l: "mfind (lens m) k = Some (ci_len a)" "mfind (lens m) oldest = Some (ci_len b)"
    by (metis mfind_lens option.simps(9))+
  have ko: "k \<noteq> oldest"
    using Cons.prems by simp
  note r = round_result [OF Cons.prems(1,2) ab ko assms(5,6), of i]
  show ?case
  proof (cases "ci_len a < ci_len b")
    case True
    then show ?thesis
      using r l by auto
  next
    case False
    then obtain m1 where m1: "oldest_round clk i k oldest m = Returns (oldest, m1)" "all_free m1" "lens m1 = lens m" "keys_ok m1"
      using r by auto
    have "mfind m1 j \<noteq> None" if "mfind m j \<noteq> None" for j
      using that m1(3) mfind_lens by (metis option.map_disc_iff)
    then have "\<forall>k \<in> set ks. k \<noteq> oldest \<and> mfind m1 k \<noteq> None" "mfind m1 oldest \<noteq> None"
      using Cons.prems(3,4) by auto
    then show ?thesis
      using Cons.IH [OF m1(2,4), of "i + 1"] m1(1,3) False l
      by (cases "\<forall>k \<in> set ks. ci_len b \<le> the (mfind (lens m) k)") auto
  qed
qed simp

text \<open>
  C24: a full cache evicts the entry with the first name, or its behaviour is undefined. For entries nobody reads and a clock that stands still during the scan, the
  entry with the first name goes when none is smaller, however long ago any was used; as soon as a smaller one is found, a lock
  that is not held is released.
\<close>

theorem eviction_first_or_undefined:
  assumes "mc_items c = (k0, it0) # rest" and "keys_ok (mc_items c)" and "all_free (mc_items c)"
    and "\<forall>i. clk i = now" and "now \<noteq> 0"
  shows "if \<forall>(k, it) \<in> set rest. ci_len it0 \<le> ci_len it
    then \<exists>d. evict_oldest clk c = Returns d \<and> lens (mc_items d) = lens rest \<and> mc_size d = mc_size c - ucast (ci_len it0)
    else evict_oldest clk c = Undefined"
proof -
  let ?m = "mc_items c"
  have k0: "k0 \<notin> fst ` set rest" and kr: "keys_ok rest"
    using assms(1,2) by (auto simp: keys_ok_def)
  have f: "mfind ?m k = Some it" if "(k, it) \<in> set rest" for k it
    using that k0 in_set_mfind [OF assms(2)] assms(1) by simp
  then have "\<forall>k \<in> set (map fst rest). k \<noteq> k0 \<and> mfind ?m k \<noteq> None"
    using k0 by fastforce
  moreover have h: "mfind ?m k0 = Some it0"
    by (simp add: assms(1))
  moreover have "mfind (lens ?m) k0 = Some (ci_len it0)"
    using mfind_lens [of ?m k0] h by simp
  moreover have "(\<forall>k \<in> set (map fst rest). ci_len it0 \<le> the (mfind (lens ?m) k)) \<longleftrightarrow> (\<forall>(k, it) \<in> set rest. ci_len it0 \<le> ci_len it)"
    using f mfind_lens [of ?m] by (fastforce simp flip: mfind_lens)
  ultimately have s: "if \<forall>(k, it) \<in> set rest. ci_len it0 \<le> ci_len it
    then \<exists>m'. oldest_scan clk 0 (map fst rest) k0 ?m = Returns (k0, m') \<and> all_free m' \<and> lens m' = lens ?m \<and> keys_ok m'
    else oldest_scan clk 0 (map fst rest) k0 ?m = Undefined"
    using scan_result [OF assms(3,2) _ _ assms(4,5), of "map fst rest" k0 0] by simp
  have o: "find_oldest clk ?m = lbind (oldest_scan clk 0 (map fst rest) k0 ?m) (\<lambda>(o_it, m). Returns (Some o_it, m))"
    by (simp add: find_oldest_def assms(1))
  show ?thesis
  proof (cases "\<forall>(k, it) \<in> set rest. ci_len it0 \<le> ci_len it")
    case True
    then obtain m' where m': "oldest_scan clk 0 (map fst rest) k0 ?m = Returns (k0, m')" "all_free m'" "lens m' = lens ?m" "keys_ok m'"
      using s by auto
    obtain it rest' where i: "m' = (k0, it) # rest'" "ci_len it = ci_len it0" "lens rest' = lens rest"
      using m'(3) by (cases m') (auto simp: lens_def assms(1))
    have "merase k0 m' = rest'"
      using m'(4) by (auto simp: i(1) merase_def keys_ok_def filter_id_conv)
    moreover have "ci_readers it = 0"
      using m'(2) by (simp add: i(1) all_free_def)
    ultimately show ?thesis
      using True m'(1) i o by (simp add: evict_oldest_def item_delete_def)
  next
    case False
    then show ?thesis
      using s o by (simp add: evict_oldest_def)
  qed
qed

subsection \<open>Storing, finding and clearing\<close>

datatype 'a cache_op = Store string "'a cache_item" | Lock int string | Unlock string

fun run_cache :: "u64 \<Rightarrow> (nat \<Rightarrow> int) \<Rightarrow> 'a cache_op list \<Rightarrow> 'a cache_of \<Rightarrow> 'a cache_of lock_outcome" where
  "run_cache limit clk [] c = Returns c"
| "run_cache limit clk (x # xs) c =
     lbind (case x of Store k it \<Rightarrow> push_item limit clk k it c | Lock now k \<Rightarrow> Returns (snd (lock_item now k c)) | Unlock k \<Rightarrow> unlock_item k c)
       (run_cache limit clk xs)"

lemma lock_accounted: "accounted c \<Longrightarrow> accounted (snd (lock_item now k c))"
  by (auto simp: lock_item_def accounted_def stored_len_mmap item_rdlock_def split: option.splits)

lemma unlock_accounted: "unlock_item k c = Returns d \<Longrightarrow> accounted c \<Longrightarrow> accounted d"
  using unlock_at_len [of k "mc_items c"] by (auto simp: unlock_item_def lbind_Returns accounted_def)

text \<open>
  C25: the length of a cache is the length of what it holds. Whatever is stored, replaced, evicted, locked and released, as long as it returns the names stay distinct and the
  length is the sum of the lengths of the entries, modulo 2^64.
\<close>

theorem cache_accounted:
  assumes "accounted c" and "run_cache limit clk xs c = Returns d"
  shows "accounted d"
  using assms
proof (induction xs arbitrary: c)
  case (Cons x xs)
  then obtain c1 where "(case x of Store k it \<Rightarrow> push_item limit clk k it c | Lock now k \<Rightarrow> Returns (snd (lock_item now k c))
      | Unlock k \<Rightarrow> unlock_item k c) = Returns c1" and r: "run_cache limit clk xs c1 = Returns d"
    by (auto simp: lbind_Returns)
  then have "accounted c1"
    using push_accounted [OF _ Cons.prems(1)] lock_accounted [OF Cons.prems(1)] unlock_accounted [OF _ Cons.prems(1)]
    by (cases x) auto
  then show ?case
    by (rule Cons.IH [OF _ r])
qed simp

text \<open>
  clearing a cache that was full makes it useless. The length is not reset, so the next entry that is stored takes the cache for full and reads the
  oldest entry of a map without entries.
\<close>

theorem clear_then_push_undefined:
  assumes "all_free (mc_items c)" and "limit \<le> mc_size c"
  shows "\<exists>d. clear_items c = Returns d \<and> mc_items d = [] \<and> push_item limit clk k it d = Undefined"
proof -
  have "\<not> list_ex (\<lambda>(k, it). ci_readers it \<noteq> 0) (mc_items c)"
    using assms(1) by (auto simp: all_free_def list_all_iff list_ex_iff)
  then show ?thesis
    using assms(2) by (simp add: clear_items_def push_item_def evict_oldest_def find_oldest_def not_less)
qed

text \<open>
  what is stored is found until it is too old. After a push that returns, looking for the name gives the entry that was stored, up to its last second, and
  nothing afterwards.
\<close>

theorem stored_found:
  assumes "push_item limit clk k it c = Returns d"
  shows "find_item now k d = (if now \<le> ci_max_time it then Some it else None)"
  using assms by (auto simp: push_item_def lbind_Returns find_item_def item_fresh_def split: option.splits)

definition example_item :: "nat \<Rightarrow> unit cache_item" where
  "example_item n = \<lparr> ci_buf = replicate n 0, ci_len = word_of_nat n, ci_access = 0, ci_max_time = 900, ci_readers = 0, ci_about = () \<rparr>"

definition example_cache :: "unit cache_of" where
  "example_cache = \<lparr> mc_items = [(''a'', example_item 3), (''b'', example_item 2)], mc_size = 5 \<rparr>"

theorem eviction_first_or_undefined_witness: "evict_oldest (\<lambda>i. 1000) example_cache = Undefined"
  using eviction_first_or_undefined [of example_cache "''a''" "example_item 3" "[(''b'', example_item 2)]" "\<lambda>i. 1000" 1000]
  by (simp add: example_cache_def example_item_def keys_ok_def all_free_def less_char_def)

theorem clear_then_push_undefined_witness:
  "\<exists>d. clear_items example_cache = Returns d \<and> mc_items d = [] \<and> push_item 4 (\<lambda>i. 1000) ''c'' (example_item 1) d = Undefined"
  by (rule clear_then_push_undefined) (simp_all add: example_cache_def example_item_def all_free_def)

theorem stored_found_witness:
  "\<exists>d. push_item 100 (\<lambda>i. 1000) ''c'' (example_item 1) example_cache = Returns d \<and> find_item 900 ''c'' d = Some (example_item 1) \<and> find_item 901 ''c'' d = None"
proof -
  obtain d where d: "push_item 100 (\<lambda>i. 1000) ''c'' (example_item 1) example_cache = Returns d"
    by (simp add: push_item_def example_cache_def)
  then show ?thesis
    using stored_found [OF d, of 900] stored_found [OF d, of 901] by (simp add: example_item_def)
qed

theorem cache_accounted_witness:
  "\<exists>d. run_cache 100 (\<lambda>i. 1000) [Store ''c'' (example_item 1), Lock 7 ''a'', Unlock ''a''] example_cache = Returns d \<and> accounted d"
proof -
  have "accounted example_cache"
    by (simp add: example_cache_def accounted_def stored_len_def example_item_def keys_ok_def less_char_def)
  moreover obtain d where "run_cache 100 (\<lambda>i. 1000) [Store ''c'' (example_item 1), Lock 7 ''a'', Unlock ''a''] example_cache = Returns d"
    by (simp add: push_item_def example_cache_def lock_item_def unlock_item_def unlock_at_def item_unlock_def item_rdlock_def)
  ultimately show ?thesis
    using cache_accounted by blast
qed

end
