(* ===== verification/Spec2Isabelle.thy ===== *)
theory Spec2Isabelle
  imports Prelude Http2async Websocket Strutil Urlform Http1serve Session Httpcomm
    Http_relay Tunnel_relay Ringbuf Vars_shared Filecache
begin

text \<open>
  A verification development of the HTTP/2 server \<open>heaphttpd\<close>.
\<close>

end
